(* ===== verification/Kernel_Prelude.thy ===== *)
theory Kernel_Prelude
  imports Main "HOL-Library.Word" "HOL-Library.Monad_Syntax"
begin

text \<open>
  Shared vocabulary of the development: the C integer types the kernel code uses as machine
  words, the errno values, the page macros, the error-pointer convention, little-endian
  images of struct fields, and the generic lemmas on lists, options and words that the
  component theories rely on.

  Containers of the kernel's own base library are represented by the data they hold: an
  intrusive \<open>list_head\<close> list is the HOL list of its entries in traversal order, and a
  maple tree is the list of its entries in address order. Calls whose outcome the sources
  do not determine (permission hooks, allocation, copies to user space, resource limits)
  are fields of the environment records that the component theories declare.
\<close>

unbundle bit_operations_syntax

named_theorems page_simps \<open>page arithmetic on words, read through unat\<close>
named_theorems kernel_defs \<open>definitions that unfold when a system call is evaluated\<close>

section \<open>C integer types\<close>

type_synonym u8 = "8 word"
type_synonym u16 = "16 word"
type_synonym u32 = "32 word"
type_synonym u64 = "64 word"

text \<open>
  \<open>int\<close>, \<open>pid_t\<close>: 32 bits, read with \<open>sint\<close> where the code compares as signed. A system
  call's return value is the signed value the caller sees, so it is an \<open>int\<close>.
\<close>

type_synonym pid_t = "32 word"

section \<open>Errno values\<close>

abbreviation (input) EPERM :: int where "EPERM \<equiv> 1"
abbreviation (input) ESRCH :: int where "ESRCH \<equiv> 3"
abbreviation (input) EINTR :: int where "EINTR \<equiv> 4"
abbreviation (input) EBADF :: int where "EBADF \<equiv> 9"
abbreviation (input) EAGAIN :: int where "EAGAIN \<equiv> 11"
abbreviation (input) ENOMEM :: int where "ENOMEM \<equiv> 12"
abbreviation (input) EACCES :: int where "EACCES \<equiv> 13"
abbreviation (input) EFAULT :: int where "EFAULT \<equiv> 14"
abbreviation (input) EEXIST :: int where "EEXIST \<equiv> 17"
abbreviation (input) ENODEV :: int where "ENODEV \<equiv> 19"
abbreviation (input) EINVAL :: int where "EINVAL \<equiv> 22"
abbreviation (input) ETXTBSY :: int where "ETXTBSY \<equiv> 26"
abbreviation (input) ENOSYS :: int where "ENOSYS \<equiv> 38"
abbreviation (input) EOVERFLOW :: int where "EOVERFLOW \<equiv> 75"
abbreviation (input) EOPNOTSUPP :: int where "EOPNOTSUPP \<equiv> 95"

text \<open>
  An \<open>unsigned long\<close> that carries either an address or a negated errno: \<open>IS_ERR_VALUE\<close>
  holds for the top 4095 values.
\<close>

definition err_value :: "int \<Rightarrow> u64" where
  "err_value e = word_of_int (- e)"

definition IS_ERR_VALUE :: "u64 \<Rightarrow> bool" where
  "IS_ERR_VALUE x \<longleftrightarrow> - 4095 \<le> x"

section \<open>Pages\<close>

abbreviation (input) PAGE_SHIFT :: nat where "PAGE_SHIFT \<equiv> 12"
abbreviation (input) PAGE_SIZE :: u64 where "PAGE_SIZE \<equiv> 4096"
abbreviation (input) PAGE_MASK :: u64 where "PAGE_MASK \<equiv> NOT 4095"

definition PAGE_ALIGN :: "u64 \<Rightarrow> u64" where
  "PAGE_ALIGN x = (x + 4095) AND PAGE_MASK"

definition offset_in_page :: "u64 \<Rightarrow> u64" where
  "offset_in_page x = x AND 4095"

definition ALIGN_to :: "u64 \<Rightarrow> u64 \<Rightarrow> u64" where
  "ALIGN_to x a = (x + (a - 1)) AND NOT (a - 1)"

lemma unat_lt64: "unat (x :: u64) < 2 ^ 64"
  using unsigned_less [of x] by simp

lemma mask12 [simp]: "mask 12 = (4095 :: u64)"
  by (simp add: mask_eq_exp_minus_1)

lemma find_SomeD: "find P xs = Some x \<Longrightarrow> x \<in> set xs \<and> P x"
  by (induction xs) (auto split: if_splits)

lemma opt_eqI: "(\<And>x. a = Some x \<longleftrightarrow> b = Some x) \<Longrightarrow> a = b"
  by (cases a; cases b) auto

lemma length_filter_less_filter:
  assumes "x \<in> set xs" and "\<And>x. P x \<Longrightarrow> Q x" and "Q x" and "\<not> P x"
  shows "length (filter P xs) < length (filter Q xs)"
proof -
  have "filter P xs = filter P (filter Q xs)"
    using assms(2) by (induction xs) auto
  moreover have "length (filter P (filter Q xs)) < length (filter Q xs)"
    by (rule length_filter_less [of x]) (use assms in auto)
  ultimately show ?thesis by simp
qed

lemma div_le_of_le_mult: "x \<le> k * n \<Longrightarrow> x div n \<le> (k :: nat)"
  using div_le_mono [of x "k * n" n] by (cases "n = 0") simp_all

lemma unat_add_fits: "unat a + unat b < 2 ^ 64 \<Longrightarrow> unat (a + b :: u64) = unat a + unat b"
  by (simp add: unat_word_ariths)

lemma unat_mult_fits: "unat a * unat b < 2 ^ 64 \<Longrightarrow> unat (a * b :: u64) = unat a * unat b"
  by (simp add: unat_word_ariths)

lemma unat_drop_bit: "unat (drop_bit n x :: 'a::len word) = unat x div 2 ^ n"
  unfolding unsigned_drop_bit_eq take_bit_nat_eq_self [OF unsigned_less] by (rule drop_bit_eq_div)

lemma unat_drop_page [page_simps]: "unat (drop_bit 12 x) = unat (x :: u64) div 4096"
  by (simp add: drop_bit_eq_div unat_div_distrib)

lemma unat_offset_in_page [page_simps]: "unat (offset_in_page x) = unat x mod 4096"
proof -
  have "offset_in_page x = take_bit 12 x"
    by (simp add: offset_in_page_def take_bit_eq_mask)
  then have "unat (offset_in_page x) = take_bit 12 (unat x)"
    by (simp only: unsigned_take_bit_eq)
  then show ?thesis
    by (simp add: take_bit_eq_mod)
qed

lemma and_page_mask_eq: "x AND PAGE_MASK = x - offset_in_page x"
proof -
  have "x = (x AND PAGE_MASK) + (x AND 4095)"
    by (subst disjunctive_add) (auto intro!: bit_word_eqI simp: bit_simps simp flip: mask12)
  then show ?thesis
    by (simp add: offset_in_page_def algebra_simps)
qed

lemma offset_in_page_le: "offset_in_page x \<le> x"
  by (simp add: word_le_nat_alt page_simps)

lemma unat_and_page_mask [page_simps]:
  "unat (x AND PAGE_MASK) = unat x div 4096 * 4096"
proof -
  have "unat (x AND PAGE_MASK) = unat x - unat (offset_in_page x)"
    unfolding and_page_mask_eq by (rule unat_sub [OF offset_in_page_le])
  also have "\<dots> = unat x div 4096 * 4096"
    by (simp add: page_simps minus_mod_eq_div_mult)
  finally show ?thesis .
qed

lemma unat_PAGE_ALIGN [page_simps]:
  assumes "unat x + 4095 < 2 ^ 64"
  shows "unat (PAGE_ALIGN x) = (unat x + 4095) div 4096 * 4096"
proof -
  have "unat (x + 4095) = unat x + 4095"
    using assms by (simp add: unat_word_ariths)
  then show ?thesis
    unfolding PAGE_ALIGN_def unat_and_page_mask by simp
qed

lemma PAGE_ALIGN_overflow:
  assumes "2 ^ 64 \<le> unat x + 4095"
  shows "PAGE_ALIGN x = 0"
proof -
  have "unat (x + 4095) = unat x + 4095 - 2 ^ 64"
    using assms unat_lt64 [of x] by (simp add: unat_word_ariths mod_if)
  also have "\<dots> < 4096"
    using unat_lt64 [of x] by simp
  finally have "unat (PAGE_ALIGN x) = 0"
    unfolding PAGE_ALIGN_def unat_and_page_mask by simp
  then show ?thesis
    by (simp only: unat_eq_zero)
qed

lemma PAGE_ALIGN_eq_0_iff: "PAGE_ALIGN x = 0 \<longleftrightarrow> x = 0 \<or> 2 ^ 64 \<le> unat x + 4095"
proof (cases "unat x + 4095 < 2 ^ 64")
  case True
  have "PAGE_ALIGN x = 0 \<longleftrightarrow> unat (PAGE_ALIGN x) = 0"
    by (simp only: unat_eq_zero)
  also have "\<dots> \<longleftrightarrow> unat x = 0"
    by (simp only: unat_PAGE_ALIGN [OF True]) (simp add: div_eq_0_iff)
  also have "\<dots> \<longleftrightarrow> x = 0"
    by (simp only: unat_eq_zero)
  finally show ?thesis using True by auto
next
  case False
  then show ?thesis using PAGE_ALIGN_overflow [of x] by auto
qed

lemma page_round_up: "(n :: nat) \<le> (n + 4095) div 4096 * 4096" "(n + 4095) div 4096 * 4096 < n + 4096"
  using div_mult_mod_eq [of "n + 4095" 4096] mod_less_divisor [of 4096 "n + 4095"] by linarith+

lemma PAGE_ALIGN_bounds:
  assumes "unat x + 4095 < 2 ^ 64"
  shows "unat x \<le> unat (PAGE_ALIGN x)" and "unat (PAGE_ALIGN x) < unat x + 4096"
  by (simp_all only: unat_PAGE_ALIGN [OF assms] page_round_up)

lemma page_aligned_iff: "offset_in_page x = 0 \<longleftrightarrow> unat x mod 4096 = 0"
  by (metis unat_0 unat_eq_zero unat_offset_in_page)

lemma page_aligned_obtain:
  assumes "offset_in_page x = 0"
  obtains q where "unat x = 4096 * q" and "q < 2 ^ 52"
proof
  show "unat x = 4096 * (unat x div 4096)"
    using assms by (simp add: page_aligned_iff mod_0_imp_dvd)
  then show "unat x div 4096 < 2 ^ 52"
    using unat_lt64 [of x] by simp
qed

lemma PAGE_ALIGN_aligned [simp]: "offset_in_page (PAGE_ALIGN x) = 0"
  by (simp only: page_aligned_iff PAGE_ALIGN_def unat_and_page_mask) simp

lemma PAGE_ALIGN_id: "offset_in_page x = 0 \<Longrightarrow> PAGE_ALIGN x = x"
proof -
  assume "offset_in_page x = 0"
  then obtain q where q: "unat x = 4096 * q" "q < 2 ^ 52"
    by (rule page_aligned_obtain)
  then have "unat (PAGE_ALIGN x) = unat x"
    by (subst unat_PAGE_ALIGN) simp_all
  then show ?thesis
    by (simp only: word_unat_eq_iff)
qed

text \<open>Sign extension of a non-negative \<open>int\<close> to \<open>size_t\<close> keeps its value.\<close>

lemma sint_of_int32: "- (2 ^ 31) \<le> i \<Longrightarrow> i < 2 ^ 31 \<Longrightarrow> sint (word_of_int i :: u32) = i"
  by (simp add: signed_of_int signed_take_bit_int_eq_self)

lemma sint_of_int64: "- (2 ^ 63) \<le> i \<Longrightarrow> i < 2 ^ 63 \<Longrightarrow> sint (word_of_int i :: u64) = i"
  by (simp add: signed_of_int signed_take_bit_int_eq_self)

lemma sint_small: "unat (c :: u32) < 2 ^ 31 \<Longrightarrow> sint c = int (unat c)"
proof -
  assume "unat c < 2 ^ 31"
  then have small: "int (unat c) < 2 ^ 31"
    by (metis of_nat_less_iff of_nat_numeral of_nat_power)
  have "- (2 ^ 31) \<le> int (unat c)"
    by (rule order_trans [of _ 0]) simp_all
  then have "signed_take_bit 31 (int (unat c)) = int (unat c)"
    using small by (rule signed_take_bit_int_eq_self)
  then show ?thesis by (simp add: sint_uint)
qed

lemma unat_nonneg: "0 \<le> sint (p :: u32) \<Longrightarrow> unat p < 2 ^ 31"
proof -
  assume nn: "0 \<le> sint p"
  have lt: "sint p < 2 ^ 31" using sint_lt [of p] by simp
  have "uint p = uint (word_of_int (sint p) :: u32)" by simp
  also have "\<dots> = take_bit 32 (sint p)" by (simp only: uint_word_of_int_eq) simp
  also have "\<dots> = sint p" using nn lt by (intro take_bit_int_eq_self) simp_all
  finally have "int (unat p) < 2 ^ 31" using lt by simp
  then show ?thesis  by (metis of_nat_less_iff of_nat_numeral of_nat_power)
qed

lemma unat_scast_small:
  assumes "unat (c :: u32) < 2 ^ 31"
  shows "unat (scast c :: u64) = unat c"
proof -
  have "(scast c :: u64) = word_of_nat (unat c)"
    by (simp only: scast_eq sint_small [OF assms]) simp
  then show ?thesis
    using assms by (simp add: unsigned_ucast_eq take_bit_nat_eq_self)
qed

section \<open>Error values\<close>

lemma unat_err_value:
  assumes "0 < e" and "e \<le> 4095"
  shows "unat (err_value e) = 2 ^ 64 - nat e"
proof -
  have "uint (err_value e) = (- e) mod 2 ^ 64"
    unfolding err_value_def by (simp only: uint_word_of_int_eq take_bit_eq_mod) simp
  also have "\<dots> = 2 ^ 64 - e"
    using assms by (simp add: zmod_zminus1_eq_if)
  finally show ?thesis
    using assms by (simp only: unat_eq_nat_uint) (simp add: nat_diff_distrib)
qed

lemma IS_ERR_VALUE_unat: "IS_ERR_VALUE x \<longleftrightarrow> 2 ^ 64 - 4095 \<le> unat x"
  by (simp add: IS_ERR_VALUE_def word_le_nat_alt)

lemma IS_ERR_VALUE_err_value [simp]:
  "0 < e \<Longrightarrow> e \<le> 4095 \<Longrightarrow> IS_ERR_VALUE (err_value e)"
  by (simp add: IS_ERR_VALUE_unat unat_err_value)

text \<open>
  A page-aligned value is never an error value: the kernel relies on this when a function
  returns either an address or an errno.
\<close>

lemma aligned_not_err: "offset_in_page x = 0 \<Longrightarrow> \<not> IS_ERR_VALUE x"
  by (erule page_aligned_obtain) (simp add: IS_ERR_VALUE_unat)

section \<open>Struct fields in memory\<close>

text \<open>Little-endian images, least significant byte first.\<close>

fun le_bytes :: "nat \<Rightarrow> 'a::len word \<Rightarrow> u8 list" where
  "le_bytes 0 w = []"
| "le_bytes (Suc n) w = ucast w # le_bytes n (drop_bit 8 w)"

fun le_word :: "u8 list \<Rightarrow> 'a::len word" where
  "le_word [] = 0"
| "le_word (b # bs) = ucast b OR push_bit 8 (le_word bs)"

lemma length_le_bytes [simp]: "length (le_bytes n w) = n"
  by (induction n arbitrary: w) auto

lemma le_word_le_bytes: "le_word (le_bytes n w) = take_bit (8 * n) w"
proof (induction n arbitrary: w)
  case 0
  then show ?case by simp
next
  case (Suc n)
  show ?case
    by (rule bit_word_eqI) (auto simp: Suc.IH bit_simps)
qed

lemma le_word_bits: "bit (le_word bs :: 'a::len word) i \<Longrightarrow> i < 8 * length bs"
proof (induction bs arbitrary: i)
  case (Cons b bs)
  from Cons.prems consider "bit b i" | "8 \<le> i" "bit (le_word bs :: 'a word) (i - 8)"
    by (auto simp: bit_simps)
  then show ?case
  proof cases
    case 1
    then have "i < 8" using bit_imp_le_length by fastforce
    then show ?thesis by simp
  next
    case 2
    then show ?thesis using Cons.IH [of "i - 8"] by simp
  qed
qed simp

lemma le_bytes_le_word:
  "8 * length bs \<le> LENGTH('a) \<Longrightarrow> le_bytes (length bs) (le_word bs :: 'a::len word) = bs"
proof (induction bs)
  case (Cons b bs)
  have low: "ucast (le_word (b # bs) :: 'a word) = b"
    by (rule bit_word_eqI) (use Cons.prems in \<open>auto simp: bit_simps\<close>)
  have high: "drop_bit 8 (le_word (b # bs) :: 'a word) = le_word bs"
  proof (rule bit_word_eqI)
    fix n
    assume "n < LENGTH('a)"
    have "8 + n < LENGTH('a)" if "bit (le_word bs :: 'a word) n"
      using le_word_bits [OF that] Cons.prems by simp
    then show "bit (drop_bit 8 (le_word (b # bs) :: 'a word)) n = bit (le_word bs :: 'a word) n"
      using bit_imp_le_length [of b "8 + n"] by (auto simp: bit_simps)
  qed
  show ?case
    using Cons.IH Cons.prems by (simp only: length_Cons le_bytes.simps low high) simp
qed simp
lemma nth_concat_blocks:
  assumes "\<forall>b \<in> set bs. length b = w" and "i < length bs" and "k < w"
  shows "concat bs ! (w * i + k) = bs ! i ! k"
  using assms
proof (induction bs arbitrary: i)
  case Nil
  then show ?case by simp
next
  case (Cons b bs)
  then show ?case
    by (cases i) (simp_all add: nth_append add.assoc)
qed

end
