(* ===== verification/Kernel_Types.thy ===== *)
theory Kernel_Types
  imports Kernel_Prelude
begin

text \<open>
  The kernel structures that more than one component reads or writes: a process address
  space (\<open>struct mm_struct\<close>) with its memory areas (\<open>struct vm_area_struct\<close>), and a task
  as the memory system calls see it. Each record has the fields the modelled sources touch.

  The address space keeps two things apart, as the kernel does: the area objects
  themselves, reached by pointer (\<open>vmas\<close>), and the maple tree \<open>mm_mt\<close>, which maps address
  ranges to pointers. An entry of the tree is (first address, one past the last, pointer),
  and the entries are in address order.
\<close>

type_synonym vma_ptr = nat
type_synonym mt_entry = "u64 \<times> u64 \<times> vma_ptr"

record vm_area_struct =
  vm_start :: u64
  vm_end :: u64
  vm_flags :: u64
  vm_pgoff :: u64
  vm_page_prot :: u64
  vm_file :: "nat option"
  vm_ops :: "nat option"
  anon_vma :: "nat option"
  anon_vma_chain :: "nat list"
  vm_policy :: "nat option"
  vm_userfaultfd_ctx :: "nat option"
  anon_name :: "string option"
  vm_private_data :: "nat option"

text \<open>
  Calls that the memory code makes on other parts of the kernel and whose effect lies outside
  the address space: reverse-mapping trees, reference counts, page tables, accounting. Each
  address space carries the calls made so far, in order.
\<close>

datatype mm_call =
    IMmapInsert vma_ptr | IMmapRemove vma_ptr
  | MappingAllowWritable nat | MappingUnmapWritable nat | MappingMapWritable nat
  | AnonTreeInsert vma_ptr | AnonTreeRemove vma_ptr
  | AnonVmaMerge vma_ptr vma_ptr | UnlinkAnonVmas vma_ptr
  | GetFile nat | Fput nat | VmOpsOpen vma_ptr | VmOpsClose vma_ptr | MpolPut "nat option"
  | UnmapVmas u64 u64 | FreePgtables u64 u64
  | VmAcctMemory u64 | VmUnacctMemory u64 | MmPopulate u64 u64

record mm_struct =
  mm_mt :: "mt_entry list"
  vmas :: "vma_ptr \<Rightarrow> vm_area_struct option"
  map_count :: int
  total_vm :: u64
  hiwater_vm :: u64
  data_vm :: u64
  exec_vm :: u64
  stack_vm :: u64
  locked_vm :: u64
  def_flags :: u64
  mmap_base :: u64
  start_code :: u64
  end_code :: u64
  start_data :: u64
  end_data :: u64
  start_brk :: u64
  brk :: u64
  start_stack :: u64
  arg_start :: u64
  arg_end :: u64
  env_start :: u64
  env_end :: u64
  saved_auxv :: "u64 list"
  mm_calls :: "mm_call list"

record task_struct =
  pid :: pid_t
  task_mm :: "mm_struct option"
  oom_score_adj :: "int option" \<comment> \<open>\<open>None\<close> when \<open>task->signal\<close> is \<open>NULL\<close>\<close>

text \<open>
  What the system calls ask of the rest of the kernel and the sources do not determine: the
  task of a pid, and the copy of bytes to user memory, \<open>copy_to_user dst bytes m\<close>, which
  gives the number of bytes that could not be copied and the resulting user memory. The
  environment of a component extends this record.
\<close>

type_synonym umem = "u64 \<Rightarrow> u8"

record user_env =
  find_task_by_vpid :: "pid_t \<Rightarrow> task_struct option"
  copy_to_user :: "u64 \<Rightarrow> u8 list \<Rightarrow> umem \<Rightarrow> nat \<times> umem"

definition write_bytes :: "u64 \<Rightarrow> u8 list \<Rightarrow> umem \<Rightarrow> umem" where
  "write_bytes dst bs m a = (let k = unat (a - dst) in if k < length bs then bs ! k else m a)"

text \<open>
  \<open>copy_to_user\<close> as documented: when it reports that no byte was left uncopied, the bytes
  are in user memory at the destination.
\<close>

definition copy_law :: "'a user_env_scheme \<Rightarrow> bool" where
  "copy_law env \<longleftrightarrow> (\<forall>dst bs m. fst (copy_to_user env dst bs m) = 0
     \<longrightarrow> snd (copy_to_user env dst bs m) = write_bytes dst bs m)"

lemma copy_lawD: "copy_law env \<Longrightarrow> copy_to_user env dst bs m = (0, m') \<Longrightarrow> m' = write_bytes dst bs m"
  unfolding copy_law_def by (metis fst_conv snd_conv)

definition read_bytes :: "umem \<Rightarrow> u64 \<Rightarrow> nat \<Rightarrow> u8 list" where
  "read_bytes m a n = map (\<lambda>k. m (a + of_nat k)) [0..<n]"

lemma length_read_bytes [simp]: "length (read_bytes m a n) = n"
  by (simp add: read_bytes_def)

lemma write_bytes_hit:
  "j < length bs \<Longrightarrow> length bs < 2 ^ 64 \<Longrightarrow> write_bytes dst bs m (dst + of_nat j) = bs ! j"
  by (simp add: write_bytes_def unsigned_of_nat take_bit_nat_eq_self)

lemma read_write_bytes:
  "length bs < 2 ^ 64 \<Longrightarrow> n = length bs \<Longrightarrow> read_bytes (write_bytes a bs m) a n = bs"
  by (rule nth_equalityI) (simp_all add: read_bytes_def write_bytes_hit)

lemma write_bytes_append:
  assumes "length xs + length ys < 2 ^ 64"
  shows "write_bytes (a + of_nat (length xs)) ys (write_bytes a xs m) = write_bytes a (xs @ ys) m"
proof
  fix b
  let ?k = "unat (b - a)"
  have len: "unat (of_nat (length xs) :: u64) = length xs"
    using assms by (simp add: unsigned_of_nat take_bit_nat_eq_self)
  have "b - (a + of_nat (length xs)) = (b - a) - of_nat (length xs)"
    by (simp only: diff_diff_eq)
  then have shift: "unat (b - (a + of_nat (length xs))) = (if length xs \<le> ?k then ?k - length xs
      else ?k + 2 ^ 64 - length xs)"
    by (simp only: unat_sub_if' len) simp
  show "write_bytes (a + of_nat (length xs)) ys (write_bytes a xs m) b = write_bytes a (xs @ ys) m b"
    unfolding write_bytes_def Let_def shift using assms unat_lt64 [of "b - a"]
    by (simp only: length_append nth_append) (simp split: if_splits, linarith)
qed

lemma read_bytes_slice:
  "off + n \<le> N \<Longrightarrow> read_bytes m (a + of_nat off) n = take n (drop off (read_bytes m a N))"
  by (rule nth_equalityI) (simp_all add: read_bytes_def add.assoc)

lemma read_bytes_write_slice:
  assumes "off + n \<le> length bs" and "length bs < 2 ^ 64"
  shows "read_bytes (write_bytes a bs m) (a + of_nat off) n = take n (drop off bs)"
  using read_bytes_slice [OF assms(1), of "write_bytes a bs m" a] assms(2)
  by (simp add: read_write_bytes)

lemma read_block:
  assumes "\<And>b. b \<in> set bs \<Longrightarrow> length b = w" and "i < length bs" and "w * length bs < 2 ^ 64"
  shows "read_bytes (write_bytes a (concat bs) m) (a + of_nat (w * i)) w = bs ! i"
proof -
  have len: "length (concat bs) = w * length bs"
    using assms(1) by (induction bs) auto
  have room: "w * i + w \<le> w * length bs"
    using assms(2) by (metis Suc_leI add.commute mult_Suc_right mult_le_mono2)
  have "take w (drop (w * i) (concat bs)) = bs ! i"
  proof (rule nth_equalityI)
    show "length (take w (drop (w * i) (concat bs))) = length (bs ! i)"
      using room len assms(1) [OF nth_mem [OF assms(2)]] by simp
    fix k
    assume "k < length (take w (drop (w * i) (concat bs)))"
    then have "k < w" by simp
    with room len assms show "take w (drop (w * i) (concat bs)) ! k = bs ! i ! k"
      by (simp add: nth_concat_blocks)
  qed
  then show ?thesis
    using read_bytes_write_slice [of "w * i" w "concat bs" a m] room len assms(3) by simp
qed

text \<open>An address space with nothing mapped, for concrete examples.\<close>

definition empty_mm :: mm_struct where
  "empty_mm = \<lparr>mm_mt = [], vmas = (\<lambda>_. None), map_count = 0, total_vm = 0, hiwater_vm = 0,
     data_vm = 0, exec_vm = 0, stack_vm = 0, locked_vm = 0, def_flags = 0, mmap_base = 0, start_code = 0,
     end_code = 0, start_data = 0, end_data = 0, start_brk = 0, brk = 0, start_stack = 0,
     arg_start = 0, arg_end = 0, env_start = 0, env_end = 0, saved_auxv = [],
     mm_calls = []\<rparr>"

end
