(* ===== verification/Mem_Limits.thy ===== *)
theory Mem_Limits
  imports Kernel_Types
begin

text \<open>
  The process memory limiter, \<open>kernel/usac/project3/crudmemlimit.c\<close>: the list of limited
  processes, the admission check that the \<open>brk\<close> and \<open>mmap\<close> paths call, and the four system
  calls that create, read, update and delete limits.

  The state is the list \<open>memory_list\<close> (head first), its mutex, and the number of live
  \<open>kmalloc\<close> objects this file owns, so that a path that returns with the mutex held or
  without its \<open>kfree\<close> shows in the result. \<open>mutex_lock\<close> on a mutex that is already held,
  \<open>mutex_unlock\<close> on one that is not, \<open>kfree\<close> without a live object and a store outside an
  allocated buffer give \<open>None\<close>.
\<close>

section \<open>Data\<close>

record memory_limitation =
  ml_pid :: pid_t
  memory_limit :: u64

record limits_state =
  memory_list :: "memory_limitation list"
  memory_list_mutex :: bool \<comment> \<open>held\<close>
  kmalloc_live :: nat

datatype klog = InvalidPidSearch | InvalidTotalVm | CallDenied pid_t | CallAllowed pid_t u64

text \<open>
  What the sources do not determine: the outcome of the capability check and of the
  allocations; \<open>heap_junk\<close> is what a freshly allocated, uninitialised buffer holds.
\<close>

record limits_env = user_env +
  cap_sys_admin :: bool
  kmalloc_entry_ok :: bool
  kmalloc_array_ok :: "u64 \<Rightarrow> u64 \<Rightarrow> bool"
  heap_junk :: "nat \<Rightarrow> u8"

definition mutex_lock :: "limits_state \<Rightarrow> limits_state option" where
  "mutex_lock s = (if memory_list_mutex s then None else Some (s\<lparr>memory_list_mutex := True\<rparr>))"

definition mutex_unlock :: "limits_state \<Rightarrow> limits_state option" where
  "mutex_unlock s = (if memory_list_mutex s then Some (s\<lparr>memory_list_mutex := False\<rparr>) else None)"

definition kmalloc :: "limits_state \<Rightarrow> limits_state" where
  "kmalloc s = s\<lparr>kmalloc_live := Suc (kmalloc_live s)\<rparr>"

definition kfree :: "limits_state \<Rightarrow> limits_state option" where
  "kfree s = (if kmalloc_live s = 0 then None
     else Some (s\<lparr>kmalloc_live := kmalloc_live s - 1\<rparr>))"

section \<open>The admission check\<close>

text \<open>\<open>list_for_each_entry\<close> with the test on the pid: the first entry of that pid.\<close>

definition find_entry :: "pid_t \<Rightarrow> memory_limitation list \<Rightarrow> memory_limitation option" where
  "find_entry p xs = find (\<lambda>e. ml_pid e = p) xs"

definition is_request_accepted ::
  "limits_env \<Rightarrow> pid_t \<Rightarrow> u64 \<Rightarrow> limits_state \<Rightarrow> (bool \<times> klog list \<times> limits_state) option" where
  "is_request_accepted env p requested_memory s =
    (case find_task_by_vpid env p of
      None \<Rightarrow> Some (False, [InvalidPidSearch], s)
    | Some task \<Rightarrow>
      (case task_mm task of
        None \<Rightarrow> Some (False, [InvalidTotalVm], s)
      | Some m \<Rightarrow>
        (let current_usage = push_bit PAGE_SHIFT (total_vm m)
         in do {
           s1 \<leftarrow> mutex_lock s;
           case find_entry p (memory_list s1) of
             Some entry \<Rightarrow>
               (if current_usage + requested_memory > memory_limit entry
                then do {
                  s2 \<leftarrow> mutex_unlock s1;
                  Some (False, [CallDenied p], s2) }
                else do {
                  s2 \<leftarrow> mutex_unlock s1;
                  Some (True, [CallAllowed p current_usage], s2) })
           | None \<Rightarrow> do {
               s2 \<leftarrow> mutex_unlock s1;
               Some (True, [], s2) }
         })))"

section \<open>Create\<close>

definition julioz_add_memory_limit ::
  "limits_env \<Rightarrow> pid_t \<Rightarrow> u64 \<Rightarrow> limits_state \<Rightarrow> (int \<times> limits_state) option" where
  "julioz_add_memory_limit env process_pid limit s =
    (if sint process_pid < 0 \<or> limit < 0 then Some (- EINVAL, s)
     else if \<not> cap_sys_admin env then Some (- EPERM, s)
     else (case find_task_by_vpid env process_pid of
       None \<Rightarrow> Some (- ESRCH, s)
     | Some task \<Rightarrow> do {
         s1 \<leftarrow> mutex_lock s;
         case find_entry process_pid (memory_list s1) of
           Some existing_entry \<Rightarrow> do {
             s2 \<leftarrow> mutex_unlock s1;
             Some (- 101, s2) }
         | None \<Rightarrow>
             (if \<not> kmalloc_entry_ok env
              then do {
                s2 \<leftarrow> mutex_unlock s1;
                Some (- ENOMEM, s2) }
              else
                (let s2 = kmalloc s1;
                     entry = \<lparr>ml_pid = process_pid, memory_limit = limit\<rparr>;
                     s3 = s2\<lparr>memory_list := entry # memory_list s2\<rparr>
                 in do {
                   s4 \<leftarrow> mutex_unlock s3;
                   Some (0, s4) }))
       }))"

section \<open>Read\<close>

text \<open>
  One element of the array handed to user space: the 4 bytes of the pid, 4 bytes of
  padding before the 8-byte aligned limit, the 8 bytes of the limit.
\<close>

definition sizeof_memory_limitation :: nat where
  "sizeof_memory_limitation = 16"

definition store_bytes :: "nat \<Rightarrow> u8 list \<Rightarrow> u8 list \<Rightarrow> u8 list option" where
  "store_bytes off bs buf =
    (if off + length bs \<le> length buf
     then Some (take off buf @ bs @ drop (off + length bs) buf) else None)"

text \<open>\<open>k_processes_buffer[i].pid = ...; k_processes_buffer[i].memory_limit = ...\<close>\<close>

definition store_entry :: "nat \<Rightarrow> memory_limitation \<Rightarrow> u8 list \<Rightarrow> u8 list option" where
  "store_entry i e buf = do {
     b1 \<leftarrow> store_bytes (i * sizeof_memory_limitation) (le_bytes 4 (ml_pid e)) buf;
     store_bytes (i * sizeof_memory_limitation + 8) (le_bytes 8 (memory_limit e)) b1 }"

text \<open>
  The copy loop. \<open>count\<close> is a C \<open>int\<close> compared with a \<open>size_t\<close>, so it is converted by sign
  extension.
\<close>

fun fill_buffer ::
  "u64 \<Rightarrow> memory_limitation list \<Rightarrow> u32 \<Rightarrow> u8 list \<Rightarrow> (u32 \<times> u8 list) option" where
  "fill_buffer max_entries [] count buf = Some (count, buf)"
| "fill_buffer max_entries (e # es) count buf =
    (if scast count \<ge> max_entries then Some (count, buf)
     else do {
       buf' \<leftarrow> store_entry (unat count) e buf;
       fill_buffer max_entries es (count + 1) buf' })"

definition julioz_get_memory_limits ::
  "limits_env \<Rightarrow> u64 \<Rightarrow> u64 \<Rightarrow> u64 \<Rightarrow> limits_state \<Rightarrow> umem
    \<Rightarrow> (int \<times> limits_state \<times> umem) option" where
  "julioz_get_memory_limits env u_processes_buffer max_entries processes_returned s m =
    (if \<not> kmalloc_array_ok env max_entries (of_nat sizeof_memory_limitation)
     then Some (- ENOMEM, s, m)
     else
       (let s1 = kmalloc s;
            k_processes_buffer =
              map (heap_junk env) [0..<unat max_entries * sizeof_memory_limitation]
        in do {
          s2 \<leftarrow> mutex_lock s1;
          (count, buf) \<leftarrow> fill_buffer max_entries (memory_list s2) 0 k_processes_buffer;
          s3 \<leftarrow> mutex_unlock s2;
          (let n = unat (scast count * of_nat sizeof_memory_limitation :: u64);
               (left, m1) = copy_to_user env u_processes_buffer (take n buf) m
           in if left \<noteq> 0
              then do {
                s4 \<leftarrow> kfree s3;
                Some (- EFAULT, s4, m1) }
              else
                (let (left2, m2) = copy_to_user env processes_returned (le_bytes 4 count) m1
                 in if left2 \<noteq> 0
                    then do {
                      s4 \<leftarrow> kfree s3;
                      Some (- EFAULT, s4, m2) }
                    else do {
                      s4 \<leftarrow> kfree s3;
                      Some (0, s4, m2) }))
        }))"

section \<open>Update\<close>

fun set_first :: "pid_t \<Rightarrow> u64 \<Rightarrow> memory_limitation list \<Rightarrow> memory_limitation list option" where
  "set_first p l [] = None"
| "set_first p l (e # es) =
    (if ml_pid e = p then Some (e\<lparr>memory_limit := l\<rparr> # es)
     else map_option (Cons e) (set_first p l es))"

definition julioz_update_memory_limit ::
  "limits_env \<Rightarrow> pid_t \<Rightarrow> u64 \<Rightarrow> limits_state \<Rightarrow> (int \<times> limits_state) option" where
  "julioz_update_memory_limit env process_pid limit s =
    (if sint process_pid < 0 \<or> limit < 0 then Some (- EINVAL, s)
     else if \<not> cap_sys_admin env then Some (- EPERM, s)
     else do {
       s1 \<leftarrow> mutex_lock s;
       case set_first process_pid limit (memory_list s1) of
         Some xs \<Rightarrow> do {
           s2 \<leftarrow> mutex_unlock (s1\<lparr>memory_list := xs\<rparr>);
           Some (0, s2) }
       | None \<Rightarrow> do {
           s2 \<leftarrow> mutex_unlock s1;
           Some (- ESRCH, s2) }
     })"

section \<open>Delete\<close>

fun del_first :: "pid_t \<Rightarrow> memory_limitation list \<Rightarrow> memory_limitation list option" where
  "del_first p [] = None"
| "del_first p (e # es) =
    (if ml_pid e = p then Some es else map_option (Cons e) (del_first p es))"

definition julioz_remove_memory_limit ::
  "limits_env \<Rightarrow> pid_t \<Rightarrow> limits_state \<Rightarrow> (int \<times> limits_state) option" where
  "julioz_remove_memory_limit env process_pid s =
    (if sint process_pid < 0 then Some (- EINVAL, s)
     else if \<not> cap_sys_admin env then Some (- EPERM, s)
     else do {
       s1 \<leftarrow> mutex_lock s;
       case del_first process_pid (memory_list s1) of
         Some xs \<Rightarrow> do {
           s2 \<leftarrow> kfree (s1\<lparr>memory_list := xs\<rparr>);
           s3 \<leftarrow> mutex_unlock s2;
           Some (0, s3) }
       | None \<Rightarrow> do {
           s2 \<leftarrow> mutex_unlock s1;
           Some (- ESRCH, s2) }
     })"

section \<open>The list as a map from pids to limits\<close>

definition limits_of :: "memory_limitation list \<Rightarrow> pid_t \<Rightarrow> u64 option" where
  "limits_of xs p = map_option memory_limit (find_entry p xs)"

definition distinct_pids :: "memory_limitation list \<Rightarrow> bool" where
  "distinct_pids xs \<longleftrightarrow> distinct (map ml_pid xs)"

text \<open>
  The interface the admission check relies on: a store of limits by pid with the three
  list primitives of the file. \<open>admits\<close> is the decision of the check for a process that
  currently uses \<open>u\<close> bytes and asks for \<open>r\<close> more.
\<close>

locale limit_store =
  fixes lookup :: "'s \<Rightarrow> pid_t \<Rightarrow> u64 option"
    and insert_limit :: "pid_t \<Rightarrow> u64 \<Rightarrow> 's \<Rightarrow> 's"
    and set_limit :: "pid_t \<Rightarrow> u64 \<Rightarrow> 's \<Rightarrow> 's option"
    and delete_limit :: "pid_t \<Rightarrow> 's \<Rightarrow> 's option"
    and store_inv :: "'s \<Rightarrow> bool"
  assumes lookup_insert: "lookup s p = None \<Longrightarrow> lookup (insert_limit p l s) = (lookup s)(p \<mapsto> l)"
    and inv_insert: "store_inv s \<Longrightarrow> lookup s p = None \<Longrightarrow> store_inv (insert_limit p l s)"
    and set_none: "set_limit p l s = None \<longleftrightarrow> lookup s p = None"
    and lookup_set: "set_limit p l s = Some s' \<Longrightarrow> lookup s' = (lookup s)(p \<mapsto> l)"
    and inv_set: "store_inv s \<Longrightarrow> set_limit p l s = Some s' \<Longrightarrow> store_inv s'"
    and delete_none: "delete_limit p s = None \<longleftrightarrow> lookup s p = None"
    and lookup_delete:
      "store_inv s \<Longrightarrow> delete_limit p s = Some s' \<Longrightarrow> lookup s' = (lookup s)(p := None)"
    and inv_delete: "store_inv s \<Longrightarrow> delete_limit p s = Some s' \<Longrightarrow> store_inv s'"
begin

definition admits :: "'s \<Rightarrow> pid_t \<Rightarrow> u64 \<Rightarrow> u64 \<Rightarrow> bool" where
  "admits s p u r \<longleftrightarrow> (case lookup s p of None \<Rightarrow> True | Some l \<Rightarrow> u + r \<le> l)"

lemma admits_after_insert:
  "lookup s p = None \<Longrightarrow>
    admits (insert_limit p l s) q u r \<longleftrightarrow> (if q = p then u + r \<le> l else admits s q u r)"
  by (simp add: admits_def lookup_insert)

lemma admits_after_set:
  "set_limit p l s = Some s' \<Longrightarrow>
    admits s' q u r \<longleftrightarrow> (if q = p then u + r \<le> l else admits s q u r)"
  by (simp add: admits_def lookup_set)

lemma admits_after_delete:
  "store_inv s \<Longrightarrow> delete_limit p s = Some s' \<Longrightarrow>
    admits s' q u r \<longleftrightarrow> (q = p \<or> admits s q u r)"
  by (auto simp: admits_def lookup_delete)

lemma delete_restores:
  "store_inv s \<Longrightarrow> lookup s p = None \<Longrightarrow>
    \<exists>s'. delete_limit p (insert_limit p l s) = Some s' \<and> lookup s' = lookup s"
proof -
  assume inv: "store_inv s" and free: "lookup s p = None"
  have "lookup (insert_limit p l s) p \<noteq> None"
    using free by (simp add: lookup_insert)
  then obtain s' where s': "delete_limit p (insert_limit p l s) = Some s'"
    using delete_none [of p "insert_limit p l s"]
    by (cases "delete_limit p (insert_limit p l s)") auto
  have "lookup s' = (lookup (insert_limit p l s))(p := None)"
    by (rule lookup_delete [OF inv_insert [OF inv free] s'])
  then show ?thesis
    using s' free by (auto simp: lookup_insert)
qed

end

definition add_entry :: "pid_t \<Rightarrow> u64 \<Rightarrow> memory_limitation list \<Rightarrow> memory_limitation list" where
  "add_entry p l xs = \<lparr>ml_pid = p, memory_limit = l\<rparr> # xs"

lemma limits_of_Nil [simp]: "limits_of [] = Map.empty"
  by (auto simp: limits_of_def find_entry_def)

lemma limits_of_Cons [simp]: "limits_of (e # xs) = (limits_of xs)(ml_pid e \<mapsto> memory_limit e)"
  by (auto simp: limits_of_def find_entry_def)

lemma limits_of_eq_None: "limits_of xs p = None \<longleftrightarrow> p \<notin> ml_pid ` set xs"
  by (induction xs) auto

lemma find_entry_None: "find_entry p xs = None \<longleftrightarrow> limits_of xs p = None"
  by (simp add: limits_of_def)

lemma set_first_None: "set_first p l xs = None \<longleftrightarrow> limits_of xs p = None"
  by (induction xs) auto

lemma limits_of_set_first:
  "set_first p l xs = Some ys \<Longrightarrow> limits_of ys = (limits_of xs)(p \<mapsto> l)"
  by (induction xs arbitrary: ys) (auto split: if_splits simp: fun_upd_twist)

lemma set_first_pids: "set_first p l xs = Some ys \<Longrightarrow> map ml_pid ys = map ml_pid xs"
  by (induction xs arbitrary: ys) (auto split: if_splits)

lemma del_first_None: "del_first p xs = None \<longleftrightarrow> limits_of xs p = None"
  by (induction xs) auto

lemma del_first_split:
  "del_first p xs = Some ys \<Longrightarrow>
    \<exists>as e bs. xs = as @ e # bs \<and> ys = as @ bs \<and> ml_pid e = p \<and> p \<notin> ml_pid ` set as"
proof (induction xs arbitrary: ys)
  case Nil
  then show ?case by simp
next
  case (Cons x xs)
  show ?case
  proof (cases "ml_pid x = p")
    case True
    with Cons.prems show ?thesis by (intro exI [of _ "[]"]) auto
  next
    case False
    with Cons.prems obtain zs where zs: "del_first p xs = Some zs" "ys = x # zs"
      by (auto split: if_splits)
    from Cons.IH [OF zs(1)] obtain as e bs where
      "xs = as @ e # bs" "zs = as @ bs" "ml_pid e = p" "p \<notin> ml_pid ` set as"
      by blast
    with False zs(2) show ?thesis
      by (intro exI [of _ "x # as"] exI [of _ e] exI [of _ bs]) auto
  qed
qed

lemma limits_of_append: "limits_of (xs @ ys) = limits_of ys ++ limits_of xs"
  by (induction xs) (auto simp: fun_eq_iff map_add_def split: option.splits)

lemma limits_of_del_first:
  assumes "distinct_pids xs" and "del_first p xs = Some ys"
  shows "limits_of ys = (limits_of xs)(p := None)"
proof -
  obtain as e bs where *: "xs = as @ e # bs" "ys = as @ bs" "ml_pid e = p"
    using del_first_split [OF assms(2)] by blast
  have "p \<notin> ml_pid ` set as" and "p \<notin> ml_pid ` set bs"
    using assms(1) * by (auto simp: distinct_pids_def)
  then have "limits_of as p = None" and "limits_of bs p = None"
    by (simp_all only: limits_of_eq_None not_False_eq_True)
  then show ?thesis
    using * by (auto simp: limits_of_append map_add_def fun_eq_iff split: option.splits)
qed

lemma del_first_distinct:
  "distinct_pids xs \<Longrightarrow> del_first p xs = Some ys \<Longrightarrow> distinct_pids ys"
  by (drule del_first_split) (auto simp: distinct_pids_def)

lemma del_first_length: "del_first p xs = Some ys \<Longrightarrow> length xs = Suc (length ys)"
  by (drule del_first_split) auto

lemma del_first_subset: "del_first p xs = Some ys \<Longrightarrow> set ys \<subseteq> set xs"
  by (drule del_first_split) auto

interpretation limits: limit_store limits_of add_entry set_first del_first distinct_pids
proof unfold_locales
  fix s s' :: "memory_limitation list" and p l
  show "set_first p l s = None \<longleftrightarrow> limits_of s p = None"
    by (rule set_first_None)
  show "del_first p s = None \<longleftrightarrow> limits_of s p = None"
    by (rule del_first_None)
  show "limits_of s p = None \<Longrightarrow> limits_of (add_entry p l s) = (limits_of s)(p \<mapsto> l)"
    by (simp add: add_entry_def)
  show "distinct_pids s \<Longrightarrow> limits_of s p = None \<Longrightarrow> distinct_pids (add_entry p l s)"
    by (simp add: add_entry_def distinct_pids_def limits_of_eq_None)
qed (auto simp: limits_of_set_first limits_of_del_first del_first_distinct distinct_pids_def
       dest: set_first_pids intro: del_first_distinct [unfolded distinct_pids_def])

end
