(* ===== verification/Mem_Limits_Spec.thy ===== *)
theory Mem_Limits_Spec
  imports Mem_Limits
begin

text \<open>
  What the memory limiter promises: an abstract specification of the four system calls on a
  map from pids to limits, the refinement of it by the list code, the invariant of the list
  over every sequence of calls, the byte image that the read call delivers, and the meaning
  of the admission check.
\<close>

section \<open>Invariant\<close>

definition limits_inv :: "limits_state \<Rightarrow> bool" where
  "limits_inv s \<longleftrightarrow> distinct_pids (memory_list s)
     \<and> (\<forall>e \<in> set (memory_list s). 0 \<le> sint (ml_pid e))
     \<and> \<not> memory_list_mutex s \<and> kmalloc_live s = length (memory_list s)"

definition limits_init :: limits_state where
  "limits_init = \<lparr>memory_list = [], memory_list_mutex = False, kmalloc_live = 0\<rparr>"

lemma limits_inv_init: "limits_inv limits_init"
  by (simp add: limits_inv_def limits_init_def distinct_pids_def)

lemma limits_inv_free: "limits_inv s \<Longrightarrow> \<not> memory_list_mutex s"
  by (simp add: limits_inv_def)

lemmas mutex_defs = mutex_lock_def mutex_unlock_def kmalloc_def kfree_def

section \<open>The calls as a specification on maps\<close>

definition accepts :: "limits_env \<Rightarrow> pid_t \<Rightarrow> u64 \<Rightarrow> u64 option \<Rightarrow> bool" where
  "accepts env p r lim = (case find_task_by_vpid env p of None \<Rightarrow> False
     | Some t \<Rightarrow> (case task_mm t of None \<Rightarrow> False
       | Some m \<Rightarrow> (case lim of None \<Rightarrow> True
         | Some l \<Rightarrow> push_bit PAGE_SHIFT (total_vm m) + r \<le> l)))"

datatype limits_call =
  Add pid_t u64 | Update pid_t u64 | Remove pid_t | Get u64 u64 u64 | Check pid_t u64

text \<open>
  The calls that change the map. A limit is an unsigned number here as in the code: the test
  \<open>memory_limit < 0\<close> of the source never holds, so an argument that was meant as a negative
  number is set as a limit above \<open>2^63\<close>, where the comment and the README say it is refused.
\<close>

fun spec_add :: "limits_env \<Rightarrow> pid_t \<Rightarrow> u64 \<Rightarrow> (pid_t \<rightharpoonup> u64) \<Rightarrow> int \<times> (pid_t \<rightharpoonup> u64)" where
  "spec_add env p l M =
    (if sint p < 0 then (- EINVAL, M)
     else if \<not> cap_sys_admin env then (- EPERM, M)
     else if find_task_by_vpid env p = None then (- ESRCH, M)
     else if p \<in> dom M then (- 101, M)
     else if \<not> kmalloc_entry_ok env then (- ENOMEM, M)
     else (0, M(p \<mapsto> l)))"

fun spec_update :: "limits_env \<Rightarrow> pid_t \<Rightarrow> u64 \<Rightarrow> (pid_t \<rightharpoonup> u64) \<Rightarrow> int \<times> (pid_t \<rightharpoonup> u64)" where
  "spec_update env p l M =
    (if sint p < 0 then (- EINVAL, M)
     else if \<not> cap_sys_admin env then (- EPERM, M)
     else if p \<notin> dom M then (- ESRCH, M)
     else (0, M(p \<mapsto> l)))"

fun spec_remove :: "limits_env \<Rightarrow> pid_t \<Rightarrow> (pid_t \<rightharpoonup> u64) \<Rightarrow> int \<times> (pid_t \<rightharpoonup> u64)" where
  "spec_remove env p M =
    (if sint p < 0 then (- EINVAL, M)
     else if \<not> cap_sys_admin env then (- EPERM, M)
     else if p \<notin> dom M then (- ESRCH, M)
     else (0, M(p := None)))"

lemma add_refines:
  assumes "limits_inv s"
  shows "\<exists>s'. julioz_add_memory_limit env p l s = Some (fst (spec_add env p l (limits_of (memory_list s))), s')
    \<and> limits_of (memory_list s') = snd (spec_add env p l (limits_of (memory_list s)))
    \<and> limits_inv s'"
proof (cases "find_entry p (memory_list s)")
  case None
  then have "limits_of (memory_list s) p = None"
    by (simp add: find_entry_None)
  with None assms show ?thesis
    by (auto simp: julioz_add_memory_limit_def mutex_defs limits_inv_def distinct_pids_def
        limits_of_eq_None dom_def split: option.splits)
next
  case (Some e)
  then have "limits_of (memory_list s) p \<noteq> None"
    by (simp add: limits_of_def)
  with Some assms show ?thesis
    by (auto simp: julioz_add_memory_limit_def mutex_defs limits_inv_def split: option.splits)
qed

lemma update_refines:
  assumes "limits_inv s"
  shows "\<exists>s'. julioz_update_memory_limit env p l s = Some (fst (spec_update env p l (limits_of (memory_list s))), s')
    \<and> limits_of (memory_list s') = snd (spec_update env p l (limits_of (memory_list s)))
    \<and> limits_inv s'"
proof (cases "set_first p l (memory_list s)")
  case None
  then show ?thesis
    using assms set_first_None [of p l "memory_list s"]
    by (auto simp: julioz_update_memory_limit_def mutex_defs limits_inv_def)
next
  case (Some ys)
  have pids: "map ml_pid ys = map ml_pid (memory_list s)"
    by (rule set_first_pids [OF Some])
  then have len: "length ys = length (memory_list s)"
    by (metis length_map)
  have "ml_pid ` set ys = ml_pid ` set (memory_list s)"
    using arg_cong [OF pids, of set] by simp
  moreover have "\<forall>x \<in> ml_pid ` set (memory_list s). 0 \<le> sint x"
    using assms by (auto simp: limits_inv_def)
  ultimately have "\<forall>e \<in> set ys. 0 \<le> sint (ml_pid e)"
    by (metis imageI)
  then show ?thesis
    using assms Some pids len set_first_None [of p l "memory_list s"] limits_of_set_first [OF Some]
    by (auto simp: julioz_update_memory_limit_def mutex_defs limits_inv_def distinct_pids_def)
qed

lemma remove_refines:
  assumes "limits_inv s"
  shows "\<exists>s'. julioz_remove_memory_limit env p s = Some (fst (spec_remove env p (limits_of (memory_list s))), s')
    \<and> limits_of (memory_list s') = snd (spec_remove env p (limits_of (memory_list s)))
    \<and> limits_inv s'"
proof (cases "del_first p (memory_list s)")
  case None
  then show ?thesis
    using assms del_first_None [of p "memory_list s"]
    by (auto simp: julioz_remove_memory_limit_def mutex_defs limits_inv_def)
next
  case (Some ys)
  have "distinct_pids (memory_list s)"
    using assms by (simp add: limits_inv_def)
  with Some show ?thesis
    using assms del_first_None [of p "memory_list s"] limits_of_del_first [OF _ Some]
      del_first_distinct [OF _ Some] del_first_length [OF Some] del_first_subset [OF Some]
    by (auto simp: julioz_remove_memory_limit_def mutex_defs limits_inv_def)
qed

section \<open>The byte image of the read call\<close>

definition entry_image :: "(nat \<Rightarrow> u8) \<Rightarrow> nat \<times> memory_limitation \<Rightarrow> u8 list" where
  "entry_image junk ie = (case ie of (i, e) \<Rightarrow>
     le_bytes 4 (ml_pid e) @ map junk [i * 16 + 4..<i * 16 + 8] @ le_bytes 8 (memory_limit e))"

lemma length_entry_image [simp]: "length (entry_image junk ie) = 16"
  by (simp add: entry_image_def split: prod.splits)

lemma store_bytes_append:
  "length xs = off \<Longrightarrow> length ys = length bs \<Longrightarrow>
    store_bytes off bs (xs @ ys @ zs) = Some (xs @ bs @ zs)"
  by (simp add: store_bytes_def)

lemma upt_split: "a \<le> b \<Longrightarrow> b \<le> c \<Longrightarrow> [a..<c] = [a..<b] @ [b..<c]"
  by (metis le_Suc_ex upt_add_eq_append)

lemma store_entry_append:
  assumes "length xs = i * 16" and "i < n"
  shows "store_entry i e (xs @ map junk [i * 16..<n * 16])
    = Some ((xs @ entry_image junk (i, e)) @ map junk [Suc i * 16..<n * 16])"
proof -
  have "[i * 16..<n * 16] = [i * 16..<i * 16 + 4] @ [i * 16 + 4..<i * 16 + 8]
      @ [i * 16 + 8..<i * 16 + 16] @ [i * 16 + 16..<n * 16]"
    using assms(2) by (simp add: upt_split [of "i * 16" "i * 16 + 4" "n * 16"]
      upt_split [of "i * 16 + 4" "i * 16 + 8" "n * 16"] upt_split [of "i * 16 + 8" "i * 16 + 16" "n * 16"])
  then have buf: "xs @ map junk [i * 16..<n * 16]
      = xs @ map junk [i * 16..<i * 16 + 4] @ (map junk [i * 16 + 4..<i * 16 + 8]
      @ map junk [i * 16 + 8..<i * 16 + 16] @ map junk [i * 16 + 16..<n * 16])"
    by simp
  have s1: "store_bytes (i * 16) (le_bytes 4 (ml_pid e)) (xs @ map junk [i * 16..<n * 16])
      = Some ((xs @ le_bytes 4 (ml_pid e) @ map junk [i * 16 + 4..<i * 16 + 8])
      @ map junk [i * 16 + 8..<i * 16 + 16] @ map junk [i * 16 + 16..<n * 16])"
    unfolding buf using assms(1) by (subst store_bytes_append) simp_all
  show ?thesis
    unfolding store_entry_def sizeof_memory_limitation_def s1 bind.bind_lunit
    using assms(1) by (subst store_bytes_append) (simp_all add: entry_image_def add.commute)
qed

lemma fill_buffer_append:
  assumes "length xs = unat c * 16" and "unat c \<le> unat n" and "unat c + length es \<le> 2 ^ 31"
  shows "\<exists>c'. unat c' = unat c + min (length es) (unat n - unat c)
    \<and> fill_buffer n es c (xs @ map junk [unat c * 16..<unat n * 16])
      = Some (c', (xs @ concat (map (entry_image junk) (enumerate (unat c) (take (unat n - unat c) es))))
          @ map junk [unat c' * 16..<unat n * 16])"
  using assms
proof (induction es arbitrary: c xs)
  case Nil
  then show ?case by simp
next
  case (Cons e es)
  have small: "unat c < 2 ^ 31"
    using Cons.prems(3) by simp
  have ext: "unat (scast c :: u64) = unat c"
    using small by (rule unat_scast_small)
  show ?case
  proof (cases "unat c = unat n")
    case True
    then show ?thesis
      using ext Cons.prems by (simp add: word_le_nat_alt)
  next
    case False
    then have lt: "unat c < unat n"
      using Cons.prems(2) by simp
    have suc: "unat (c + 1) = Suc (unat c)"
      using small by (simp add: unat_word_ariths)
    have go: "\<not> n \<le> scast c"
      using lt ext by (simp add: word_le_nat_alt)
    let ?xs = "xs @ entry_image junk (unat c, e)"
    have st: "store_entry (unat c) e (xs @ map junk [unat c * 16..<unat n * 16])
        = Some (?xs @ map junk [unat (c + 1) * 16..<unat n * 16])"
      unfolding suc by (rule store_entry_append [OF Cons.prems(1) lt])
    have "length ?xs = unat (c + 1) * 16"
      using Cons.prems(1) suc by simp
    moreover have "unat (c + 1) \<le> unat n" and "unat (c + 1) + length es \<le> 2 ^ 31"
      using suc lt Cons.prems(3) by simp_all
    ultimately obtain c' where c': "unat c' = unat (c + 1) + min (length es) (unat n - unat (c + 1))"
      and fb: "fill_buffer n es (c + 1) (?xs @ map junk [unat (c + 1) * 16..<unat n * 16])
        = Some (c', (?xs @ concat (map (entry_image junk)
            (enumerate (unat (c + 1)) (take (unat n - unat (c + 1)) es))))
          @ map junk [unat c' * 16..<unat n * 16])"
      using Cons.IH [of ?xs "c + 1"] by blast
    have tk: "take (unat n - unat c) (e # es) = e # take (unat n - Suc (unat c)) es"
      using lt by (simp add: take_Cons')
    show ?thesis
    proof (intro exI conjI)
      show "unat c' = unat c + min (length (e # es)) (unat n - unat c)"
        using c' suc lt by simp
      show "fill_buffer n (e # es) c (xs @ map junk [unat c * 16..<unat n * 16])
        = Some (c', (xs @ concat (map (entry_image junk)
            (enumerate (unat c) (take (unat n - unat c) (e # es)))))
          @ map junk [unat c' * 16..<unat n * 16])"
        using go st fb suc by (simp only: fill_buffer.simps if_False bind.bind_lunit tk
            enumerate_simps list.map concat.simps append_assoc)
    qed
  qed
qed

lemma limits_inv_length: "limits_inv s \<Longrightarrow> length (memory_list s) \<le> 2 ^ 31"
proof -
  assume inv: "limits_inv s"
  let ?ps = "map ml_pid (memory_list s)"
  have "distinct ?ps"
    using inv by (simp add: limits_inv_def distinct_pids_def)
  then have "length (memory_list s) = card (set ?ps)"
    by (metis distinct_card length_map)
  also have "\<dots> = card (unat ` set ?ps)"
    by (rule card_image [symmetric]) (auto simp: inj_on_def word_unat_eq_iff)
  also have "\<dots> \<le> card {..<2 ^ 31 :: nat}"
    using inv unat_nonneg by (intro card_mono) (auto simp: limits_inv_def)
  finally show ?thesis by simp
qed

lemma fill_buffer_whole:
  assumes "length xs \<le> 2 ^ 31"
  shows "\<exists>c. unat c = min (length xs) (unat n)
    \<and> fill_buffer n xs 0 (map junk [0..<unat n * 16])
      = Some (c, concat (map (entry_image junk) (enumerate 0 (take (unat n) xs)))
          @ map junk [unat c * 16..<unat n * 16])"
  using fill_buffer_append [of "[]" 0 n xs junk] assms by simp

definition entries_image :: "limits_env \<Rightarrow> nat \<Rightarrow> memory_limitation list \<Rightarrow> u8 list" where
  "entries_image env n xs = concat (map (entry_image (heap_junk env)) (enumerate 0 (take n xs)))"

lemma length_entries_image [simp]: "length (entries_image env n xs) = 16 * min (length xs) n"
proof -
  have "length (concat (map (entry_image junk) ies)) = 16 * length ies" for junk ies
    by (induction ies) simp_all
  then show ?thesis
    by (simp add: entries_image_def)
qed

lemma get_returns:
  assumes "limits_inv s"
  shows "\<exists>r m'. julioz_get_memory_limits env ub n rp s m = Some (r, s, m')
    \<and> r \<in> {0, - ENOMEM, - EFAULT}"
proof (cases "kmalloc_array_ok env n 16")
  case False
  then show ?thesis
    by (simp add: julioz_get_memory_limits_def sizeof_memory_limitation_def)
next
  case True
  obtain c where "fill_buffer n (memory_list s) 0 (map (heap_junk env) [0..<unat n * 16])
      = Some (c, entries_image env (unat n) (memory_list s)
          @ map (heap_junk env) [unat c * 16..<unat n * 16])"
    using fill_buffer_whole [OF limits_inv_length [OF assms], of n "heap_junk env"]
    by (auto simp: entries_image_def)
  then show ?thesis
    using assms True
    by (auto simp: julioz_get_memory_limits_def sizeof_memory_limitation_def mutex_defs
        limits_inv_def Let_def split: prod.splits)
qed

text \<open>
  The answer of the read call for limits in the order \<open>xs\<close>: the status and the user memory, by
  the allocation and by what the two copies, of the entries and of their number, report.
\<close>

definition get_answer :: "limits_env \<Rightarrow> u64 \<Rightarrow> u64 \<Rightarrow> u64 \<Rightarrow> memory_limitation list \<Rightarrow> umem \<Rightarrow> int \<times> umem" where
  "get_answer env ub n rp xs m =
    (if \<not> kmalloc_array_ok env n 16 then (- ENOMEM, m)
     else
       let (left, m1) = copy_to_user env ub (entries_image env (unat n) xs) m
       in if left \<noteq> 0 then (- EFAULT, m1)
          else
            let (left, m2) = copy_to_user env rp (le_bytes 4 (of_nat (min (length xs) (unat n)) :: u32)) m1
            in (if left \<noteq> 0 then - EFAULT else 0, m2))"

lemma get_refines:
  assumes inv: "limits_inv s" and len: "length (memory_list s) < 2 ^ 31"
  shows "julioz_get_memory_limits env ub n rp s m
    = (case get_answer env ub n rp (memory_list s) m of (r, m') \<Rightarrow> Some (r, s, m'))"
proof (cases "kmalloc_array_ok env n 16")
  case False
  then show ?thesis
    by (simp add: julioz_get_memory_limits_def sizeof_memory_limitation_def get_answer_def)
next
  case True
  let ?img = "entries_image env (unat n) (memory_list s)"
  obtain c where c: "unat c = min (length (memory_list s)) (unat n)"
    and fb: "fill_buffer n (memory_list s) 0 (map (heap_junk env) [0..<unat n * 16])
      = Some (c, ?img @ map (heap_junk env) [unat c * 16..<unat n * 16])"
    using fill_buffer_whole [of "memory_list s" n "heap_junk env"] len
    by (auto simp: entries_image_def)
  have cw: "of_nat (min (length (memory_list s)) (unat n)) = c"
    unfolding c [symmetric] by simp
  have "unat c < 2 ^ 31"
    using c len by simp
  then have "unat (scast c :: u64) = unat c"
    by (rule unat_scast_small)
  then have n16: "unat (scast c * 16 :: u64) = length ?img"
    using c len by (simp add: unat_word_ariths)
  have "memory_list_mutex s = False" "kmalloc_live s = length (memory_list s)"
    using inv by (simp_all add: limits_inv_def)
  with True fb n16 show ?thesis
    unfolding get_answer_def cw
    by (auto simp: julioz_get_memory_limits_def sizeof_memory_limitation_def mutex_defs Let_def
        case_prod_beta)
qed

lemma get_success:
  assumes inv: "limits_inv s" and len: "length (memory_list s) < 2 ^ 31" and law: "copy_law env"
    and ret: "julioz_get_memory_limits env ub n rp s m = Some (0, s', m')"
  shows "m' = write_bytes rp (le_bytes 4 (of_nat (min (length (memory_list s)) (unat n)) :: u32))
    (write_bytes ub (entries_image env (unat n) (memory_list s)) m)"
  using ret law unfolding get_refines [OF inv len] copy_law_def
  by (auto simp: get_answer_def case_prod_beta split: if_splits)

section \<open>Sequences of calls\<close>

definition limits_exec ::
  "limits_env \<Rightarrow> limits_call \<Rightarrow> limits_state \<Rightarrow> umem \<Rightarrow> (int \<times> limits_state \<times> umem) option" where
  "limits_exec env c s m =
    (case c of
      Add p l \<Rightarrow> map_option (\<lambda>(r, s'). (r, s', m)) (julioz_add_memory_limit env p l s)
    | Update p l \<Rightarrow> map_option (\<lambda>(r, s'). (r, s', m)) (julioz_update_memory_limit env p l s)
    | Remove p \<Rightarrow> map_option (\<lambda>(r, s'). (r, s', m)) (julioz_remove_memory_limit env p s)
    | Get ub n rp \<Rightarrow> julioz_get_memory_limits env ub n rp s m
    | Check p r \<Rightarrow> map_option (\<lambda>(b, _, s'). (of_bool b, s', m)) (is_request_accepted env p r s))"

text \<open>States that any sequence of calls, each in its own environment, can reach.\<close>

inductive limits_reach :: "limits_state \<Rightarrow> bool" where
  init: "limits_reach limits_init"
| step: "limits_reach s \<Longrightarrow> limits_exec env c s m = Some (r, s', m') \<Longrightarrow> limits_reach s'"

lemma check_refines:
  assumes "limits_inv s"
  shows "\<exists>log. is_request_accepted env p r s
    = Some (accepts env p r (limits_of (memory_list s) p), log, s)"
  using assms
  by (auto simp: is_request_accepted_def accepts_def mutex_defs limits_inv_def limits_of_def
      not_less Let_def split: option.splits)

text \<open>The decision of the check in terms of the store interface.\<close>

lemma accepts_admits:
  "find_task_by_vpid env p = Some t \<Longrightarrow> task_mm t = Some m \<Longrightarrow>
    accepts env p r (limits_of xs p) = limits.admits xs p (push_bit PAGE_SHIFT (total_vm m)) r"
  by (simp add: accepts_def limits.admits_def)

lemma add_success:
  assumes "limits_inv s" and "julioz_add_memory_limit env p l s = Some (0, s')"
  shows "memory_list s' = add_entry p l (memory_list s)" and "limits_of (memory_list s) p = None"
    and "limits_inv s'"
proof -
  show "memory_list s' = add_entry p l (memory_list s)"
    using assms by (auto simp: julioz_add_memory_limit_def mutex_defs limits_inv_def add_entry_def
        Let_def split: if_splits option.splits)
  show "limits_of (memory_list s) p = None"
    using assms by (auto simp: julioz_add_memory_limit_def mutex_defs limits_inv_def limits_of_def
        split: if_splits option.splits)
  show "limits_inv s'"
    using add_refines [OF assms(1), of env p l] assms(2) by auto
qed

lemma exec_returns:
  assumes "limits_inv s"
  shows "\<exists>r s' m'. limits_exec env c s m = Some (r, s', m') \<and> limits_inv s'"
proof (cases c)
  case (Add p l)
  with add_refines [OF assms, of env p l] show ?thesis
    by (auto simp: limits_exec_def simp del: spec_add.simps)
next
  case (Update p l)
  with update_refines [OF assms, of env p l] show ?thesis
    by (auto simp: limits_exec_def simp del: spec_update.simps)
next
  case (Remove p)
  with remove_refines [OF assms, of env p] show ?thesis
    by (auto simp: limits_exec_def simp del: spec_remove.simps)
next
  case (Get ub n rp)
  with get_returns [OF assms, of env ub n rp m] assms show ?thesis
    by (auto simp: limits_exec_def)
next
  case (Check p b)
  obtain log where "is_request_accepted env p b s = Some (accepts env p b (limits_of (memory_list s) p), log, s)"
    using check_refines [OF assms] by blast
  with Check assms show ?thesis by (simp add: limits_exec_def)
qed

lemma limits_reach_inv: "limits_reach s \<Longrightarrow> limits_inv s"
proof (induction rule: limits_reach.induct)
  case init
  show ?case by (rule limits_inv_init)
next
  case (step s env c m r s' m')
  then show ?case
    using exec_returns [OF step.IH, of env c m] by auto
qed

text \<open>
  What a call may answer, as a relation on the map of limits: status, map and user memory
  afterwards. The map does not fix the order in which the read call delivers the limits.
\<close>

fun spec_call :: "limits_env \<Rightarrow> limits_call \<Rightarrow> (pid_t \<rightharpoonup> u64) \<Rightarrow> umem \<Rightarrow> int \<Rightarrow> (pid_t \<rightharpoonup> u64) \<Rightarrow> umem \<Rightarrow> bool" where
  "spec_call env (Add p l) M m r M' m' \<longleftrightarrow> (r, M') = spec_add env p l M \<and> m' = m"
| "spec_call env (Update p l) M m r M' m' \<longleftrightarrow> (r, M') = spec_update env p l M \<and> m' = m"
| "spec_call env (Remove p) M m r M' m' \<longleftrightarrow> (r, M') = spec_remove env p M \<and> m' = m"
| "spec_call env (Get ub n rp) M m r M' m' \<longleftrightarrow> M' = M
     \<and> (\<exists>xs. distinct_pids xs \<and> limits_of xs = M \<and> (r, m') = get_answer env ub n rp xs m)"
| "spec_call env (Check p b) M m r M' m' \<longleftrightarrow> r = of_bool (accepts env p b (M p)) \<and> M' = M \<and> m' = m"

lemma exec_refines:
  assumes inv: "limits_inv s" and len: "length (memory_list s) < 2 ^ 31"
  shows "\<exists>r s' m'. limits_exec env c s m = Some (r, s', m')
    \<and> spec_call env c (limits_of (memory_list s)) m r (limits_of (memory_list s')) m' \<and> limits_inv s'"
proof (cases c)
  case (Add p l)
  with add_refines [OF inv, of env p l] show ?thesis
    by (auto simp: limits_exec_def prod_eq_iff simp del: spec_add.simps)
next
  case (Update p l)
  with update_refines [OF inv, of env p l] show ?thesis
    by (auto simp: limits_exec_def prod_eq_iff simp del: spec_update.simps)
next
  case (Remove p)
  with remove_refines [OF inv, of env p] show ?thesis
    by (auto simp: limits_exec_def prod_eq_iff simp del: spec_remove.simps)
next
  case (Get ub n rp)
  have "distinct_pids (memory_list s)"
    using inv by (simp add: limits_inv_def)
  with Get get_refines [OF inv len, of env ub n rp m] inv show ?thesis
    by (auto simp: limits_exec_def split: prod.splits)
next
  case (Check p b)
  obtain log where "is_request_accepted env p b s
      = Some (accepts env p b (limits_of (memory_list s) p), log, s)"
    using check_refines [OF inv] by blast
  with Check inv show ?thesis
    by (auto simp: limits_exec_def)
qed

section \<open>Reading the delivered bytes\<close>

definition read_entry :: "umem \<Rightarrow> u64 \<Rightarrow> memory_limitation" where
  "read_entry m a = \<lparr>ml_pid = le_word (map (\<lambda>k. m (a + of_nat k)) [0..<4]),
     memory_limit = le_word (map (\<lambda>k. m (a + of_nat (8 + k))) [0..<8])\<rparr>"

lemma entries_image_nth:
  assumes "i < min (length xs) n" and "k < 16"
  shows "entries_image env n xs ! (16 * i + k) = entry_image (heap_junk env) (i, xs ! i) ! k"
  unfolding entries_image_def using assms
  by (subst nth_concat_blocks) (simp_all add: nth_enumerate_eq)

lemma entry_image_pid: "k < 4 \<Longrightarrow> entry_image junk (i, e) ! k = le_bytes 4 (ml_pid e) ! k"
  by (simp add: entry_image_def nth_append)

lemma entry_image_pad: "k < 4 \<Longrightarrow> entry_image junk (i, e) ! (4 + k) = junk (i * 16 + 4 + k)"
  by (simp add: entry_image_def nth_append)

lemma entry_image_limit: "k < 8 \<Longrightarrow> entry_image junk (i, e) ! (8 + k) = le_bytes 8 (memory_limit e) ! k"
  by (simp add: entry_image_def nth_append)

lemma read_entries:
  assumes "i < min (length xs) n" and "length xs < 2 ^ 31"
  shows "read_entry (write_bytes ub (entries_image env n xs) m) (ub + of_nat (16 * i)) = xs ! i"
proof -
  let ?m = "write_bytes ub (entries_image env n xs) m"
  have hit: "?m (ub + of_nat (16 * i) + of_nat k) = entry_image (heap_junk env) (i, xs ! i) ! k"
    if "k < 16" for k
  proof -
    have "16 * i + k < length (entries_image env n xs)"
      unfolding length_entries_image using that assms(1) by linarith
    moreover have "length (entries_image env n xs) < 2 ^ 64"
      using assms(2) by simp
    ultimately have "?m (ub + of_nat (16 * i + k)) = entries_image env n xs ! (16 * i + k)"
      by (rule write_bytes_hit)
    then show ?thesis
      by (simp add: entries_image_nth [OF assms(1) that] add.assoc)
  qed
  have "map (\<lambda>k. ?m (ub + of_nat (16 * i) + of_nat k)) [0..<4] = le_bytes 4 (ml_pid (xs ! i))"
    by (rule nth_equalityI) (simp_all only: length_map length_upt length_le_bytes diff_zero nth_map
      nth_upt add_0 hit entry_image_pid less_trans [of _ 4 16] semiring_norm)
  moreover have "map (\<lambda>k. ?m (ub + of_nat (16 * i) + of_nat (8 + k))) [0..<8]
      = le_bytes 8 (memory_limit (xs ! i))"
    by (rule nth_equalityI) (simp_all only: length_map length_upt length_le_bytes diff_zero nth_map
      nth_upt add_0 hit entry_image_limit)
  ultimately show ?thesis
    by (simp add: read_entry_def le_word_le_bytes take_bit_word_eq_self)
qed

section \<open>Properties\<close>

text \<open>
  C1: Whatever sequence of limiter calls has run, in whatever environments, the list holds
  each pid at most once and only non-negative pids, the mutex is free, and the live
  allocations are exactly the list nodes; and the next call, whichever it is, returns: it
  never blocks on its own mutex, frees twice or writes outside its buffer.
\<close>

theorem limits_reachable_safe:
  assumes "limits_reach s"
  shows "limits_inv s \<and> limits_exec env c s m \<noteq> None"
  using limits_reach_inv [OF assms] exec_returns [OF limits_reach_inv [OF assms], of env c m]
  by auto

text \<open>
  C2: The list code refines the specification on maps. From a state that satisfies the
  invariant every call returns. Its status is the specified one: for the calls that set limits
  all argument, permission, existence and allocation errors in their order, for the read call
  the error of the allocation or of the first copy that fails. The map of limits afterwards is
  the specified map, and user memory is as before or, for the read call, as the copies of the
  limits in some order leave it. Limits are unsigned: none is refused as negative.
\<close>

theorem limits_calls_refine_spec:
  assumes "limits_inv s" and "length (memory_list s) < 2 ^ 31"
  shows "\<exists>r s' m'. limits_exec env c s m = Some (r, s', m')
    \<and> spec_call env c (limits_of (memory_list s)) m r (limits_of (memory_list s')) m'
    \<and> limits_inv s'"
  by (rule exec_refines [OF assms])

text \<open>
  C3: When \<open>julioz_get_memory_limits\<close> returns 0, user memory holds the first
  \<open>min (length of the list) max_entries\<close> limits, readable back entry by entry, the count is
  stored at \<open>processes_returned\<close>, and the limiter's state is unchanged.
\<close>

theorem get_memory_limits_roundtrip:
  assumes inv: "limits_inv s" and len: "length (memory_list s) < 2 ^ 31" and law: "copy_law env"
    and ret: "julioz_get_memory_limits env ub n rp s m = Some (0, s', m')"
  shows "s' = s \<and> (\<exists>m1. (\<forall>i < min (length (memory_list s)) (unat n).
        read_entry m1 (ub + of_nat (16 * i)) = memory_list s ! i)
      \<and> m' = write_bytes rp
          (le_bytes 4 (of_nat (min (length (memory_list s)) (unat n)) :: u32)) m1)"
proof -
  have "s' = s"
    using get_returns [OF inv, of env ub n rp m] ret by auto
  moreover have "m' = write_bytes rp (le_bytes 4 (of_nat (min (length (memory_list s)) (unat n)) :: u32))
      (write_bytes ub (entries_image env (unat n) (memory_list s)) m)"
    by (rule get_success [OF inv len law ret])
  ultimately show ?thesis
    using read_entries [of _ "memory_list s" "unat n" ub env m] len by blast
qed

text \<open>
  C4: After a successful \<open>julioz_add_memory_limit\<close> the admission check enforces the new
  limit: a process of that pid with \<open>u\<close> pages mapped is granted \<open>r\<close> more bytes exactly when
  \<open>4096 * u + r\<close> is at most the limit (as long as that sum fits in 64 bits), and the answer
  for every other pid is what it was.
\<close>

theorem added_limit_is_enforced:
  assumes inv: "limits_inv s" and add: "julioz_add_memory_limit env p l s = Some (0, s')"
    and task: "find_task_by_vpid env' p = Some t" "task_mm t = Some mm0"
    and fits: "4096 * unat (total_vm mm0) + unat r < 2 ^ 64"
  shows "(\<exists>log. is_request_accepted env' p r s'
        = Some (4096 * unat (total_vm mm0) + unat r \<le> unat l, log, s'))
    \<and> (\<forall>q. q \<noteq> p \<longrightarrow> map_option fst (is_request_accepted env' q r s')
        = map_option fst (is_request_accepted env' q r s))"
proof -
  note new = add_success [OF inv add]
  have usage: "unat (push_bit 12 (total_vm mm0) + r) = 4096 * unat (total_vm mm0) + unat r"
    using fits by (simp add: push_bit_eq_mult unat_word_ariths)
  have "accepts env' p r (limits_of (memory_list s') p) \<longleftrightarrow> push_bit 12 (total_vm mm0) + r \<le> l"
    unfolding accepts_admits [OF task] new(1) limits.admits_after_insert [OF new(2)] by simp
  then have own: "\<exists>log. is_request_accepted env' p r s'
      = Some (4096 * unat (total_vm mm0) + unat r \<le> unat l, log, s')"
    using check_refines [OF new(3), of env' p r] usage by (simp add: word_le_nat_alt)
  have "limits_of (memory_list s') q = limits_of (memory_list s) q" if "q \<noteq> p" for q
    unfolding new(1) limits.lookup_insert [OF new(2)] using that by simp
  then have "map_option fst (is_request_accepted env' q r s')
      = map_option fst (is_request_accepted env' q r s)" if "q \<noteq> p" for q
    using check_refines [OF new(3), of env' q r] check_refines [OF inv, of env' q r] that by auto
  with own show ?thesis by blast
qed

text \<open>
  C5: The sum in the admission check is computed modulo 2^64: whatever the limit, a limited
  process is granted a request that is the two's complement of its current usage, although
  usage and request together are 2^64 bytes.
\<close>

theorem limit_check_wraps:
  assumes "limits_inv s" and "find_task_by_vpid env p = Some t" and "task_mm t = Some mm0"
  shows "\<exists>log. is_request_accepted env p (- push_bit PAGE_SHIFT (total_vm mm0)) s = Some (True, log, s)"
  using check_refines [OF assms(1), of env p "- push_bit PAGE_SHIFT (total_vm mm0)"] assms(2,3)
  by (auto simp: accepts_def split: option.splits)

text \<open>
  C6: The buffer that \<open>julioz_get_memory_limits\<close> hands to user space is not cleared: the
  four padding bytes of every delivered entry are what the heap held before.
\<close>

theorem get_memory_limits_leaks_padding:
  assumes inv: "limits_inv s" and len: "length (memory_list s) < 2 ^ 31" and law: "copy_law env"
    and ret: "julioz_get_memory_limits env ub n rp s m = Some (0, s', m')"
    and i: "i < min (length (memory_list s)) (unat n)" and k: "k < 4"
  shows "\<exists>m1. m1 (ub + of_nat (16 * i + (4 + k))) = heap_junk env (i * 16 + 4 + k)
    \<and> m' = write_bytes rp (le_bytes 4 (of_nat (min (length (memory_list s)) (unat n)) :: u32)) m1"
proof (intro exI conjI)
  let ?img = "entries_image env (unat n) (memory_list s)"
  have "16 * i + (4 + k) < length ?img"
    unfolding length_entries_image using i k by linarith
  then have "write_bytes ub ?img m (ub + of_nat (16 * i + (4 + k))) = ?img ! (16 * i + (4 + k))"
    using len by (intro write_bytes_hit) simp_all
  also have "\<dots> = heap_junk env (i * 16 + 4 + k)"
    using entries_image_nth [OF i, of "4 + k" env] entry_image_pad [OF k] k by simp
  finally show "write_bytes ub ?img m (ub + of_nat (16 * i + (4 + k))) = heap_junk env (i * 16 + 4 + k)" .
  show "m' = write_bytes rp (le_bytes 4 (of_nat (min (length (memory_list s)) (unat n)) :: u32))
      (write_bytes ub ?img m)"
    by (rule get_success [OF inv len law ret])
qed

section \<open>Witnesses\<close>

definition ex_task :: task_struct where
  "ex_task = \<lparr>pid = 7, task_mm = Some (empty_mm\<lparr>total_vm := 1\<rparr>), oom_score_adj = None\<rparr>"

definition ex_env :: limits_env where
  "ex_env = \<lparr>find_task_by_vpid = (\<lambda>p. if p = 7 then Some ex_task else None),
     copy_to_user = (\<lambda>dst bs m. (0, write_bytes dst bs m)), cap_sys_admin = True,
     kmalloc_entry_ok = True, kmalloc_array_ok = (\<lambda>_ _. True), heap_junk = (\<lambda>_. 165)\<rparr>"

definition ex_limits :: limits_state where
  "ex_limits = \<lparr>memory_list = [\<lparr>ml_pid = 7, memory_limit = 8192\<rparr>],
     memory_list_mutex = False, kmalloc_live = 1\<rparr>"

lemmas ex_defs = ex_task_def ex_env_def ex_limits_def limits_init_def mutex_defs empty_mm_def

lemma ex_copy_law: "copy_law ex_env"
  by (simp add: copy_law_def ex_env_def)

lemma ex_add: "julioz_add_memory_limit ex_env 7 8192 limits_init = Some (0, ex_limits)"
  by (simp add: julioz_add_memory_limit_def ex_defs find_entry_def)

lemma ex_reach: "limits_reach ex_limits"
  by (rule limits_reach.step [OF limits_reach.init, of ex_env "Add 7 8192" _ 0 _ undefined])
    (simp add: limits_exec_def ex_add)

lemma ex_inv: "limits_inv ex_limits"
  by (rule limits_reach_inv [OF ex_reach])

lemma ex_get: "\<exists>m'. julioz_get_memory_limits ex_env 4096 1 65536 ex_limits (\<lambda>_. 0) = Some (0, ex_limits, m')"
  by (simp add: julioz_get_memory_limits_def ex_defs sizeof_memory_limitation_def
      store_entry_def store_bytes_def)

theorem limits_reachable_safe_witness:
  "limits_reach ex_limits \<and> limits_exec ex_env (Get 4096 1 65536) ex_limits (\<lambda>_. 0) \<noteq> None"
  using ex_reach limits_reachable_safe [OF ex_reach, of ex_env "Get 4096 1 65536" "\<lambda>_. 0"] by blast

theorem limits_calls_refine_spec_witness:
  "limits_inv ex_limits \<and> (\<exists>s'. limits_exec ex_env (Update 7 (- 1)) ex_limits (\<lambda>_. 0) = Some (0, s', \<lambda>_. 0)
     \<and> limits_of (memory_list s') 7 = Some (- 1))"
proof -
  have "length (memory_list ex_limits) < 2 ^ 31"
    by (simp add: ex_limits_def)
  moreover have "7 \<in> dom (limits_of (memory_list ex_limits))" "cap_sys_admin ex_env"
    by (auto simp: ex_defs limits_of_def find_entry_def)
  ultimately show ?thesis
    using limits_calls_refine_spec [OF ex_inv, of ex_env "Update 7 (- 1)" "\<lambda>_. 0"] ex_inv by auto
qed

theorem get_memory_limits_roundtrip_witness:
  "\<exists>m' m1. julioz_get_memory_limits ex_env 4096 1 65536 ex_limits (\<lambda>_. 0) = Some (0, ex_limits, m')
    \<and> read_entry m1 4096 = \<lparr>ml_pid = 7, memory_limit = 8192\<rparr>
    \<and> m' = write_bytes 65536 (le_bytes 4 (1 :: u32)) m1"
proof -
  obtain m' where ret: "julioz_get_memory_limits ex_env 4096 1 65536 ex_limits (\<lambda>_. 0) = Some (0, ex_limits, m')"
    using ex_get by blast
  have len: "length (memory_list ex_limits) < 2 ^ 31"
    by (simp add: ex_limits_def)
  show ?thesis
    using get_memory_limits_roundtrip [OF ex_inv len ex_copy_law ret] ret
    by (auto simp: ex_limits_def)
qed

theorem added_limit_is_enforced_witness:
  "\<exists>log. is_request_accepted ex_env 7 4096 ex_limits = Some (True, log, ex_limits)"
proof -
  have task: "find_task_by_vpid ex_env 7 = Some ex_task"
      "task_mm ex_task = Some (empty_mm\<lparr>total_vm := 1\<rparr>)"
    by (simp_all add: ex_defs)
  have fits: "4096 * unat (total_vm (empty_mm\<lparr>total_vm := 1\<rparr>)) + unat (4096 :: u64) < 2 ^ 64"
    by simp
  show ?thesis
    using added_limit_is_enforced [OF limits_inv_init ex_add task fits] by simp
qed

theorem limit_check_wraps_witness:
  "\<exists>log. is_request_accepted ex_env 7 (- 4096) ex_limits = Some (True, log, ex_limits)"
  using limit_check_wraps [OF ex_inv, of ex_env 7 ex_task "empty_mm\<lparr>total_vm := 1\<rparr>"]
  by (simp add: ex_defs)

theorem get_memory_limits_leaks_padding_witness:
  "\<exists>m' m1. julioz_get_memory_limits ex_env 4096 1 65536 ex_limits (\<lambda>_. 0) = Some (0, ex_limits, m')
    \<and> m1 4100 = 165 \<and> m' = write_bytes 65536 (le_bytes 4 (1 :: u32)) m1"
proof -
  obtain m' where ret: "julioz_get_memory_limits ex_env 4096 1 65536 ex_limits (\<lambda>_. 0) = Some (0, ex_limits, m')"
    using ex_get by blast
  have len: "length (memory_list ex_limits) < 2 ^ 31"
    and i: "0 < min (length (memory_list ex_limits)) (unat (1 :: u64))"
    by (simp_all add: ex_limits_def)
  show ?thesis
    using get_memory_limits_leaks_padding [OF ex_inv len ex_copy_law ret i, of 0] ret
    by (auto simp: ex_limits_def ex_env_def)
qed

end
