(* ===== verification/Proc_Stats.thy ===== *)
theory Proc_Stats
  imports Kernel_Types
begin

text \<open>
  The memory system calls of project 2 (\<open>kernel/usac/\<close>): per-process statistics
  (\<open>pidstats.c\<close>, and \<open>pidstatsv2.c\<close> with its own out-of-memory score), system-wide statistics
  (\<open>globalstats.c\<close>), and the allocator call \<open>tamalloc.c\<close>.
\<close>

section \<open>Data\<close>

record mem_usage_stats =
  stat_pid :: u32
  vmsize :: u64
  vmrss :: u64
  oom_score :: u32
  committed_percent :: u32

record global_mem_stats =
  total_reserved_mb :: u64
  total_committed_mb :: u64

text \<open>
  What the sources ask of the kernel: the process list, the resident size of an address
  space, the kernel's own score, the number of swap pages, and the bytes that the padding of a
  stack object happens to hold. \<open>pidstatsv2.c\<close> also uses the name \<open>totalram_pages\<close>, without a
  call: on this kernel it is a function (\<open>kernel/fork.c\<close> calls it), so its value is an address.
\<close>

record stats_env = user_env +
  processes :: "task_struct list"
  get_mm_rss :: "mm_struct \<Rightarrow> u64"
  oom_badness :: "task_struct \<Rightarrow> u64 \<Rightarrow> u64"
  totalram_pages :: u64 \<comment> \<open>the address of the function\<close>
  total_swap_pages :: u64
  stack_junk :: "nat \<Rightarrow> u8"

section \<open>Per-process statistics\<close>

text \<open>
  \<open>int score = (rss * 1000) / totalpages\<close> keeps the low 32 bits of an \<open>unsigned long\<close>; a zero
  divisor faults (\<open>None\<close>).
\<close>

definition calculate_oom_score :: "stats_env \<Rightarrow> task_struct \<Rightarrow> u32 option" where
  "calculate_oom_score env task =
    (let rss = (case task_mm task of Some m \<Rightarrow> get_mm_rss env m | None \<Rightarrow> 0);
         totalpages = totalram_pages env + total_swap_pages env;
         adj = (case oom_score_adj task of Some a \<Rightarrow> a | None \<Rightarrow> 0)
     in if totalpages = 0 then None
        else
          (let score = ucast ((rss * 1000) div totalpages) :: u32;
               score = score + word_of_int adj
           in Some (if sint score < 0 then 0 else if sint score > 1000 then 1000 else score)))"

definition fill_stats :: "stats_env \<Rightarrow> task_struct \<Rightarrow> u32 \<Rightarrow> mem_usage_stats" where
  "fill_stats env task score =
    (case task_mm task of
      Some m \<Rightarrow>
        (let size = push_bit PAGE_SHIFT (total_vm m) div 1024;
             rss = push_bit PAGE_SHIFT (get_mm_rss env m) div 1024
         in \<lparr>stat_pid = pid task, vmsize = size, vmrss = rss, oom_score = score,
              committed_percent = (if size > 0 then ucast ((rss * 100) div size) else 0)\<rparr>)
    | None \<Rightarrow> \<lparr>stat_pid = pid task, vmsize = 0, vmrss = 0, oom_score = score,
                committed_percent = 0\<rparr>)"

text \<open>The object in memory: 4 bytes of padding follow the pid.\<close>

definition sizeof_mem_usage_stats :: nat where
  "sizeof_mem_usage_stats = 32"

definition stats_bytes :: "stats_env \<Rightarrow> mem_usage_stats \<Rightarrow> u8 list" where
  "stats_bytes env st = le_bytes 4 (stat_pid st) @ map (stack_junk env) [4..<8] @
     le_bytes 8 (vmsize st) @ le_bytes 8 (vmrss st) @ le_bytes 4 (oom_score st) @
     le_bytes 4 (committed_percent st)"

text \<open>The loop over all processes, with the score function of the version at hand.\<close>

fun stats_loop ::
  "stats_env \<Rightarrow> (task_struct \<Rightarrow> u32 option) \<Rightarrow> u64 \<Rightarrow> u64 \<Rightarrow> task_struct list \<Rightarrow> u64 \<Rightarrow> umem
    \<Rightarrow> ((int + u64) \<times> umem) option" where
  "stats_loop env score buffer max_entries [] count m = Some (Inr count, m)"
| "stats_loop env score buffer max_entries (task # tasks) count m =
    (if count \<ge> max_entries then Some (Inr count, m)
     else do {
       sc \<leftarrow> score task;
       let (left, m') = copy_to_user env (buffer + count * of_nat sizeof_mem_usage_stats)
             (stats_bytes env (fill_stats env task sc)) m
       in if left \<noteq> 0 then Some (Inl (- EFAULT), m')
          else stats_loop env score buffer max_entries tasks (count + 1) m' })"

definition get_memory_usage_stats ::
  "stats_env \<Rightarrow> (task_struct \<Rightarrow> u32 option) \<Rightarrow> u32 \<Rightarrow> u64 \<Rightarrow> u64 \<Rightarrow> umem
    \<Rightarrow> ((int + u64) \<times> umem) option" where
  "get_memory_usage_stats env score p buffer max_entries m =
    (if sint p < 0 \<or> buffer = 0 \<or> max_entries \<le> 0 then Some (Inl (- EINVAL), m)
     else if p = 0 then stats_loop env score buffer max_entries (processes env) 0 m
     else (case find_task_by_vpid env p of
       None \<Rightarrow> Some (Inl (- ESRCH), m)
     | Some task \<Rightarrow> do {
         sc \<leftarrow> score task;
         let (left, m') = copy_to_user env buffer (stats_bytes env (fill_stats env task sc)) m
         in if left \<noteq> 0 then Some (Inl (- EFAULT), m') else Some (Inr 1, m') }))"

text \<open>\<open>pidstats.c\<close> stores the \<open>long\<close> of \<open>oom_badness(task, 0)\<close> into an \<open>int\<close>.\<close>

definition julioz_get_memory_usage_stats ::
  "stats_env \<Rightarrow> u32 \<Rightarrow> u64 \<Rightarrow> u64 \<Rightarrow> umem \<Rightarrow> ((int + u64) \<times> umem) option" where
  "julioz_get_memory_usage_stats env =
    get_memory_usage_stats env (\<lambda>task. Some (ucast (oom_badness env task 0)))"

definition julioz_get_memory_usage_stats_v2 ::
  "stats_env \<Rightarrow> u32 \<Rightarrow> u64 \<Rightarrow> u64 \<Rightarrow> umem \<Rightarrow> ((int + u64) \<times> umem) option" where
  "julioz_get_memory_usage_stats_v2 env = get_memory_usage_stats env (calculate_oom_score env)"

section \<open>System-wide statistics\<close>

definition add_process :: "stats_env \<Rightarrow> task_struct \<Rightarrow> global_mem_stats \<Rightarrow> global_mem_stats" where
  "add_process env task st =
    (case task_mm task of
      None \<Rightarrow> st
    | Some m \<Rightarrow> st\<lparr>
        total_reserved_mb := total_reserved_mb st
          + push_bit PAGE_SHIFT (total_vm m) div (1024 * 1024),
        total_committed_mb := total_committed_mb st
          + push_bit PAGE_SHIFT (get_mm_rss env m) div (1024 * 1024)\<rparr>)"

definition global_bytes :: "global_mem_stats \<Rightarrow> u8 list" where
  "global_bytes st = le_bytes 8 (total_reserved_mb st) @ le_bytes 8 (total_committed_mb st)"

definition julioz_get_global_memory_usage_stats ::
  "stats_env \<Rightarrow> u64 \<Rightarrow> umem \<Rightarrow> int \<times> umem" where
  "julioz_get_global_memory_usage_stats env user_stats m =
    (let stats = fold (add_process env) (processes env)
           \<lparr>total_reserved_mb = 0, total_committed_mb = 0\<rparr>;
         (left, m') = copy_to_user env user_stats (global_bytes stats) m
     in if left \<noteq> 0 then (- EFAULT, m') else (0, m'))"

section \<open>The allocator call\<close>

abbreviation (input) PROT_READ :: u64 where "PROT_READ \<equiv> 1"
abbreviation (input) PROT_WRITE :: u64 where "PROT_WRITE \<equiv> 2"
abbreviation (input) MAP_PRIVATE :: u64 where "MAP_PRIVATE \<equiv> 2"
abbreviation (input) MAP_ANONYMOUS :: u64 where "MAP_ANONYMOUS \<equiv> 32"
abbreviation (input) MAP_NORESERVE :: u64 where "MAP_NORESERVE \<equiv> 16384"

text \<open>
  \<open>vm_mmap file addr len prot flags offset\<close> works on the caller's address space, here of any
  type, and gives an address or an error value.
\<close>

type_synonym 's vm_mmap =
  "nat option \<Rightarrow> u64 \<Rightarrow> u64 \<Rightarrow> u64 \<Rightarrow> u64 \<Rightarrow> u64 \<Rightarrow> 's \<Rightarrow> u64 \<times> 's"

unbundle bit_operations_syntax

definition julioz_tamalloc :: "'s vm_mmap \<Rightarrow> u64 \<Rightarrow> 's \<Rightarrow> u64 \<times> 's" where
  "julioz_tamalloc vm_mmap sz s =
    (if sz = 0 then (err_value EINVAL, s)
     else
       (let aligned_size = PAGE_ALIGN sz
        in if aligned_size = 0 then (err_value ENOMEM, s)
           else
             (let (addr, s') = vm_mmap None 0 aligned_size (PROT_READ OR PROT_WRITE)
                    (MAP_PRIVATE OR MAP_ANONYMOUS OR MAP_NORESERVE) 0 s
              in if IS_ERR_VALUE addr then (addr, s') else (addr, s'))))"

section \<open>Reading what the calls deliver\<close>

definition read_stats :: "umem \<Rightarrow> u64 \<Rightarrow> mem_usage_stats" where
  "read_stats m a = \<lparr>stat_pid = le_word (read_bytes m a 4), vmsize = le_word (read_bytes m (a + 8) 8),
     vmrss = le_word (read_bytes m (a + 16) 8), oom_score = le_word (read_bytes m (a + 24) 4),
     committed_percent = le_word (read_bytes m (a + 28) 4)\<rparr>"

lemma length_stats_bytes [simp]: "length (stats_bytes env st) = 32"
  by (simp add: stats_bytes_def)

lemma read_stats_bytes:
  assumes "read_bytes m a 32 = stats_bytes env st"
  shows "read_stats m a = st"
proof -
  have part: "read_bytes m (a + of_nat off) n = take n (drop off (stats_bytes env st))"
    if "off + n \<le> 32" for off n
    unfolding assms [symmetric] by (rule read_bytes_slice [OF that])
  show ?thesis
    using part [of 0 4] part [of 8 8] part [of 16 8] part [of 24 4] part [of 28 4]
    by (simp add: read_stats_def stats_bytes_def le_word_le_bytes take_bit_word_eq_self)
qed

definition stats_image :: "stats_env \<Rightarrow> (task_struct \<Rightarrow> u32 option) \<Rightarrow> task_struct list \<Rightarrow> u8 list list" where
  "stats_image env score tasks =
     map (\<lambda>t. stats_bytes env (fill_stats env t (the (score t)))) tasks"

lemma length_concat_stats_image [simp]:
  "length (concat (stats_image env score tasks)) = 32 * length tasks"
  by (induction tasks) (simp_all add: stats_image_def)

lemma stats_loop_success:
  assumes law: "copy_law env" and "unat count \<le> unat n"
    and "unat count + length tasks < 2 ^ 58" and "length pre = 32 * unat count"
    and "stats_loop env score buf n tasks count (write_bytes buf pre m) = Some (Inr c, m')"
  shows "unat c = unat count + min (length tasks) (unat n - unat count)
    \<and> m' = write_bytes buf (pre @ concat (stats_image env score (take (unat n - unat count) tasks))) m"
  using assms(2-)
proof (induction tasks arbitrary: count pre)
  case Nil
  then show ?case by (simp add: stats_image_def)
next
  case (Cons t ts)
  show ?case
  proof (cases "n \<le> count")
    case True
    with Cons.prems show ?thesis
      by (simp add: word_le_nat_alt stats_image_def)
  next
    case False
    then have lt: "unat count < unat n" by (simp add: word_le_nat_alt)
    have suc: "unat (count + 1) = Suc (unat count)"
      using Cons.prems(2) by (simp add: unat_word_ariths)
    let ?img = "\<lambda>sc. stats_bytes env (fill_stats env t sc)"
    let ?m1 = "write_bytes buf pre m"
    obtain sc where sc: "score t = Some sc"
      using Cons.prems(4) False by (auto simp: bind_eq_Some_conv)
    obtain l m1 where cpl: "copy_to_user env (buf + count * 32) (?img sc) ?m1 = (l, m1)"
      by fastforce
    have cp: "copy_to_user env (buf + count * 32) (?img sc) ?m1 = (0, m1)"
      and rest: "stats_loop env score buf n ts (count + 1) m1 = Some (Inr c, m')"
      using Cons.prems(4) False sc cpl by (simp_all add: sizeof_mem_usage_stats_def split: if_splits)
    have off: "buf + count * 32 = buf + of_nat (length pre)"
      using Cons.prems(3) by simp
    have m1: "m1 = write_bytes buf (pre @ ?img sc) m"
    proof -
      have "length pre + length (?img sc) < 2 ^ 64"
        using Cons.prems(2,3) by simp
      then show ?thesis
        unfolding copy_lawD [OF law cp] off by (rule write_bytes_append)
    qed
    have tk: "take (unat n - unat count) (t # ts) = t # take (unat n - Suc (unat count)) ts"
      using lt by (simp add: take_Cons')
    show ?thesis
      using Cons.IH [of "count + 1" "pre @ ?img sc"] rest lt suc sc Cons.prems(2,3)
      unfolding m1 tk by (simp add: stats_image_def)
  qed
qed

lemma read_stats_image:
  assumes "i < length tasks" and "length tasks < 2 ^ 58"
  shows "read_stats (write_bytes buf (concat (stats_image env score tasks)) m) (buf + of_nat (32 * i))
    = fill_stats env (tasks ! i) (the (score (tasks ! i)))"
proof (rule read_stats_bytes)
  have "read_bytes (write_bytes buf (concat (stats_image env score tasks)) m) (buf + of_nat (32 * i)) 32
      = stats_image env score tasks ! i"
    by (rule read_block) (use assms in \<open>auto simp: stats_image_def\<close>)
  then show "read_bytes (write_bytes buf (concat (stats_image env score tasks)) m) (buf + of_nat (32 * i)) 32
      = stats_bytes env (fill_stats env (tasks ! i) (the (score (tasks ! i))))"
    using assms(1) by (simp add: stats_image_def)
qed

section \<open>Arithmetic of the statistics\<close>

lemma unat_push_page:
  "4096 * unat x < 2 ^ 64 \<Longrightarrow> unat (push_bit 12 x :: u64) = 4096 * unat x"
  by (simp add: push_bit_eq_mult unat_word_ariths)

lemma fill_stats_percent:
  assumes "task_mm task = Some m" and "unat (get_mm_rss env m) \<le> unat (total_vm m)"
    and "409600 * unat (total_vm m) < 2 ^ 64"
  shows "unat (committed_percent (fill_stats env task score))
    = (100 * unat (get_mm_rss env m)) div unat (total_vm m)"
proof -
  let ?r = "unat (get_mm_rss env m)" and ?v = "unat (total_vm m)"
  let ?size = "push_bit 12 (total_vm m) div 1024" and ?rss = "push_bit 12 (get_mm_rss env m) div 1024"
  have size: "unat ?size = 4 * ?v"
    using assms(3) by (simp add: unat_div_distrib unat_push_page)
  have rss: "unat ?rss = 4 * ?r"
    using assms(2,3) by (simp add: unat_div_distrib unat_push_page)
  have quot: "unat ((?rss * 100) div ?size) = (100 * ?r) div ?v"
  proof -
    have "unat (?rss * 100) = 4 * (100 * ?r)"
      using rss assms(2,3) by (simp add: unat_word_ariths)
    then have "unat ((?rss * 100) div ?size) = (4 * (100 * ?r)) div (4 * ?v)"
      by (simp only: unat_div_distrib [of "?rss * 100"] size)
    also have "\<dots> = (100 * ?r) div ?v"
      by (rule div_mult_mult1) simp
    finally show ?thesis .
  qed
  have le: "(100 * ?r) div ?v \<le> 100"
  proof -
    have "(100 * ?r) div ?v \<le> (100 * ?v) div ?v"
      using assms(2) by (intro div_le_mono) simp
    then show ?thesis
      by (cases "?v = 0") simp_all
  qed
  show ?thesis
  proof (cases "?v = 0")
    case True
    then have "\<not> 0 < ?size"
      using size by (simp add: word_less_nat_alt)
    then show ?thesis
      using assms(1) True by (simp add: fill_stats_def Let_def)
  next
    case False
    then have "0 < ?size"
      using size by (simp add: word_less_nat_alt)
    moreover have "unat (ucast ((?rss * 100) div ?size) :: u32) = (100 * ?r) div ?v"
      using quot le by (simp add: unsigned_ucast_eq take_bit_nat_eq_self)
    ultimately show ?thesis
      using assms(1) by (simp add: fill_stats_def Let_def)
  qed
qed

text \<open>The score of \<open>pidstatsv2.c\<close>, as a number, where none of its operations wraps.\<close>

lemma calculate_oom_score_value:
  fixes tot :: u64 and env
  defines "tot \<equiv> totalram_pages env + total_swap_pages env"
  assumes rss: "(case task_mm task of Some m \<Rightarrow> get_mm_rss env m | None \<Rightarrow> 0) = rss"
    and adj: "(case oom_score_adj task of Some a \<Rightarrow> a | None \<Rightarrow> 0) = adj"
    and small: "1000 * unat rss < unat tot" "- 1000 \<le> adj" "adj \<le> 1000"
  shows "\<exists>s. calculate_oom_score env task = Some s \<and> sint s = max 0 adj"
proof -
  have "unat (rss * 1000) = 1000 * unat rss"
    using small(1) unat_lt64 [of tot] by (subst unat_mult_fits) simp_all
  then have "unat ((rss * 1000) div tot) = 0"
    using small(1) by (simp add: unat_div_distrib)
  then have "(rss * 1000) div tot = 0" by (simp add: unat_eq_zero)
  moreover have "sint (word_of_int adj :: u32) = adj"
    using small by (intro sint_of_int32) simp_all
  moreover have "tot \<noteq> 0" using small(1) by auto
  ultimately show ?thesis
    using rss adj small(2, 3) unfolding calculate_oom_score_def tot_def by (auto simp: Let_def)
qed

definition page_bytes :: "(mm_struct \<Rightarrow> u64) \<Rightarrow> task_struct \<Rightarrow> nat" where
  "page_bytes f task = (case task_mm task of None \<Rightarrow> 0 | Some m \<Rightarrow> 4096 * unat (f m))"

definition mb_of :: "(mm_struct \<Rightarrow> u64) \<Rightarrow> task_struct \<Rightarrow> nat" where
  "mb_of f task = page_bytes f task div 2 ^ 20"

lemma sum_list_le_mono:
  "(\<And>x. x \<in> set xs \<Longrightarrow> f x \<le> (g x :: nat)) \<Longrightarrow> sum_list (map f xs) \<le> sum_list (map g xs)"
  by (induction xs) (auto intro: add_mono)

lemma add_process_mb:
  assumes "page_bytes total_vm t < 2 ^ 64" and "page_bytes (get_mm_rss env) t < 2 ^ 64"
    and "unat (total_reserved_mb st) + mb_of total_vm t < 2 ^ 64"
    and "unat (total_committed_mb st) + mb_of (get_mm_rss env) t < 2 ^ 64"
  shows "unat (total_reserved_mb (add_process env t st)) = unat (total_reserved_mb st) + mb_of total_vm t"
    and "unat (total_committed_mb (add_process env t st))
      = unat (total_committed_mb st) + mb_of (get_mm_rss env) t"
  using assms
  by (auto simp: add_process_def mb_of_def page_bytes_def unat_word_ariths unat_div_distrib
      unat_push_page split: option.splits)

lemma fold_process_mb:
  assumes "sum_list (map (page_bytes total_vm) ts) < 2 ^ 64"
    and "sum_list (map (page_bytes (get_mm_rss env)) ts) < 2 ^ 64"
    and "unat (total_reserved_mb st) + sum_list (map (mb_of total_vm) ts) < 2 ^ 64"
    and "unat (total_committed_mb st) + sum_list (map (mb_of (get_mm_rss env)) ts) < 2 ^ 64"
  shows "unat (total_reserved_mb (fold (add_process env) ts st))
      = unat (total_reserved_mb st) + sum_list (map (mb_of total_vm) ts)
    \<and> unat (total_committed_mb (fold (add_process env) ts st))
      = unat (total_committed_mb st) + sum_list (map (mb_of (get_mm_rss env)) ts)"
  using assms
proof (induction ts arbitrary: st)
  case Nil
  then show ?case by simp
next
  case (Cons t ts)
  have "page_bytes total_vm t < 2 ^ 64" "page_bytes (get_mm_rss env) t < 2 ^ 64"
      "unat (total_reserved_mb st) + mb_of total_vm t < 2 ^ 64"
      "unat (total_committed_mb st) + mb_of (get_mm_rss env) t < 2 ^ 64"
    using Cons.prems by simp_all
  note one = add_process_mb [OF this]
  show ?case
    using Cons.IH [of "add_process env t st"] Cons.prems unfolding one by simp
qed

lemma mb_of_bounds: "2 ^ 20 * mb_of f t \<le> page_bytes f t" "page_bytes f t < 2 ^ 20 * mb_of f t + 2 ^ 20"
  using div_mult_mod_eq [of "page_bytes f t" "2 ^ 20"]
    mod_less_divisor [of "2 ^ 20" "page_bytes f t"] by (simp_all add: mb_of_def)

lemma sum_mb_bounds:
  "2 ^ 20 * sum_list (map (mb_of f) ts) \<le> sum_list (map (page_bytes f) ts)"
  "sum_list (map (page_bytes f) ts) \<le> 2 ^ 20 * (sum_list (map (mb_of f) ts) + length ts)"
proof -
  show "2 ^ 20 * sum_list (map (mb_of f) ts) \<le> sum_list (map (page_bytes f) ts)"
  proof (induction ts)
    case (Cons t ts)
    then show ?case using mb_of_bounds(1) [of f t] by simp
  qed simp
  show "sum_list (map (page_bytes f) ts) \<le> 2 ^ 20 * (sum_list (map (mb_of f) ts) + length ts)"
  proof (induction ts)
    case (Cons t ts)
    then show ?case using mb_of_bounds(2) [of f t] by simp
  qed simp
qed

section \<open>The call returns\<close>

text \<open>
  The statistics call works with any score function that is defined on every task; both
  versions of the file supply one.
\<close>

locale total_score =
  fixes env :: stats_env and score :: "task_struct \<Rightarrow> u32 option"
  assumes score_defined: "score t \<noteq> None"
begin

lemma loop_returns: "stats_loop env score buf n ts c m \<noteq> None"
proof (induction ts arbitrary: c m)
  case (Cons t ts)
  obtain sc where "score t = Some sc"
    using score_defined by blast
  with Cons show ?case
    by (simp split: prod.splits)
qed simp

lemma call_returns: "get_memory_usage_stats env score p buf n m \<noteq> None"
proof (cases "find_task_by_vpid env p")
  case None
  then show ?thesis
    using loop_returns [of buf n "processes env" 0 m] by (simp add: get_memory_usage_stats_def)
next
  case (Some t)
  moreover obtain sc where "score t = Some sc"
    using score_defined by blast
  ultimately show ?thesis
    using loop_returns [of buf n "processes env" 0 m]
    by (simp add: get_memory_usage_stats_def split: prod.splits)
qed

end

interpretation kernel_score: total_score env "\<lambda>task. Some (ucast (oom_badness env task 0))" for env
  by unfold_locales simp

section \<open>The contract of \<open>vm_mmap\<close>\<close>

text \<open>
  As documented: an address that is not an error value is page aligned, and the whole range
  of the given length from it is mapped afterwards.
\<close>

definition vm_mmap_law :: "('s \<Rightarrow> u64 \<Rightarrow> bool) \<Rightarrow> 's vm_mmap \<Rightarrow> bool" where
  "vm_mmap_law mapped f \<longleftrightarrow> (\<forall>len prot flags s a s'.
     f None 0 len prot flags 0 s = (a, s') \<and> \<not> IS_ERR_VALUE a \<longrightarrow>
       offset_in_page a = 0 \<and> (\<forall>k < unat len. mapped s' (a + of_nat k)))"

section \<open>Properties\<close>

text \<open>
  C7: The statistics call always returns. When it is asked for all processes and succeeds,
  the result is the number of processes capped by \<open>max_entries\<close>, and exactly that many
  consecutive entries of the user buffer read back as the statistics of the processes in
  list order.
\<close>

theorem usage_stats_all_processes:
  assumes law: "copy_law env" and args: "buf \<noteq> 0" "0 < n" and len: "length (processes env) < 2 ^ 58"
    and ret: "julioz_get_memory_usage_stats env 0 buf n m = Some (Inr c, m')"
  shows "unat c = min (length (processes env)) (unat n)
    \<and> (\<forall>i < unat c. read_stats m' (buf + of_nat (32 * i))
        = fill_stats env (processes env ! i) (ucast (oom_badness env (processes env ! i) 0)))
    \<and> julioz_get_memory_usage_stats env p' buf' n' m'' \<noteq> None"
proof -
  let ?score = "\<lambda>task. Some (ucast (oom_badness env task 0)) :: u32 option"
  let ?ts = "take (unat n) (processes env)"
  have "write_bytes buf [] m = m"
    by (simp add: write_bytes_def fun_eq_iff)
  then have "stats_loop env ?score buf n (processes env) 0 (write_bytes buf [] m) = Some (Inr c, m')"
    using ret args by (simp add: julioz_get_memory_usage_stats_def get_memory_usage_stats_def word_le_nat_alt word_less_nat_alt)
  from stats_loop_success [OF law _ _ _ this] len
  have c: "unat c = min (length (processes env)) (unat n)"
    and m': "m' = write_bytes buf (concat (stats_image env ?score ?ts)) m"
    by simp_all
  have "read_stats m' (buf + of_nat (32 * i))
      = fill_stats env (processes env ! i) (ucast (oom_badness env (processes env ! i) 0))"
    if "i < unat c" for i
    unfolding m' using read_stats_image [of i ?ts buf env ?score m] that c len by simp
  then show ?thesis
    using c kernel_score.call_returns [of env p' buf' n' m'']
    by (simp add: julioz_get_memory_usage_stats_def)
qed

text \<open>
  C8: The out-of-memory score of \<open>pidstatsv2.c\<close> does not depend on the memory of the process.
  The divisor is the address of the function \<open>totalram_pages\<close> plus the number of swap pages;
  kernel code lies in the upper half of the addresses, so the share of the resident pages
  (below \<open>2^63 / 1000\<close>) is 0 and the result is the adjustment alone, or 0 when that is negative.
\<close>

theorem oom_score_ignores_memory:
  assumes "2 ^ 63 \<le> unat (totalram_pages env)"
    and "unat (totalram_pages env) + unat (total_swap_pages env) < 2 ^ 64"
    and "\<forall>m. task_mm task = Some m \<longrightarrow> 1000 * unat (get_mm_rss env m) < 2 ^ 63"
    and "oom_score_adj task = Some adj" "- 1000 \<le> adj" "adj \<le> 1000"
  shows "\<exists>s. calculate_oom_score env task = Some s \<and> sint s = max 0 adj"
proof (rule calculate_oom_score_value [OF refl])
  have "unat (totalram_pages env + total_swap_pages env) = unat (totalram_pages env) + unat (total_swap_pages env)"
    by (rule unat_add_fits [OF assms(2)])
  then show "1000 * unat (case task_mm task of Some m \<Rightarrow> get_mm_rss env m | None \<Rightarrow> 0)
      < unat (totalram_pages env + total_swap_pages env)"
    using assms(1, 3) by (auto split: option.split)
qed (use assms in simp_all)

text \<open>
  C9: The reported percentage is the resident share of the reserved pages, rounded down, for
  every process whose resident pages are at most its reserved ones and whose size stays
  below 2^64/409600 pages.
\<close>

theorem committed_percent_value:
  assumes "task_mm task = Some m" and "unat (get_mm_rss env m) \<le> unat (total_vm m)"
    and "409600 * unat (total_vm m) < 2 ^ 64"
  shows "unat (committed_percent (fill_stats env task score))
    = (100 * unat (get_mm_rss env m)) div unat (total_vm m)"
  using fill_stats_percent [OF assms] .

text \<open>
  C10: The system-wide call rounds every process down to whole megabytes before adding: the
  delivered reserved and committed totals never exceed the true totals, and fall short of
  them by at most one megabyte per process.
\<close>

theorem global_stats_bounds:
  assumes law: "copy_law env"
    and fits: "sum_list (map (page_bytes total_vm) (processes env)) < 2 ^ 64"
      "sum_list (map (page_bytes (get_mm_rss env)) (processes env)) < 2 ^ 64"
    and ret: "julioz_get_global_memory_usage_stats env us m = (0, m')"
  shows "(let reserved = unat (le_word (read_bytes m' us 8) :: u64);
              committed = unat (le_word (read_bytes m' (us + 8) 8) :: u64)
    in 2 ^ 20 * reserved \<le> sum_list (map (page_bytes total_vm) (processes env))
     \<and> sum_list (map (page_bytes total_vm) (processes env)) \<le> 2 ^ 20 * (reserved + length (processes env))
     \<and> 2 ^ 20 * committed \<le> sum_list (map (page_bytes (get_mm_rss env)) (processes env))
     \<and> sum_list (map (page_bytes (get_mm_rss env)) (processes env))
         \<le> 2 ^ 20 * (committed + length (processes env)))"
proof -
  let ?ts = "processes env"
  let ?st = "fold (add_process env) ?ts \<lparr>total_reserved_mb = 0, total_committed_mb = 0\<rparr>"
  obtain l m1 where cp: "copy_to_user env us (global_bytes ?st) m = (l, m1)"
    by fastforce
  then have "copy_to_user env us (global_bytes ?st) m = (0, m')"
    using ret by (simp add: julioz_get_global_memory_usage_stats_def Let_def split: if_splits)
  then have m': "m' = write_bytes us (global_bytes ?st) m"
    by (rule copy_lawD [OF law])
  have rd: "le_word (read_bytes m' us 8) = total_reserved_mb ?st"
      "le_word (read_bytes m' (us + 8) 8) = total_committed_mb ?st"
    using read_bytes_write_slice [of 0 8 "global_bytes ?st" us m]
      read_bytes_write_slice [of 8 8 "global_bytes ?st" us m]
    by (simp_all add: m' global_bytes_def le_word_le_bytes take_bit_word_eq_self)
  note b = sum_mb_bounds(1) [of total_vm ?ts] sum_mb_bounds(2) [of total_vm ?ts]
    sum_mb_bounds(1) [of "get_mm_rss env" ?ts] sum_mb_bounds(2) [of "get_mm_rss env" ?ts]
  have "sum_list (map (mb_of total_vm) ?ts) < 2 ^ 64" "sum_list (map (mb_of (get_mm_rss env)) ?ts) < 2 ^ 64"
    using b(1,3) fits by simp_all
  then have "unat (total_reserved_mb ?st) = sum_list (map (mb_of total_vm) ?ts)"
      "unat (total_committed_mb ?st) = sum_list (map (mb_of (get_mm_rss env)) ?ts)"
    using fold_process_mb [OF fits, of "\<lparr>total_reserved_mb = 0, total_committed_mb = 0\<rparr>"] by simp_all
  then show ?thesis
    unfolding Let_def rd using b by simp
qed

text \<open>
  C11: A successful \<open>tamalloc\<close> returns a page-aligned address from which at least the
  requested number of bytes is mapped; a request of 0 bytes, or one that overflows when it
  is rounded up to pages, is an error and maps nothing.
\<close>

theorem tamalloc_covers_request:
  assumes law: "vm_mmap_law mapped f" and ret: "julioz_tamalloc f sz s = (a, s')"
  shows "(\<not> IS_ERR_VALUE a \<longrightarrow> offset_in_page a = 0 \<and> (\<forall>k < unat sz. mapped s' (a + of_nat k)))
    \<and> (sz = 0 \<or> 2 ^ 64 - 4096 < unat sz \<longrightarrow> IS_ERR_VALUE a \<and> s' = s)"
proof (cases "sz = 0 \<or> PAGE_ALIGN sz = 0")
  case True
  then show ?thesis
    using ret by (auto simp: julioz_tamalloc_def Let_def split: if_splits)
next
  case False
  then have nz: "sz \<noteq> 0" "PAGE_ALIGN sz \<noteq> 0"
    by simp_all
  then have fits: "unat sz + 4095 < 2 ^ 64"
    using PAGE_ALIGN_eq_0_iff [of sz] by auto
  then have cover: "unat sz \<le> unat (PAGE_ALIGN sz)"
    by (rule PAGE_ALIGN_bounds(1))
  have "f None 0 (PAGE_ALIGN sz) 3 16418 0 s = (a, s')"
    using ret nz by (simp add: julioz_tamalloc_def Let_def split: prod.splits if_splits)
  then have "\<not> IS_ERR_VALUE a \<Longrightarrow>
      offset_in_page a = 0 \<and> (\<forall>k < unat (PAGE_ALIGN sz). mapped s' (a + of_nat k))"
    using law unfolding vm_mmap_law_def by blast
  then show ?thesis
    using nz fits cover by auto
qed

section \<open>Witnesses\<close>

definition ex_proc :: task_struct where
  "ex_proc = \<lparr>pid = 9, task_mm = Some (empty_mm\<lparr>total_vm := 1024\<rparr>), oom_score_adj = Some 50\<rparr>"

definition ex_kthread :: task_struct where
  "ex_kthread = \<lparr>pid = 2, task_mm = None, oom_score_adj = None\<rparr>"

definition ex_stats :: stats_env where
  "ex_stats = \<lparr>find_task_by_vpid = (\<lambda>p. if p = 9 then Some ex_proc else None),
     copy_to_user = (\<lambda>dst bs m. (0, write_bytes dst bs m)), processes = [ex_kthread, ex_proc],
     get_mm_rss = (\<lambda>m. 256), oom_badness = (\<lambda>t p. 77), totalram_pages = 0xffffffff81000000,
     total_swap_pages = 24, stack_junk = (\<lambda>_. 0)\<rparr>"

lemma ex_stats_law: "copy_law ex_stats"
  by (simp add: copy_law_def ex_stats_def)

lemma ex_stats_call:
  "\<exists>m'. julioz_get_memory_usage_stats ex_stats 0 4096 8 (\<lambda>_. 0) = Some (Inr 2, m')"
  by (simp add: julioz_get_memory_usage_stats_def get_memory_usage_stats_def ex_stats_def
      word_le_nat_alt)

theorem usage_stats_all_processes_witness:
  "\<exists>m'. julioz_get_memory_usage_stats ex_stats 0 4096 8 (\<lambda>_. 0) = Some (Inr 2, m')
    \<and> read_stats m' 4128
      = \<lparr>stat_pid = 9, vmsize = 4096, vmrss = 1024, oom_score = 77, committed_percent = 25\<rparr>"
proof -
  obtain m' where ret: "julioz_get_memory_usage_stats ex_stats 0 4096 8 (\<lambda>_. 0) = Some (Inr 2, m')"
    using ex_stats_call by blast
  have "\<forall>i < unat (2 :: u64). read_stats m' (4096 + of_nat (32 * i)) = fill_stats ex_stats
      (processes ex_stats ! i) (ucast (oom_badness ex_stats (processes ex_stats ! i) 0))"
    using usage_stats_all_processes [OF ex_stats_law _ _ _ ret, of 0 0 0 "\<lambda>_. 0"]
    by (simp add: ex_stats_def)
  from spec [OF this, of 1]
  have "read_stats m' (4096 + of_nat (32 * 1)) = fill_stats ex_stats ex_proc 77"
    by (simp add: ex_stats_def)
  then show ?thesis
    using ret by (simp add: fill_stats_def ex_stats_def ex_proc_def)
qed

theorem oom_score_ignores_memory_witness:
  "\<exists>s. calculate_oom_score ex_stats ex_proc = Some s \<and> sint s = 50"
  using oom_score_ignores_memory [of ex_stats ex_proc 50]
  by (simp add: ex_stats_def ex_proc_def)

theorem committed_percent_value_witness:
  "unat (committed_percent (fill_stats ex_stats ex_proc 0)) = 25"
  using committed_percent_value [of ex_proc "empty_mm\<lparr>total_vm := 1024\<rparr>" ex_stats 0]
  by (simp add: ex_stats_def ex_proc_def)

theorem global_stats_bounds_witness:
  "\<exists>m'. julioz_get_global_memory_usage_stats ex_stats 4096 (\<lambda>_. 0) = (0, m')
    \<and> 2 ^ 20 * unat (le_word (read_bytes m' 4096 8) :: u64) \<le> 4194304
    \<and> 4194304 \<le> 2 ^ 20 * (unat (le_word (read_bytes m' 4096 8) :: u64) + 2)"
proof -
  obtain m' where ret: "julioz_get_global_memory_usage_stats ex_stats 4096 (\<lambda>_. 0) = (0, m')"
    by (simp add: julioz_get_global_memory_usage_stats_def ex_stats_def)
  have sums: "sum_list (map (page_bytes total_vm) (processes ex_stats)) = 4194304"
      "sum_list (map (page_bytes (get_mm_rss ex_stats)) (processes ex_stats)) = 1048576"
    by (simp_all add: ex_stats_def ex_proc_def ex_kthread_def page_bytes_def)
  show ?thesis
    using global_stats_bounds [OF ex_stats_law _ _ ret] ret unfolding sums Let_def
    by (simp add: ex_stats_def)
qed

definition ex_vm_mmap :: "(u64 \<Rightarrow> bool) vm_mmap" where
  "ex_vm_mmap file addr len prot flags off s =
     (65536, \<lambda>x. s x \<or> unat (x - 65536) < unat len)"

lemma ex_vm_mmap_law: "vm_mmap_law (\<lambda>s x. s x) ex_vm_mmap"
proof -
  have "unat (of_nat k :: u64) < unat len" if "k < unat len" for k and len :: u64
    using that unat_lt64 [of len] by (simp add: unsigned_of_nat take_bit_nat_eq_self)
  then show ?thesis
    by (auto simp: vm_mmap_law_def ex_vm_mmap_def offset_in_page_def)
qed

theorem tamalloc_covers_request_witness:
  "fst (julioz_tamalloc ex_vm_mmap 5000 (\<lambda>_. False)) = 65536
    \<and> snd (julioz_tamalloc ex_vm_mmap 5000 (\<lambda>_. False)) (65536 + of_nat 4999)"
proof -
  have addr: "fst (julioz_tamalloc ex_vm_mmap 5000 (\<lambda>_. False)) = 65536"
    by (simp add: julioz_tamalloc_def ex_vm_mmap_def PAGE_ALIGN_def)
  then have ret: "julioz_tamalloc ex_vm_mmap 5000 (\<lambda>_. False)
      = (65536, snd (julioz_tamalloc ex_vm_mmap 5000 (\<lambda>_. False)))"
    by (simp add: prod_eq_iff)
  have "\<forall>k < unat (5000 :: u64). snd (julioz_tamalloc ex_vm_mmap 5000 (\<lambda>_. False)) (65536 + of_nat k)"
    using tamalloc_covers_request [OF ex_vm_mmap_law ret] by (simp add: IS_ERR_VALUE_def)
  from spec [OF this, of 4999] show ?thesis
    using addr by simp
qed

end
