(* ===== verification/Syscall_Usage.thy ===== *)
theory Syscall_Usage
  imports Kernel_Types
begin

text \<open>
  The system-call counters of project 1, \<open>kernel/usac/syscall2.c\<close>: a table of 1024 counters
  that is allocated by the first report, the hook \<open>track_syscall\<close> that the \<open>read\<close>, \<open>write\<close>,
  \<open>open\<close>, \<open>fork\<close> and \<open>clone\<close> system calls run first, and the report itself. A store outside the
  table is \<open>None\<close>.
\<close>

section \<open>Data\<close>

record syscall_usage =
  us_count :: u64
  us_sec :: u64
  us_nsec :: u64

abbreviation (input) MAX_SYS_CALLS :: nat where "MAX_SYS_CALLS \<equiv> 1024"

type_synonym counters = "syscall_usage list option"

record usage_env = user_env +
  kzalloc_ok :: bool

definition zero_usage :: syscall_usage where
  "zero_usage = \<lparr>us_count = 0, us_sec = 0, us_nsec = 0\<rparr>"

section \<open>Operations\<close>

definition init_syscall_counters :: "usage_env \<Rightarrow> counters \<Rightarrow> int \<times> counters" where
  "init_syscall_counters env c =
    (let c' = (if kzalloc_ok env then Some (replicate MAX_SYS_CALLS zero_usage) else None)
     in (if c' \<noteq> None then 0 else - ENOMEM, c'))"

text \<open>\<open>ktime_get_real_ts64\<close> gives the pair \<open>now\<close>.\<close>

definition track_syscall :: "u64 \<times> u64 \<Rightarrow> u32 \<Rightarrow> counters \<Rightarrow> counters option" where
  "track_syscall now syscall_id c =
    (case c of
      None \<Rightarrow> Some c
    | Some syscall_counters \<Rightarrow>
        (if sint syscall_id \<ge> int MAX_SYS_CALLS then Some c
         else if sint syscall_id < 0 \<or> length syscall_counters \<le> unat syscall_id then None
         else
           (let i = unat syscall_id;
                u = syscall_counters ! i;
                u = u\<lparr>us_count := us_count u + 1\<rparr>;
                u = u\<lparr>us_sec := fst now, us_nsec := snd now\<rparr>
            in Some (Some (syscall_counters[i := u])))))"

definition usage_bytes :: "syscall_usage \<Rightarrow> u8 list" where
  "usage_bytes u = le_bytes 8 (us_count u) @ le_bytes 8 (us_sec u) @ le_bytes 8 (us_nsec u)"

definition julioz_track_syscall_usage ::
  "usage_env \<Rightarrow> u64 \<Rightarrow> counters \<Rightarrow> umem \<Rightarrow> int \<times> counters \<times> umem" where
  "julioz_track_syscall_usage env statistics c m =
    (let (err, c') = (if c = None then init_syscall_counters env c else (0, c))
     in case c' of
          None \<Rightarrow> (- ENOMEM, c', m)
        | Some syscall_counters \<Rightarrow>
            if err \<noteq> 0 then (- ENOMEM, c', m)
            else
              (let (resultadoCopia, m') =
                     copy_to_user env statistics (concat (map usage_bytes syscall_counters)) m
               in if resultadoCopia \<noteq> 0 then (- EFAULT, c', m') else (0, c', m')))"

section \<open>Sequences of tracked calls\<close>

fun track_all :: "(u32 \<times> (u64 \<times> u64)) list \<Rightarrow> counters \<Rightarrow> counters option" where
  "track_all [] c = Some c"
| "track_all ((i, now) # ts) c = do { c' \<leftarrow> track_syscall now i c; track_all ts c' }"

text \<open>The entry that a run of tracked calls should leave for one identifier.\<close>

fun usage_of :: "u32 \<Rightarrow> (u32 \<times> (u64 \<times> u64)) list \<Rightarrow> syscall_usage \<Rightarrow> syscall_usage" where
  "usage_of k [] u = u"
| "usage_of k ((i, now) # ts) u = usage_of k ts
     (if i = k then \<lparr>us_count = us_count u + 1, us_sec = fst now, us_nsec = snd now\<rparr> else u)"

lemma us_count_usage_of:
  "us_count (usage_of k ts u) = us_count u + of_nat (length (filter (\<lambda>t. fst t = k) ts))"
  by (induction k ts u rule: usage_of.induct) (simp_all add: algebra_simps)

lemma track_all_None: "track_all ts None = Some None"
  by (induction ts) (auto simp: track_syscall_def)

lemma track_all_table:
  assumes "length us = 1024" and "\<forall>t \<in> set ts. 0 \<le> sint (fst t)"
  shows "\<exists>us'. track_all ts (Some us) = Some (Some us') \<and> length us' = 1024
    \<and> (\<forall>k. unat k < 1024 \<longrightarrow> us' ! unat k = usage_of k ts (us ! unat k))"
  using assms
proof (induction ts arbitrary: us)
  case Nil
  then show ?case by simp
next
  case (Cons t ts)
  obtain i now where t: "t = (i, now)" by (cases t) auto
  have pos: "0 \<le> sint i"
    using Cons.prems(2) t by simp
  then have small: "unat i < 2 ^ 31"
    by (rule unat_nonneg)
  show ?case
  proof (cases "unat i < 1024")
    case False
    then have "int 1024 \<le> sint i"
      unfolding sint_small [OF small] of_nat_le_iff by simp
    then have "track_syscall now i (Some us) = Some (Some us)"
      by (simp add: track_syscall_def)
    moreover have "i \<noteq> k" if "unat k < 1024" for k
      using that False by auto
    ultimately show ?thesis
      using Cons.IH [OF Cons.prems(1)] Cons.prems(2) t by auto
  next
    case True
    let ?u = "\<lparr>us_count = us_count (us ! unat i) + 1, us_sec = fst now, us_nsec = snd now\<rparr>"
    have "track_syscall now i (Some us) = Some (Some (us[unat i := ?u]))"
    proof -
      have "\<not> int 1024 \<le> sint i"
        unfolding sint_small [OF small] of_nat_le_iff using True by simp
      then show ?thesis
        using pos True Cons.prems(1) by (cases "us ! unat i") (simp add: track_syscall_def Let_def)
    qed
    moreover have "us[unat i := ?u] ! unat k = (if i = k then ?u else us ! unat k)"
      if "unat k < 1024" for k
      using True Cons.prems(1) by (auto simp: nth_list_update word_unat_eq_iff)
    ultimately show ?thesis
      using Cons.IH [of "us[unat i := ?u]"] Cons.prems t by auto
  qed
qed

section \<open>Reading the report\<close>

definition read_usage :: "umem \<Rightarrow> u64 \<Rightarrow> syscall_usage" where
  "read_usage m a = \<lparr>us_count = le_word (read_bytes m a 8), us_sec = le_word (read_bytes m (a + 8) 8),
     us_nsec = le_word (read_bytes m (a + 16) 8)\<rparr>"

lemma read_usage_bytes:
  assumes "read_bytes m a 24 = usage_bytes u"
  shows "read_usage m a = u"
proof -
  have part: "read_bytes m (a + of_nat off) n = take n (drop off (usage_bytes u))"
    if "off + n \<le> 24" for off n
    unfolding assms [symmetric] by (rule read_bytes_slice [OF that])
  show ?thesis
    using part [of 0 8] part [of 8 8] part [of 16 8]
    by (simp add: read_usage_def usage_bytes_def le_word_le_bytes take_bit_word_eq_self)
qed

lemma report_reads_back:
  assumes law: "copy_law env" and len: "length us = 1024" and k: "k < 1024"
    and ret: "julioz_track_syscall_usage env ub (Some us) m = (0, c', m')"
  shows "c' = Some us \<and> read_usage m' (ub + of_nat (24 * k)) = us ! k"
proof -
  let ?img = "map usage_bytes us"
  obtain l m1 where cp: "copy_to_user env ub (concat ?img) m = (l, m1)"
    by fastforce
  then have "copy_to_user env ub (concat ?img) m = (0, m')" and c': "c' = Some us"
    using ret by (simp_all add: julioz_track_syscall_usage_def split: if_splits)
  then have "m' = write_bytes ub (concat ?img) m"
    using copy_lawD [OF law] by blast
  moreover have "read_bytes (write_bytes ub (concat ?img) m) (ub + of_nat (24 * k)) 24 = ?img ! k"
    by (rule read_block) (use len k in \<open>auto simp: usage_bytes_def\<close>)
  ultimately show ?thesis
    using c' k len read_usage_bytes [of m' "ub + of_nat (24 * k)" "us ! k"] by simp
qed

section \<open>Properties\<close>


section \<open>Witnesses\<close>

definition ex_usage :: usage_env where
  "ex_usage = \<lparr>find_task_by_vpid = (\<lambda>_. None), copy_to_user = (\<lambda>dst bs m. (0, write_bytes dst bs m)),
     kzalloc_ok = True\<rparr>"


end
