(* ===== verification/System_Reports.thy ===== *)
theory System_Reports
  imports Kernel_Types
begin

text \<open>
  System-wide reports: \<open>sysinfo\<close> and its 32-bit variant in \<open>kernel/sys.c\<close>, the memory snapshot
  of project 1 (in \<open>kernel/sys.c\<close> and, identically, \<open>kernel/usac/syscall1.c\<close>), its I/O report
  \<open>kernel/usac/syscall3.c\<close>, and \<open>getcpu\<close>.
\<close>

section \<open>Data\<close>

record sysinfo =
  uptime :: u64
  loads :: "u64 \<times> u64 \<times> u64"
  totalram :: u64
  freeram :: u64
  sharedram :: u64
  bufferram :: u64
  totalswap :: u64
  freeswap :: u64
  procs :: u16
  totalhigh :: u64
  freehigh :: u64
  mem_unit :: u32

record compat_sysinfo =
  c_uptime :: u32
  c_loads :: "u32 \<times> u32 \<times> u32"
  c_totalram :: u32
  c_freeram :: u32
  c_sharedram :: u32
  c_bufferram :: u32
  c_totalswap :: u32
  c_freeswap :: u32
  c_procs :: u16
  c_totalhigh :: u32
  c_freehigh :: u32
  c_mem_unit :: u32

record mem_snapshot =
  total_memory :: u64
  free_memory :: u64
  total_swap :: u64
  free_swap :: u64
  active_pages :: u64
  cached_pages :: u64

record io_stats =
  bytes_read :: u64
  bytes_written :: u64
  cancel_count :: u64
  io_wait_time :: u64
  disk_io_time :: u64

text \<open>
  What the sources ask of the kernel. \<open>si_meminfo\<close> and \<open>si_swapinfo\<close> fill some fields of the
  structure they are given; \<open>stack_sysinfo\<close> is what an uninitialised one holds.
\<close>

record report_env = user_env +
  si_meminfo :: "sysinfo \<Rightarrow> sysinfo"
  si_swapinfo :: "sysinfo \<Rightarrow> sysinfo"
  boottime_ts64 :: "u64 \<times> u64"
  avenrun :: "u64 \<times> u64 \<times> u64"
  nr_threads :: u64
  NR_FILE_PAGES :: u64
  NR_ACTIVE_ANON :: u64
  NR_ACTIVE_FILE :: u64
  total_swapcache_pages :: u64
  stack_sysinfo :: sysinfo
  config_task_io_accounting :: bool
  ioac_read_bytes :: u64
  ioac_write_bytes :: u64
  ioac_cancelled_write_bytes :: u64
  raw_smp_processor_id :: u32
  cpu_to_node :: "u32 \<Rightarrow> u32"

definition zero_sysinfo :: sysinfo where
  "zero_sysinfo = \<lparr>uptime = 0, loads = (0, 0, 0), totalram = 0, freeram = 0, sharedram = 0,
     bufferram = 0, totalswap = 0, freeswap = 0, procs = 0, totalhigh = 0, freehigh = 0,
     mem_unit = 0\<rparr>"

section \<open>\<open>sysinfo\<close>\<close>

text \<open>
  The loop that counts how often the unit can be halved while doubling the total; \<open>None\<close> is
  the \<open>goto out\<close> on overflow.
\<close>

function unit_loop :: "u64 \<Rightarrow> u32 \<Rightarrow> nat \<Rightarrow> nat option" where
  "unit_loop mem_total unit bitcount =
    (if unit > 1
     then
       (let sav_total = mem_total;
            mem_total = push_bit 1 mem_total
        in if mem_total < sav_total then None
           else unit_loop mem_total (drop_bit 1 unit) (bitcount + 1))
     else Some bitcount)"
  by pat_completeness auto

termination unit_loop
  by (relation "measure (\<lambda>(t, u, b). unat u)")
    (simp_all add: drop_bit_eq_div unat_div_distrib word_less_nat_alt)

declare unit_loop.simps [simp del]

definition scale_sysinfo :: "(u64 \<Rightarrow> u64) \<Rightarrow> sysinfo \<Rightarrow> sysinfo" where
  "scale_sysinfo f si = si\<lparr>totalram := f (totalram si), freeram := f (freeram si),
     sharedram := f (sharedram si), bufferram := f (bufferram si),
     totalswap := f (totalswap si), freeswap := f (freeswap si),
     totalhigh := f (totalhigh si), freehigh := f (freehigh si)\<rparr>"

definition do_sysinfo :: "report_env \<Rightarrow> sysinfo" where
  "do_sysinfo env =
    (let info = zero_sysinfo;
         tp = boottime_ts64 env;
         info = info\<lparr>uptime := fst tp + (if snd tp \<noteq> 0 then 1 else 0)\<rparr>;
         info = info\<lparr>loads := avenrun env\<rparr>;
         info = info\<lparr>procs := ucast (nr_threads env)\<rparr>;
         info = si_meminfo env info;
         info = si_swapinfo env info;
         mem_total = totalram info + totalswap info
     in if mem_total < totalram info \<or> mem_total < totalswap info then info
        else (case unit_loop mem_total (mem_unit info) 0 of
            None \<Rightarrow> info
          | Some bitcount \<Rightarrow> scale_sysinfo (push_bit bitcount) (info\<lparr>mem_unit := 1\<rparr>)))"

definition sysinfo_bytes :: "sysinfo \<Rightarrow> u8 list" where
  "sysinfo_bytes si = le_bytes 8 (uptime si) @
     (case loads si of (a, b, c) \<Rightarrow> le_bytes 8 a @ le_bytes 8 b @ le_bytes 8 c) @
     le_bytes 8 (totalram si) @ le_bytes 8 (freeram si) @ le_bytes 8 (sharedram si) @
     le_bytes 8 (bufferram si) @ le_bytes 8 (totalswap si) @ le_bytes 8 (freeswap si) @
     le_bytes 2 (procs si) @ replicate 6 0 @ le_bytes 8 (totalhigh si) @
     le_bytes 8 (freehigh si) @ le_bytes 4 (mem_unit si) @ replicate 4 0"

definition sys_sysinfo :: "report_env \<Rightarrow> u64 \<Rightarrow> umem \<Rightarrow> int \<times> umem" where
  "sys_sysinfo env info m =
    (let val = do_sysinfo env;
         (left, m') = copy_to_user env info (sysinfo_bytes val) m
     in if left \<noteq> 0 then (- EFAULT, m') else (0, m'))"

section \<open>The 32-bit variant\<close>

text \<open>
  \<open>while (s.mem_unit < PAGE_SIZE)\<close>: from 0 the loop would not end, which is the value \<open>None\<close>.
\<close>

partial_function (option) page_unit_loop :: "u32 \<Rightarrow> nat \<Rightarrow> (u32 \<times> nat) option" where
  "page_unit_loop unit bitcount =
    (if unat unit < 4096 then page_unit_loop (push_bit 1 unit) (bitcount + 1)
     else Some (unit, bitcount))"

definition upper_32_bits :: "u64 \<Rightarrow> u32" where
  "upper_32_bits x = ucast (drop_bit 32 x)"

definition to_compat :: "sysinfo \<Rightarrow> compat_sysinfo" where
  "to_compat s = \<lparr>c_uptime = ucast (uptime s),
     c_loads = (case loads s of (a, b, c) \<Rightarrow> (ucast a, ucast b, ucast c)),
     c_totalram = ucast (totalram s), c_freeram = ucast (freeram s),
     c_sharedram = ucast (sharedram s), c_bufferram = ucast (bufferram s),
     c_totalswap = ucast (totalswap s), c_freeswap = ucast (freeswap s), c_procs = procs s,
     c_totalhigh = ucast (totalhigh s), c_freehigh = ucast (freehigh s),
     c_mem_unit = mem_unit s\<rparr>"

definition compat_bytes :: "compat_sysinfo \<Rightarrow> u8 list" where
  "compat_bytes s = le_bytes 4 (c_uptime s) @
     (case c_loads s of (a, b, c) \<Rightarrow> le_bytes 4 a @ le_bytes 4 b @ le_bytes 4 c) @
     le_bytes 4 (c_totalram s) @ le_bytes 4 (c_freeram s) @ le_bytes 4 (c_sharedram s) @
     le_bytes 4 (c_bufferram s) @ le_bytes 4 (c_totalswap s) @ le_bytes 4 (c_freeswap s) @
     le_bytes 2 (c_procs s) @ replicate 2 0 @ le_bytes 4 (c_totalhigh s) @
     le_bytes 4 (c_freehigh s) @ le_bytes 4 (c_mem_unit s) @ replicate 8 0"

definition compat_scale :: "sysinfo \<Rightarrow> sysinfo option" where
  "compat_scale s =
    (if upper_32_bits (totalram s) \<noteq> 0 \<or> upper_32_bits (totalswap s) \<noteq> 0
     then do {
       (unit, bitcount) \<leftarrow> page_unit_loop (mem_unit s) 0;
       Some (scale_sysinfo (drop_bit bitcount) (s\<lparr>mem_unit := unit\<rparr>)) }
     else Some s)"

definition compat_sys_sysinfo :: "report_env \<Rightarrow> u64 \<Rightarrow> umem \<Rightarrow> (int \<times> umem) option" where
  "compat_sys_sysinfo env info m = do {
     s \<leftarrow> compat_scale (do_sysinfo env);
     let (left, m') = copy_to_user env info (compat_bytes (to_compat s)) m
     in Some (if left \<noteq> 0 then (- EFAULT, m') else (0, m')) }"

section \<open>The memory snapshot\<close>

definition take_snapshot :: "report_env \<Rightarrow> mem_snapshot" where
  "take_snapshot env =
    (let si = si_meminfo env (stack_sysinfo env);
         cached = NR_FILE_PAGES env - total_swapcache_pages env;
         cached = (if cached < 0 then 0 else cached);
         active = NR_ACTIVE_ANON env + NR_ACTIVE_FILE env
     in \<lparr>total_memory = push_bit (PAGE_SHIFT - 10) (totalram si),
         free_memory = push_bit (PAGE_SHIFT - 10) (freeram si),
         total_swap = push_bit (PAGE_SHIFT - 10) (totalswap si),
         free_swap = push_bit (PAGE_SHIFT - 10) (freeswap si),
         active_pages = push_bit (PAGE_SHIFT - 10) active,
         cached_pages = push_bit (PAGE_SHIFT - 10) cached\<rparr>)"

definition snapshot_bytes :: "mem_snapshot \<Rightarrow> u8 list" where
  "snapshot_bytes s = le_bytes 8 (total_memory s) @ le_bytes 8 (free_memory s) @
     le_bytes 8 (total_swap s) @ le_bytes 8 (free_swap s) @ le_bytes 8 (active_pages s) @
     le_bytes 8 (cached_pages s)"

definition julioz_capture_memory_snapshot :: "report_env \<Rightarrow> u64 \<Rightarrow> umem \<Rightarrow> int \<times> umem" where
  "julioz_capture_memory_snapshot env user_snapshot m =
    (let (left, m') = copy_to_user env user_snapshot (snapshot_bytes (take_snapshot env)) m
     in if left \<noteq> 0 then (- EFAULT, m') else (0, m'))"

section \<open>The I/O report\<close>

definition io_of :: "report_env \<Rightarrow> io_stats" where
  "io_of env =
    (let stats = (if config_task_io_accounting env
           then \<lparr>bytes_read = ioac_read_bytes env, bytes_written = ioac_write_bytes env,
                  cancel_count = ioac_cancelled_write_bytes env, io_wait_time = 0, disk_io_time = 0\<rparr>
           else \<lparr>bytes_read = 0, bytes_written = 0, cancel_count = 0, io_wait_time = 0,
                  disk_io_time = 0\<rparr>)
     in stats\<lparr>io_wait_time := 0, disk_io_time := 0\<rparr>)"

definition io_bytes :: "io_stats \<Rightarrow> u8 list" where
  "io_bytes s = le_bytes 8 (bytes_read s) @ le_bytes 8 (bytes_written s) @
     le_bytes 8 (cancel_count s) @ le_bytes 8 (io_wait_time s) @ le_bytes 8 (disk_io_time s)"

definition julioz_get_io_throttle :: "report_env \<Rightarrow> u64 \<Rightarrow> umem \<Rightarrow> int \<times> umem" where
  "julioz_get_io_throttle env user_stats m =
    (let (left, m') = copy_to_user env user_stats (io_bytes (io_of env)) m
     in if left \<noteq> 0 then (- EFAULT, m') else (0, m'))"

section \<open>\<open>getcpu\<close>\<close>

text \<open>\<open>put_user\<close> gives 0 or \<open>-EFAULT\<close>; \<open>err\<close> collects whether one failed.\<close>

definition put_user32 :: "report_env \<Rightarrow> u32 \<Rightarrow> u64 \<Rightarrow> umem \<Rightarrow> bool \<times> umem" where
  "put_user32 env v p m = (let (left, m') = copy_to_user env p (le_bytes 4 v) m in (left \<noteq> 0, m'))"

definition sys_getcpu :: "report_env \<Rightarrow> u64 \<Rightarrow> u64 \<Rightarrow> umem \<Rightarrow> int \<times> umem" where
  "sys_getcpu env cpup nodep m =
    (let cpu = raw_smp_processor_id env;
         (err1, m1) = (if cpup \<noteq> 0 then put_user32 env cpu cpup m else (False, m));
         (err2, m2) = (if nodep \<noteq> 0 then put_user32 env (cpu_to_node env cpu) nodep m1 else (False, m1))
     in (if err1 \<or> err2 then - EFAULT else 0, m2))"

section \<open>The unit loops\<close>

lemma unat_pow32: "k < 32 \<Longrightarrow> unat (2 ^ k :: u32) = 2 ^ k"
proof -
  assume k: "k < 32"
  have "(2 ^ k :: u32) = of_nat (2 ^ k)"
    by simp
  then show ?thesis
    using k by (simp only: unsigned_of_nat) simp
qed

lemma unit_loop_pow:
  "b < 32 \<Longrightarrow> unit_loop t (2 ^ b) c = (if unat t * 2 ^ b < 2 ^ 64 then Some (c + b) else None)"
proof (induction b arbitrary: t c)
  case 0
  then show ?case
    by (simp add: unit_loop.simps unat_lt64 [simplified])
next
  case (Suc b)
  note pow = unat_pow32 [OF Suc.prems]
  have "1 < unat (2 ^ Suc b :: u32)"
    unfolding pow by (rule one_less_power) simp_all
  then have gt: "1 < (2 ^ Suc b :: u32)"
    by (simp add: word_less_nat_alt del: power_Suc)
  have "unat (drop_bit 1 (2 ^ Suc b :: u32)) = 2 ^ b"
    unfolding drop_bit_eq_div unat_div_distrib pow by simp
  then have half: "drop_bit 1 (2 ^ Suc b :: u32) = 2 ^ b"
    using Suc.prems by (simp add: word_unat_eq_iff unat_pow32 del: power_Suc)
  show ?case
  proof (cases "unat t * 2 < 2 ^ 64")
    case True
    then have dbl: "unat (push_bit 1 t) = unat t * 2"
      by (simp add: push_bit_eq_mult unat_word_ariths mult.commute)
    then have "\<not> push_bit 1 t < t"
      by (simp add: word_less_nat_alt)
    then show ?thesis
      using gt half Suc.IH [of "push_bit 1 t" "c + 1"] Suc.prems dbl
      by (subst unit_loop.simps) (simp add: Let_def mult.assoc)
  next
    case False
    have "unat (push_bit 1 t) = (unat t * 2) mod 2 ^ 64"
      by (simp add: push_bit_eq_mult unat_word_ariths mult.commute)
    also have "\<dots> = unat t * 2 - 2 ^ 64"
      using False unat_lt64 [of t] by (simp add: mod_if)
    finally have "push_bit 1 t < t"
      using False unat_lt64 [of t] by (simp add: word_less_nat_alt)
    moreover have "\<not> unat t * 2 ^ Suc b < 2 ^ 64"
    proof -
      have "unat t * 2 \<le> unat t * 2 ^ Suc b" by simp
      then show ?thesis using False by linarith
    qed
    ultimately show ?thesis
      using gt by (subst unit_loop.simps) (simp add: Let_def)
  qed
qed

lemma page_unit_loop_pow:
  "b \<le> 12 \<Longrightarrow> page_unit_loop (2 ^ b) c = Some (4096, c + (12 - b))"
proof (induction "12 - b" arbitrary: b c)
  case 0
  then have "b = 12" by simp
  then show ?case
    by (simp add: page_unit_loop.simps)
next
  case (Suc d)
  then have b: "b < 12" by simp
  then have "(2 :: nat) ^ b < 2 ^ 12"
    by (intro power_strict_increasing) simp_all
  then have small: "unat (2 ^ b :: u32) < 4096"
    using b by (simp add: unat_pow32)
  have dbl: "push_bit 1 (2 ^ b :: u32) = 2 ^ Suc b"
    by (simp add: push_bit_eq_mult)
  have "page_unit_loop (2 ^ Suc b) (c + 1) = Some (4096, c + 1 + (12 - Suc b))"
    using Suc.hyps(1) [of "Suc b"] Suc.hyps(2) b by simp
  moreover have "page_unit_loop (2 ^ b) c = page_unit_loop (2 ^ Suc b) (c + 1)"
    using small by (subst page_unit_loop.simps) (simp only: dbl if_True)
  ultimately show ?case
    using b by (simp del: power_Suc)
qed

text \<open>\<open>info\<close> after both kernel calls have filled it, before the scaling.\<close>

definition raw_sysinfo :: "report_env \<Rightarrow> sysinfo" where
  "raw_sysinfo env = si_swapinfo env (si_meminfo env (zero_sysinfo\<lparr>
     uptime := fst (boottime_ts64 env) + (if snd (boottime_ts64 env) \<noteq> 0 then 1 else 0),
     loads := avenrun env, procs := ucast (nr_threads env)\<rparr>))"

definition mem_fields :: "(sysinfo \<Rightarrow> u64) list" where
  "mem_fields = [totalram, freeram, sharedram, bufferram, totalswap, freeswap, totalhigh, freehigh]"

lemma mem_fields_scale: "f \<in> set mem_fields \<Longrightarrow> f (scale_sysinfo g (si\<lparr>mem_unit := u\<rparr>)) = g (f si)"
  by (auto simp: mem_fields_def scale_sysinfo_def)

lemma word_add_overflow: "(a + b < a \<or> a + b < b) \<longleftrightarrow> 2 ^ 64 \<le> unat a + unat (b :: u64)"
proof (cases "unat a + unat b < 2 ^ 64")
  case True
  then have "unat (a + b) = unat a + unat b"
    by (simp add: unat_word_ariths)
  with True show ?thesis
    by (simp add: word_less_nat_alt)
next
  case False
  have "unat (a + b) = unat a + unat b - 2 ^ 64"
    using False unat_lt64 [of a] unat_lt64 [of b] by (simp add: unat_word_ariths mod_if)
  with False show ?thesis
    using unat_lt64 [of a] unat_lt64 [of b] by (simp add: word_less_nat_alt, arith)
qed

lemma unat_push_bit_fits:
  "unat x * 2 ^ b < 2 ^ 64 \<Longrightarrow> unat (push_bit b x :: u64) = unat x * 2 ^ b"
  by (simp only: unsigned_push_bit_eq) (simp add: push_bit_eq_mult take_bit_nat_eq_self)

lemma do_sysinfo_alt:
  assumes "mem_unit (raw_sysinfo env) = 2 ^ b" and "b < 32"
  shows "do_sysinfo env =
    (if (unat (totalram (raw_sysinfo env)) + unat (totalswap (raw_sysinfo env))) * 2 ^ b < 2 ^ 64
     then scale_sysinfo (push_bit b) (raw_sysinfo env\<lparr>mem_unit := 1\<rparr>) else raw_sysinfo env)"
proof -
  define raw where "raw = raw_sysinfo env"
  define T where "T = unat (totalram raw) + unat (totalswap raw)"
  have body: "do_sysinfo env =
      (if totalram raw + totalswap raw < totalram raw \<or> totalram raw + totalswap raw < totalswap raw
       then raw else (case unit_loop (totalram raw + totalswap raw) (2 ^ b) 0 of None \<Rightarrow> raw
         | Some n \<Rightarrow> scale_sysinfo (push_bit n) (raw\<lparr>mem_unit := 1\<rparr>)))"
    by (simp only: do_sysinfo_def raw_def Let_def assms(1) [unfolded raw_sysinfo_def] raw_sysinfo_def)
  show ?thesis
  proof (cases "T < 2 ^ 64")
    case True
    then have "unat (totalram raw + totalswap raw) = T"
      by (simp add: T_def unat_word_ariths)
    then show ?thesis
      using True unfolding body word_add_overflow unit_loop_pow [OF assms(2)]
      unfolding raw_def [symmetric] T_def [symmetric] by simp
  next
    case False
    moreover have "T * 1 \<le> T * 2 ^ b"
      by (intro mult_le_mono2) simp
    ultimately have "\<not> T * 2 ^ b < 2 ^ 64"
      by linarith
    then show ?thesis
      using False unfolding body word_add_overflow
      unfolding raw_def [symmetric] T_def [symmetric] by simp
  qed
qed

lemma upper_32_bits_zero: "upper_32_bits x = 0 \<longleftrightarrow> unat x < 2 ^ 32"
proof -
  have "unat (upper_32_bits x) = unat x div 2 ^ 32"
  proof -
    have "unat x div 2 ^ 32 < 2 ^ 32"
      using unat_lt64 [of x] by (simp add: less_mult_imp_div_less)
    then show ?thesis
      by (simp only: upper_32_bits_def unsigned_ucast_eq unat_drop_bit) (simp add: take_bit_nat_eq_self)
  qed
  then show ?thesis
    by (metis div_eq_0_iff unat_eq_zero zero_neq_numeral power_not_zero)
qed

text \<open>What a 32-bit program can recover of a memory field: its value up to one page.\<close>

lemma scaled_field:
  assumes "b \<le> 12" and "unat t * 2 ^ b < 2 ^ 44"
  defines "r \<equiv> unat (ucast (drop_bit (12 - b) t :: u64) :: u32)"
  shows "r * 4096 \<le> unat t * 2 ^ b" and "unat t * 2 ^ b < r * 4096 + 4096"
proof -
  have pow: "(2 :: nat) ^ (12 - b) * 2 ^ b = 4096"
    using assms(1) by (simp flip: power_add)
  have q: "unat t div 2 ^ (12 - b) < 2 ^ 32"
  proof -
    have "unat t * 2 ^ b < 2 ^ 32 * 2 ^ (12 - b) * 2 ^ b"
      using assms(2) by (simp only: mult.assoc pow) simp
    then have "unat t < 2 ^ 32 * 2 ^ (12 - b)"
      by (metis mult_less_cancel2)
    then show ?thesis
      by (simp add: less_mult_imp_div_less)
  qed
  then have r: "r = unat t div 2 ^ (12 - b)"
    by (simp only: r_def unsigned_ucast_eq unat_drop_bit) (simp add: take_bit_nat_eq_self)
  have split: "unat t * 2 ^ b = r * 4096 + unat t mod 2 ^ (12 - b) * 2 ^ b"
  proof -
    have "unat t * 2 ^ b = (r * 2 ^ (12 - b) + unat t mod 2 ^ (12 - b)) * 2 ^ b"
      unfolding r by (simp only: div_mult_mod_eq)
    then show ?thesis
      by (simp only: add_mult_distrib mult.assoc pow)
  qed
  have "unat t mod 2 ^ (12 - b) * 2 ^ b < 2 ^ (12 - b) * 2 ^ b"
    by simp
  then show "r * 4096 \<le> unat t * 2 ^ b" and "unat t * 2 ^ b < r * 4096 + 4096"
    unfolding split pow by simp_all
qed

lemma compat_field:
  assumes unit: "mem_unit s = 2 ^ b" "b \<le> 12" and f: "(f, g) = (totalram, c_totalram) \<or> (f, g) = (totalswap, c_totalswap)"
    and small: "unat (f s) * 2 ^ b < 2 ^ 44"
  shows "\<exists>s'. compat_scale s = Some s'
    \<and> unat (g (to_compat s')) * unat (c_mem_unit (to_compat s')) \<le> unat (f s) * 2 ^ b
    \<and> unat (f s) * 2 ^ b < unat (g (to_compat s')) * unat (c_mem_unit (to_compat s')) + 4096"
proof (cases "upper_32_bits (totalram s) \<noteq> 0 \<or> upper_32_bits (totalswap s) \<noteq> 0")
  case True
  let ?s = "scale_sysinfo (drop_bit (12 - b)) (s\<lparr>mem_unit := 4096\<rparr>)"
  have "compat_scale s = Some ?s"
    using True unit by (simp add: compat_scale_def page_unit_loop_pow)
  moreover have "g (to_compat ?s) = ucast (drop_bit (12 - b) (f s))" "c_mem_unit (to_compat ?s) = 4096"
    using f by (auto simp: to_compat_def scale_sysinfo_def)
  ultimately show ?thesis
    using scaled_field [OF unit(2) small] by simp
next
  case False
  then have "unat (f s) < 2 ^ 32"
    using f by (auto simp: upper_32_bits_zero)
  then have "unat (g (to_compat s)) = unat (f s)"
    using f by (auto simp: to_compat_def unsigned_ucast_eq take_bit_nat_eq_self)
  moreover have "unat (c_mem_unit (to_compat s)) = 2 ^ b"
    using unit by (simp add: to_compat_def unat_pow32)
  ultimately show ?thesis
    using False by (simp add: compat_scale_def)
qed

section \<open>Properties\<close>

text \<open>
  C13: \<open>sysinfo\<close> converts its memory fields from units to bytes exactly when RAM and swap
  together fit in 64 bits as bytes: then the unit becomes 1 and every memory field up to that
  total is multiplied without overflow; otherwise the values stay as the kernel reported
  them, with their unit.
\<close>

theorem sysinfo_scales_exactly:
  assumes unit: "mem_unit (raw_sysinfo env) = 2 ^ b" "b < 32"
  defines "T \<equiv> unat (totalram (raw_sysinfo env)) + unat (totalswap (raw_sysinfo env))"
  shows "if T * 2 ^ b < 2 ^ 64
    then mem_unit (do_sysinfo env) = 1
      \<and> (\<forall>f \<in> set mem_fields. unat (f (raw_sysinfo env)) \<le> T \<longrightarrow>
          unat (f (do_sysinfo env)) = unat (f (raw_sysinfo env)) * 2 ^ b)
    else do_sysinfo env = raw_sysinfo env"
proof (cases "T * 2 ^ b < 2 ^ 64")
  case True
  have scaled: "do_sysinfo env = scale_sysinfo (push_bit b) (raw_sysinfo env\<lparr>mem_unit := 1\<rparr>)"
    using True unfolding do_sysinfo_alt [OF unit] T_def by simp
  have "unat (f (do_sysinfo env)) = unat (f (raw_sysinfo env)) * 2 ^ b"
    if "f \<in> set mem_fields" and "unat (f (raw_sysinfo env)) \<le> T" for f
  proof -
    have "unat (f (raw_sysinfo env)) * 2 ^ b \<le> T * 2 ^ b"
      using that(2) by simp
    then show ?thesis
      using True unfolding scaled mem_fields_scale [OF that(1)]
      by (intro unat_push_bit_fits) linarith
  qed
  moreover have "mem_unit (do_sysinfo env) = 1"
    unfolding scaled by (simp add: scale_sysinfo_def)
  ultimately show ?thesis
    using True by simp
next
  case False
  then show ?thesis
    unfolding do_sysinfo_alt [OF unit] T_def by simp
qed

text \<open>
  C14: What the 32-bit \<open>sysinfo\<close> reports as total RAM, times the unit it reports, is the total
  RAM rounded down by less than a page, for every machine below 16 TiB whose unit is a power
  of two up to a page; in particular the scaling loop ends.
\<close>

theorem compat_sysinfo_within_page:
  assumes "mem_unit (do_sysinfo env) = 2 ^ b" "b \<le> 12"
    and "unat (totalram (do_sysinfo env)) * 2 ^ b < 2 ^ 44"
  shows "\<exists>s'. compat_scale (do_sysinfo env) = Some s'
    \<and> (\<exists>r m'. compat_sys_sysinfo env info m = Some (r, m'))
    \<and> unat (c_totalram (to_compat s')) * unat (c_mem_unit (to_compat s'))
        \<le> unat (totalram (do_sysinfo env)) * 2 ^ b
    \<and> unat (totalram (do_sysinfo env)) * 2 ^ b
        < unat (c_totalram (to_compat s')) * unat (c_mem_unit (to_compat s')) + 4096"
  using compat_field [OF assms(1,2), of totalram c_totalram] assms(3)
  by (auto simp: compat_sys_sysinfo_def split: prod.splits)

text \<open>
  C15: The memory snapshot reads the swap totals from a structure that only \<open>si_meminfo\<close> has
  filled: as \<open>si_meminfo\<close> leaves the swap fields alone (\<open>do_sysinfo\<close> calls \<open>si_swapinfo\<close> for
  them), the delivered swap values are what the kernel stack happened to hold.
\<close>

theorem snapshot_swap_uninitialised:
  assumes law: "copy_law env"
    and noswap: "\<forall>si. totalswap (si_meminfo env si) = totalswap si
      \<and> freeswap (si_meminfo env si) = freeswap si"
    and ret: "julioz_capture_memory_snapshot env us m = (0, m')"
  shows "le_word (read_bytes m' (us + 16) 8) = push_bit 2 (totalswap (stack_sysinfo env))
    \<and> le_word (read_bytes m' (us + 24) 8) = push_bit 2 (freeswap (stack_sysinfo env))"
proof -
  let ?bs = "snapshot_bytes (take_snapshot env)"
  obtain l m1 where "copy_to_user env us ?bs m = (l, m1)"
    by fastforce
  then have "copy_to_user env us ?bs m = (0, m')"
    using ret by (simp add: julioz_capture_memory_snapshot_def split: if_splits)
  then have m': "m' = write_bytes us ?bs m"
    by (rule copy_lawD [OF law])
  show ?thesis
    using read_bytes_write_slice [of 16 8 ?bs us m] read_bytes_write_slice [of 24 8 ?bs us m] noswap
    by (simp add: m' snapshot_bytes_def le_word_le_bytes take_bit_word_eq_self take_snapshot_def Let_def)
qed

text \<open>
  C16: The guard for a negative page-cache size compares an unsigned number with 0 and has no
  effect: when more pages are in the swap cache than are file pages, the reported cache size
  is not 0 but wraps.
\<close>

theorem snapshot_cached_wraps:
  assumes "unat (NR_FILE_PAGES env) < unat (total_swapcache_pages env)"
    and "unat (total_swapcache_pages env) - unat (NR_FILE_PAGES env) < 2 ^ 62"
  shows "unat (cached_pages (take_snapshot env))
    = 2 ^ 64 - 4 * (unat (total_swapcache_pages env) - unat (NR_FILE_PAGES env))"
proof -
  let ?f = "NR_FILE_PAGES env" and ?s = "total_swapcache_pages env"
  have d: "unat (?s - ?f) = unat ?s - unat ?f"
    using assms(1) by (simp add: unat_sub_if')
  then have "unat (push_bit 2 (?s - ?f)) = 4 * (unat ?s - unat ?f)"
    using assms(2) unat_push_bit_fits [of "?s - ?f" 2] by simp
  moreover have "cached_pages (take_snapshot env) = - push_bit 2 (?s - ?f)"
    by (simp add: take_snapshot_def Let_def push_bit_eq_mult algebra_simps)
  moreover have "unat (- x :: u64) = 2 ^ 64 - unat x" if "0 < unat x" for x
    using that unat_sub_if' [of 0 x] by simp
  ultimately show ?thesis
    using assms(1) by simp
qed

section \<open>Witnesses\<close>

definition ex_report :: report_env where
  "ex_report = \<lparr>find_task_by_vpid = (\<lambda>_. None), copy_to_user = (\<lambda>dst bs m. (0, write_bytes dst bs m)),
     si_meminfo = (\<lambda>si. si\<lparr>totalram := 2097152, freeram := 1000, mem_unit := 4096\<rparr>),
     si_swapinfo = (\<lambda>si. si\<lparr>totalswap := 100, freeswap := 50\<rparr>), boottime_ts64 = (5, 1),
     avenrun = (0, 0, 0), nr_threads = 80, NR_FILE_PAGES = 10, NR_ACTIVE_ANON = 1,
     NR_ACTIVE_FILE = 2, total_swapcache_pages = 12,
     stack_sysinfo = zero_sysinfo\<lparr>totalswap := 3735928559\<rparr>, config_task_io_accounting = True,
     ioac_read_bytes = 0, ioac_write_bytes = 0, ioac_cancelled_write_bytes = 0,
     raw_smp_processor_id = 0, cpu_to_node = (\<lambda>_. 0)\<rparr>"

lemma ex_raw: "raw_sysinfo ex_report = zero_sysinfo\<lparr>uptime := 6, procs := 80, totalram := 2097152,
    freeram := 1000, mem_unit := 4096, totalswap := 100, freeswap := 50\<rparr>"
  by (simp add: raw_sysinfo_def ex_report_def zero_sysinfo_def)

theorem sysinfo_scales_exactly_witness:
  "mem_unit (do_sysinfo ex_report) = 1 \<and> unat (totalram (do_sysinfo ex_report)) = 2 ^ 33"
  using sysinfo_scales_exactly [of ex_report 12] by (simp add: ex_raw mem_fields_def)

theorem compat_sysinfo_within_page_witness:
  "\<exists>s'. compat_scale (do_sysinfo ex_report) = Some s'
    \<and> unat (c_totalram (to_compat s')) * unat (c_mem_unit (to_compat s')) \<le> 2 ^ 33
    \<and> 2 ^ 33 < unat (c_totalram (to_compat s')) * unat (c_mem_unit (to_compat s')) + 4096"
proof -
  have "do_sysinfo ex_report = scale_sysinfo (push_bit 12) (raw_sysinfo ex_report\<lparr>mem_unit := 1\<rparr>)"
    using do_sysinfo_alt [of ex_report 12] by (simp add: ex_raw)
  then have "mem_unit (do_sysinfo ex_report) = 2 ^ 0" "totalram (do_sysinfo ex_report) = 2 ^ 33"
    by (simp_all add: ex_raw scale_sysinfo_def push_bit_eq_mult)
  then show ?thesis
    using compat_sysinfo_within_page [of ex_report 0 0 "\<lambda>_. 0"] by auto
qed

theorem snapshot_swap_uninitialised_witness:
  "\<exists>m'. julioz_capture_memory_snapshot ex_report 4096 (\<lambda>_. 0) = (0, m')
    \<and> le_word (read_bytes m' 4112 8) = (push_bit 2 3735928559 :: u64)"
proof -
  obtain m' where ret: "julioz_capture_memory_snapshot ex_report 4096 (\<lambda>_. 0) = (0, m')"
    by (simp add: julioz_capture_memory_snapshot_def ex_report_def)
  have "copy_law ex_report"
    by (simp add: copy_law_def ex_report_def)
  then show ?thesis
    using snapshot_swap_uninitialised [OF _ _ ret] ret by (simp add: ex_report_def)
qed

theorem snapshot_cached_wraps_witness:
  "unat (cached_pages (take_snapshot ex_report)) = 2 ^ 64 - 8"
  using snapshot_cached_wraps [of ex_report] by (simp add: ex_report_def)

end
