(* ===== verification/Cpu_Module.thy ===== *)
theory Cpu_Module
  imports System_Reports
begin

text \<open>
  The loadable module of project 1, \<open>modules/mem_and_cpu_info_202110206.c\<close>, which prints the
  memory totals and the CPU use since the previous reading under \<open>/proc\<close>. The state of the
  module is its two static variables and whether its \<open>/proc\<close> entry exists.
\<close>

section \<open>Data\<close>

record kcpustat =
  CPUTIME_USER :: u64
  CPUTIME_NICE :: u64
  CPUTIME_SYSTEM :: u64
  CPUTIME_IDLE :: u64
  CPUTIME_IOWAIT :: u64
  CPUTIME_IRQ :: u64
  CPUTIME_SOFTIRQ :: u64
  CPUTIME_STEAL :: u64

record cpu_module =
  prev_idle :: u64
  prev_total :: u64
  proc_entry :: bool

datatype proc_line = MemHeader | TotalRam u64 | FreeRam u64 | CpuHeader | CpuUse u64

section \<open>Operations\<close>

definition total_of :: "kcpustat \<Rightarrow> u64" where
  "total_of k = CPUTIME_USER k + CPUTIME_NICE k + CPUTIME_SYSTEM k + CPUTIME_IDLE k
     + CPUTIME_IOWAIT k + CPUTIME_IRQ k + CPUTIME_SOFTIRQ k + CPUTIME_STEAL k"

definition calculate_cpu_usage :: "kcpustat \<Rightarrow> cpu_module \<Rightarrow> u64 \<times> cpu_module" where
  "calculate_cpu_usage k s =
    (let idle = CPUTIME_IDLE k;
         total = total_of k;
         diff_idle = idle - prev_idle s;
         diff_total = total - prev_total s;
         s = s\<lparr>prev_idle := idle, prev_total := total\<rparr>;
         usage = (if diff_total > 0 then (100 * (diff_total - diff_idle)) div diff_total else 0)
     in (usage, s))"

definition memandprocessesinfo_show ::
  "report_env \<Rightarrow> kcpustat \<Rightarrow> cpu_module \<Rightarrow> proc_line list \<times> cpu_module" where
  "memandprocessesinfo_show env k s =
    (let si = si_meminfo env (stack_sysinfo env);
         (cpu_usage, s') = calculate_cpu_usage k s
     in ([MemHeader, TotalRam (totalram si * 4), FreeRam (freeram si * 4), CpuHeader,
          CpuUse cpu_usage], s'))"

definition memandprocessesinfo_init :: "kcpustat \<Rightarrow> cpu_module \<Rightarrow> int \<times> cpu_module" where
  "memandprocessesinfo_init k s =
    (0, s\<lparr>prev_idle := CPUTIME_IDLE k, prev_total := total_of k, proc_entry := True\<rparr>)"

definition memandprocessesinfo_exit :: "cpu_module \<Rightarrow> cpu_module" where
  "memandprocessesinfo_exit s = s\<lparr>proc_entry := False\<rparr>"

text \<open>Reading the entry repeatedly, each time with the counters of that moment.\<close>

fun readings :: "kcpustat list \<Rightarrow> cpu_module \<Rightarrow> u64 list" where
  "readings [] s = []"
| "readings (k # ks) s = (let (u, s') = calculate_cpu_usage k s in u # readings ks s')"

section \<open>What the percentage means\<close>

definition busy :: "kcpustat \<Rightarrow> nat" where
  "busy k = unat (CPUTIME_USER k) + unat (CPUTIME_NICE k) + unat (CPUTIME_SYSTEM k)
     + unat (CPUTIME_IOWAIT k) + unat (CPUTIME_IRQ k) + unat (CPUTIME_SOFTIRQ k)
     + unat (CPUTIME_STEAL k)"

definition counted :: "kcpustat \<Rightarrow> bool" where
  "counted k \<longleftrightarrow> 100 * (busy k + unat (CPUTIME_IDLE k)) < 2 ^ 64"

text \<open>The kernel's counters only grow.\<close>

fun growing :: "kcpustat \<Rightarrow> kcpustat list \<Rightarrow> bool" where
  "growing k [] = True"
| "growing k (l # ls) \<longleftrightarrow> busy k \<le> busy l \<and> CPUTIME_IDLE k \<le> CPUTIME_IDLE l \<and> counted l \<and> growing l ls"

definition percent_busy :: "kcpustat \<Rightarrow> kcpustat \<Rightarrow> nat" where
  "percent_busy k l = (let b = busy l - busy k; i = unat (CPUTIME_IDLE l) - unat (CPUTIME_IDLE k)
     in 100 * b div (b + i))"

fun percents :: "kcpustat \<Rightarrow> kcpustat list \<Rightarrow> nat list" where
  "percents k [] = []"
| "percents k (l # ls) = percent_busy k l # percents l ls"

lemma unat_total_of: "counted k \<Longrightarrow> unat (total_of k) = busy k + unat (CPUTIME_IDLE k)"
  unfolding total_of_def counted_def busy_def by (simp add: unat_add_fits)

lemma usage_is_percent:
  assumes "counted k" "counted l" "busy k \<le> busy l" "CPUTIME_IDLE k \<le> CPUTIME_IDLE l"
    and "prev_idle s = CPUTIME_IDLE k" "prev_total s = total_of k"
  shows "unat (fst (calculate_cpu_usage l s)) = percent_busy k l"
    and "prev_idle (snd (calculate_cpu_usage l s)) = CPUTIME_IDLE l"
    and "prev_total (snd (calculate_cpu_usage l s)) = total_of l"
proof -
  let ?b = "busy l - busy k" and ?i = "unat (CPUTIME_IDLE l) - unat (CPUTIME_IDLE k)"
  let ?di = "CPUTIME_IDLE l - CPUTIME_IDLE k" and ?dt = "total_of l - total_of k"
  have le: "unat (CPUTIME_IDLE k) \<le> unat (CPUTIME_IDLE l)"
    using assms(4) by (simp add: word_le_nat_alt)
  have di: "unat ?di = ?i"
    using le by (simp add: unat_sub_if')
  have dt: "unat ?dt = ?b + ?i"
    using le assms(3) by (simp add: unat_sub_if' unat_total_of assms(1,2))
  have "unat (?dt - ?di) = ?b"
  proof -
    have "?di \<le> ?dt"
      unfolding word_le_nat_alt di dt by simp
    then show ?thesis
      by (simp only: unat_sub di dt diff_add_inverse2)
  qed
  moreover have "100 * ?b < 2 ^ 64"
    using assms(2) diff_le_self [of "busy l" "busy k"] unfolding counted_def by simp
  moreover have "unat (100 :: u64) = 100"
    by simp
  ultimately have num: "unat (100 * (?dt - ?di)) = 100 * ?b"
    by (simp only: unat_mult_fits)
  show "unat (fst (calculate_cpu_usage l s)) = percent_busy k l"
  proof (cases "?b + ?i = 0")
    case True
    then have "?dt = 0"
      using dt by (metis unat_eq_zero)
    then show ?thesis
      using True assms(5,6) by (simp add: calculate_cpu_usage_def percent_busy_def Let_def)
  next
    case False
    then have "?dt > 0"
      using dt by (metis unat_eq_zero word_greater_zero_iff)
    then have "fst (calculate_cpu_usage l s) = 100 * (?dt - ?di) div ?dt"
      using assms(5,6) by (simp add: calculate_cpu_usage_def Let_def)
    then show ?thesis
      by (simp only: unat_div_distrib num dt percent_busy_def Let_def)
  qed
qed (simp_all add: calculate_cpu_usage_def Let_def)

lemma percent_busy_le: "percent_busy k l \<le> 100"
  unfolding percent_busy_def Let_def by (rule div_le_of_le_mult) simp

lemma readings_are_percents:
  assumes "growing k ks" and "counted k" and "prev_idle s = CPUTIME_IDLE k" "prev_total s = total_of k"
  shows "map unat (readings ks s) = percents k ks"
  using assms
proof (induction ks arbitrary: k s)
  case Nil
  then show ?case by simp
next
  case (Cons l ls)
  then have step: "counted l" "busy k \<le> busy l" "CPUTIME_IDLE k \<le> CPUTIME_IDLE l" "growing l ls"
    by simp_all
  note u = usage_is_percent [OF Cons.prems(2) step(1-3) Cons.prems(3,4)]
  show ?case
    using Cons.IH [OF step(4,1) u(2,3)] u(1) by (simp add: case_prod_beta)
qed

section \<open>Properties\<close>

text \<open>
  C17: After the module is loaded, every reading of its entry reports the share of the time
  since the previous reading (since loading, for the first) in which the CPU was not idle, in
  percent rounded down; it is never above 100. This holds while the counters only grow and
  stay below 2^64/100.
\<close>

theorem cpu_readings_correct:
  assumes "counted k" and "growing k ks"
  shows "map unat (readings ks (snd (memandprocessesinfo_init k s))) = percents k ks
    \<and> (\<forall>u \<in> set (readings ks (snd (memandprocessesinfo_init k s))). unat u \<le> 100)"
proof -
  have eq: "map unat (readings ks (snd (memandprocessesinfo_init k s))) = percents k ks"
    by (rule readings_are_percents [OF assms(2,1)]) (simp_all add: memandprocessesinfo_init_def)
  have "\<forall>p \<in> set (percents k ks). p \<le> 100"
    by (induction k ks rule: percents.induct) (simp_all add: percent_busy_le)
  then show ?thesis
    using eq by (metis imageI list.set_map)
qed

section \<open>Witnesses\<close>

definition ex_cpu :: "u64 \<Rightarrow> u64 \<Rightarrow> kcpustat" where
  "ex_cpu b i = \<lparr>CPUTIME_USER = b, CPUTIME_NICE = 0, CPUTIME_SYSTEM = 0, CPUTIME_IDLE = i,
     CPUTIME_IOWAIT = 0, CPUTIME_IRQ = 0, CPUTIME_SOFTIRQ = 0, CPUTIME_STEAL = 0\<rparr>"

theorem cpu_readings_correct_witness:
  "map unat (readings [ex_cpu 130 70, ex_cpu 130 90] (snd (memandprocessesinfo_init (ex_cpu 100 0)
      \<lparr>prev_idle = 0, prev_total = 0, proc_entry = False\<rparr>))) = [30, 0]"
  using cpu_readings_correct [of "ex_cpu 100 0" "[ex_cpu 130 70, ex_cpu 130 90]"
      "\<lparr>prev_idle = 0, prev_total = 0, proc_entry = False\<rparr>"]
  by (simp add: counted_def ex_cpu_def busy_def percent_busy_def word_le_nat_alt)

end
