(* ===== verification/Maple_Tree.thy ===== *)
theory Maple_Tree
  imports Kernel_Types
begin

text \<open>
  The range-to-pointer tree that the kernel's base library provides (\<open>mas_store\<close>, \<open>mas_find\<close>,
  \<open>mas_walk\<close>, \<open>mas_prev\<close> and the \<open>vma_iter_\<close> wrappers around them), as an ordered list of
  half-open ranges. Storing over a range overwrites it: entries inside it disappear, entries
  that reach into it are trimmed, and an entry around it is cut in two.

  The interface is the locale \<open>range_tree\<close>; the memory code relies on its laws.
\<close>

section \<open>Operations\<close>

definition mt_ok :: "mt_entry list \<Rightarrow> bool" where
  "mt_ok t \<longleftrightarrow> sorted_wrt (\<lambda>x y. fst (snd x) \<le> fst y) t \<and> (\<forall>x \<in> set t. fst x < fst (snd x))"

definition mt_cut :: "u64 \<Rightarrow> u64 \<Rightarrow> mt_entry \<Rightarrow> mt_entry list" where
  "mt_cut a b x = (case x of (s, e, q) \<Rightarrow>
     (if s < min e a then [(s, min e a, q)] else []) @ (if max s b < e then [(max s b, e, q)] else []))"

definition mt_erase :: "u64 \<Rightarrow> u64 \<Rightarrow> mt_entry list \<Rightarrow> mt_entry list" where
  "mt_erase a b t = concat (map (mt_cut a b) t)"

fun mt_insert :: "mt_entry \<Rightarrow> mt_entry list \<Rightarrow> mt_entry list" where
  "mt_insert x [] = [x]"
| "mt_insert x (y # ys) = (if fst x \<le> fst y then x # y # ys else y # mt_insert x ys)"

definition mt_store :: "u64 \<Rightarrow> u64 \<Rightarrow> vma_ptr \<Rightarrow> mt_entry list \<Rightarrow> mt_entry list" where
  "mt_store a b p t = mt_insert (a, b, p) (mt_erase a b t)"

text \<open>The first entry that reaches beyond \<open>lo\<close> and starts below \<open>hi\<close>.\<close>

definition mt_find :: "u64 \<Rightarrow> u64 \<Rightarrow> mt_entry list \<Rightarrow> vma_ptr option" where
  "mt_find lo hi t = map_option (snd \<circ> snd) (find (\<lambda>x. lo < fst (snd x) \<and> fst x < hi) t)"

text \<open>The first entry that reaches beyond \<open>lo\<close>, with no upper bound.\<close>

definition mt_find_from :: "u64 \<Rightarrow> mt_entry list \<Rightarrow> vma_ptr option" where
  "mt_find_from lo t = map_option (snd \<circ> snd) (find (\<lambda>x. lo < fst (snd x)) t)"

text \<open>The entry at an address.\<close>

definition mt_walk :: "u64 \<Rightarrow> mt_entry list \<Rightarrow> vma_ptr option" where
  "mt_walk a t = map_option (snd \<circ> snd) (find (\<lambda>x. fst x \<le> a \<and> a < fst (snd x)) t)"

text \<open>The last entry that ends at or below an address.\<close>

definition mt_prev :: "u64 \<Rightarrow> mt_entry list \<Rightarrow> vma_ptr option" where
  "mt_prev a t = map_option (snd \<circ> snd) (find (\<lambda>x. fst (snd x) \<le> a) (rev t))"

text \<open>The entries that overlap a range, in order.\<close>

definition mt_range :: "u64 \<Rightarrow> u64 \<Rightarrow> mt_entry list \<Rightarrow> vma_ptr list" where
  "mt_range lo hi t = map (snd \<circ> snd) (filter (\<lambda>x. lo < fst (snd x) \<and> fst x < hi) t)"

section \<open>Well-formedness\<close>

lemma mt_ok_Nil [simp]: "mt_ok []"
  by (simp add: mt_ok_def)

lemma mt_ok_Cons: "mt_ok (x # t) \<longleftrightarrow> fst x < fst (snd x) \<and> (\<forall>y \<in> set t. fst (snd x) \<le> fst y) \<and> mt_ok t"
  by (auto simp: mt_ok_def)

lemma mt_ok_append:
  "mt_ok (t @ u) \<longleftrightarrow> mt_ok t \<and> mt_ok u \<and> (\<forall>x \<in> set t. \<forall>y \<in> set u. fst (snd x) \<le> fst y)"
  by (auto simp: mt_ok_def sorted_wrt_append)

lemma mt_ok_nonempty: "mt_ok t \<Longrightarrow> x \<in> set t \<Longrightarrow> fst x < fst (snd x)"
  by (simp add: mt_ok_def)

lemma mt_ok_disjoint:
  "mt_ok t \<Longrightarrow> x \<in> set t \<Longrightarrow> y \<in> set t \<Longrightarrow> x \<noteq> y \<Longrightarrow>
    fst (snd x) \<le> fst y \<or> fst (snd y) \<le> fst x"
  by (induction t) (auto simp: mt_ok_Cons)

lemma mt_ok_distinct: "mt_ok t \<Longrightarrow> distinct t"
proof (induction t)
  case (Cons x t)
  then show ?case
    using leD by (fastforce simp: mt_ok_Cons)
qed simp

lemma mt_ok_overlap_eq:
  "mt_ok t \<Longrightarrow> x \<in> set t \<Longrightarrow> y \<in> set t \<Longrightarrow> fst x \<le> a \<Longrightarrow> a < fst (snd x) \<Longrightarrow>
    fst y \<le> a \<Longrightarrow> a < fst (snd y) \<Longrightarrow> x = y"
  using mt_ok_disjoint [of t x y] by fastforce

lemma set_mt_insert [simp]: "set (mt_insert x t) = insert x (set t)"
  by (induction t) auto

lemma length_mt_insert [simp]: "length (mt_insert x t) = Suc (length t)"
  by (induction t) auto

lemma mt_ok_insert:
  assumes "mt_ok t" and "fst x < fst (snd x)"
    and "\<forall>y \<in> set t. fst (snd y) \<le> fst x \<or> fst (snd x) \<le> fst y"
  shows "mt_ok (mt_insert x t)"
  using assms
proof (induction t)
  case Nil
  then show ?case by (simp add: mt_ok_Cons)
next
  case (Cons y t)
  have y: "fst y < fst (snd y)"
    using Cons.prems(1) by (simp add: mt_ok_Cons)
  show ?case
  proof (cases "fst x \<le> fst y")
    case True
    with Cons.prems y have "fst (snd x) \<le> fst y"
      by auto
    then show ?thesis
      using Cons.prems y True by (fastforce simp: mt_ok_Cons)
  next
    case False
    with Cons.prems y have "fst (snd y) \<le> fst x"
      by auto
    then show ?thesis
      using Cons False by (simp add: mt_ok_Cons)
  qed
qed

section \<open>Erasing\<close>

lemma set_mt_erase: "set (mt_erase a b t) = (\<Union>x \<in> set t. set (mt_cut a b x))"
  by (simp add: mt_erase_def)

lemma mt_cut_within: "y \<in> set (mt_cut a b x) \<Longrightarrow>
    fst x \<le> fst y \<and> fst (snd y) \<le> fst (snd x) \<and> fst y < fst (snd y) \<and> snd (snd y) = snd (snd x)"
  by (cases x) (auto simp: mt_cut_def split: if_splits)

lemma mt_cut_ok: "a < b \<Longrightarrow> mt_ok (mt_cut a b x)"
  by (cases x) (auto simp: mt_cut_def mt_ok_Cons min_def max_def)

lemma mt_cut_avoids: "a < b \<Longrightarrow> y \<in> set (mt_cut a b x) \<Longrightarrow> fst (snd y) \<le> a \<or> b \<le> fst y"
  by (cases x) (auto simp: mt_cut_def split: if_splits)

lemma mt_cut_disjoint:
  "a < b \<Longrightarrow> fst x < fst (snd x) \<Longrightarrow> fst (snd x) \<le> a \<or> b \<le> fst x \<Longrightarrow> mt_cut a b x = [x]"
  by (cases x) (auto simp: mt_cut_def min_def max_def)

lemma mt_cut_inside: "a \<le> fst x \<Longrightarrow> fst (snd x) \<le> b \<Longrightarrow> mt_cut a b x = []"
  by (cases x) (auto simp: mt_cut_def)

lemma mt_ok_erase: "mt_ok t \<Longrightarrow> a < b \<Longrightarrow> mt_ok (mt_erase a b t)"
proof (induction t)
  case Nil
  then show ?case by (simp add: mt_erase_def)
next
  case (Cons x t)
  have "fst (snd u) \<le> fst v" if u: "u \<in> set (mt_cut a b x)" and v: "v \<in> set (mt_erase a b t)" for u v
  proof -
    obtain y where y: "y \<in> set t" "v \<in> set (mt_cut a b y)"
      using v unfolding set_mt_erase by blast
    have "fst (snd x) \<le> fst y"
      using Cons.prems(1) y(1) by (simp add: mt_ok_Cons)
    then show ?thesis
      using mt_cut_within [OF u] mt_cut_within [OF y(2)] by (meson order_trans)
  qed
  then show ?case
    using Cons mt_cut_ok [of a b x] by (simp add: mt_erase_def mt_ok_append mt_ok_Cons)
qed

lemma mt_erase_avoids: "a < b \<Longrightarrow> x \<in> set (mt_erase a b t) \<Longrightarrow> fst (snd x) \<le> a \<or> b \<le> fst x"
  unfolding set_mt_erase by (blast dest: mt_cut_avoids)

lemma set_mt_store: "set (mt_store a b p t) = insert (a, b, p) (\<Union>x \<in> set t. set (mt_cut a b x))"
  by (simp add: mt_store_def set_mt_erase)

lemma mt_ok_store: "mt_ok t \<Longrightarrow> a < b \<Longrightarrow> mt_ok (mt_store a b p t)"
  unfolding mt_store_def by (rule mt_ok_insert) (use mt_erase_avoids in \<open>auto simp: mt_ok_erase\<close>)

section \<open>The tree as a map from addresses\<close>

lemma mt_walk_eq_Some:
  assumes ok: "mt_ok t"
  shows "mt_walk a t = Some p \<longleftrightarrow> (\<exists>x \<in> set t. snd (snd x) = p \<and> fst x \<le> a \<and> a < fst (snd x))"
proof
  assume "mt_walk a t = Some p"
  then obtain y where y: "find (\<lambda>x. fst x \<le> a \<and> a < fst (snd x)) t = Some y" "snd (snd y) = p"
    unfolding mt_walk_def by auto
  then show "\<exists>x \<in> set t. snd (snd x) = p \<and> fst x \<le> a \<and> a < fst (snd x)"
    using find_SomeD [OF y(1)] y(2) by blast
next
  assume "\<exists>x \<in> set t. snd (snd x) = p \<and> fst x \<le> a \<and> a < fst (snd x)"
  then obtain x where x: "x \<in> set t" "snd (snd x) = p" "fst x \<le> a" "a < fst (snd x)"
    by blast
  then have "find (\<lambda>x. fst x \<le> a \<and> a < fst (snd x)) t \<noteq> None"
    unfolding find_None_iff by blast
  then obtain y where y: "find (\<lambda>x. fst x \<le> a \<and> a < fst (snd x)) t = Some y"
    by blast
  then have "y = x"
    using mt_ok_overlap_eq [OF ok] x find_SomeD [OF y] by blast
  then show "mt_walk a t = Some p"
    using y x(2) by (simp add: mt_walk_def)
qed

lemma mt_walk_eq_None: "mt_walk a t = None \<longleftrightarrow> (\<forall>x \<in> set t. \<not> (fst x \<le> a \<and> a < fst (snd x)))"
  unfolding mt_walk_def map_option_is_None find_None_iff by blast

lemma mt_cut_mem_iff:
  assumes "a < b"
  shows "(\<exists>y \<in> set (mt_cut a b x). snd (snd y) = q \<and> fst y \<le> c \<and> c < fst (snd y)) \<longleftrightarrow>
    snd (snd x) = q \<and> fst x \<le> c \<and> c < fst (snd x) \<and> \<not> (a \<le> c \<and> c < b)"
proof (cases x)
  case (fields s e r)
  show ?thesis
    unfolding fields mt_cut_def prod.case using assms
    by (cases "s < min e a"; cases "max s b < e") (simp_all, auto)
qed

lemma mt_walk_erase:
  assumes "mt_ok t" and "a < b"
  shows "mt_walk c (mt_erase a b t) = (if a \<le> c \<and> c < b then None else mt_walk c t)"
proof -
  have "mt_walk c (mt_erase a b t) = Some q \<longleftrightarrow> \<not> (a \<le> c \<and> c < b) \<and> mt_walk c t = Some q" for q
  proof -
    have "mt_walk c (mt_erase a b t) = Some q
        \<longleftrightarrow> (\<exists>x \<in> set t. \<exists>y \<in> set (mt_cut a b x). snd (snd y) = q \<and> fst y \<le> c \<and> c < fst (snd y))"
      unfolding mt_walk_eq_Some [OF mt_ok_erase [OF assms]] set_mt_erase by blast
    then show ?thesis
      unfolding mt_cut_mem_iff [OF assms(2)] mt_walk_eq_Some [OF assms(1)] by blast
  qed
  then show ?thesis
    by (metis not_None_eq)
qed

lemma mt_walk_store:
  assumes "mt_ok t" and "a < b"
  shows "mt_walk c (mt_store a b p t) = (if a \<le> c \<and> c < b then Some p else mt_walk c t)"
proof -
  have "mt_walk c (mt_store a b p t) = Some q
      \<longleftrightarrow> (if a \<le> c \<and> c < b then p = q else mt_walk c t = Some q)" for q
  proof -
    have "mt_walk c (mt_store a b p t) = Some q
        \<longleftrightarrow> (q = p \<and> a \<le> c \<and> c < b)
          \<or> (\<exists>x \<in> set t. \<exists>y \<in> set (mt_cut a b x). snd (snd y) = q \<and> fst y \<le> c \<and> c < fst (snd y))"
      unfolding mt_walk_eq_Some [OF mt_ok_store [OF assms]] set_mt_store by auto
    then show ?thesis
      unfolding mt_cut_mem_iff [OF assms(2)] mt_walk_eq_Some [OF assms(1)] by auto
  qed
  then show ?thesis
    by (metis not_None_eq)
qed

section \<open>Searching\<close>

lemma find_first:
  assumes "mt_ok t" and "find P t = Some x" and "y \<in> set t" and "P y"
  shows "y = x \<or> fst (snd x) \<le> fst y"
  using assms by (induction t) (auto simp: mt_ok_Cons split: if_splits)

lemma find_rev_last:
  assumes "mt_ok t" and "find P (rev t) = Some x" and "y \<in> set t" and "P y"
  shows "y = x \<or> fst (snd y) \<le> fst x"
  using assms
proof (induction t rule: rev_induct)
  case (snoc z t)
  show ?case
  proof (cases "P z")
    case True
    with snoc.prems show ?thesis
      by (auto simp: mt_ok_append)
  next
    case False
    with snoc show ?thesis
      by (auto simp: mt_ok_append)
  qed
qed simp

lemma mt_find_SomeE:
  assumes "mt_ok t" and "mt_find lo hi t = Some p"
  obtains s e where "(s, e, p) \<in> set t" "lo < e" "s < hi"
    and "\<And>y. y \<in> set t \<Longrightarrow> lo < fst (snd y) \<Longrightarrow> y = (s, e, p) \<or> e \<le> fst y"
proof -
  let ?P = "\<lambda>x. lo < fst (snd x) \<and> fst x < hi"
  obtain x where x: "find ?P t = Some x" "snd (snd x) = p"
    using assms(2) unfolding mt_find_def by auto
  note d = find_SomeD [OF x(1)]
  have "y = x \<or> fst (snd x) \<le> fst y" if y: "y \<in> set t" "lo < fst (snd y)" for y
  proof (cases "fst y < hi")
    case True
    then show ?thesis
      using find_first [OF assms(1) x(1) y(1)] y(2) by simp
  next
    case False
    then show ?thesis
      using mt_ok_disjoint [OF assms(1) y(1), of x] mt_ok_nonempty [OF assms(1) y(1)] d by force
  qed
  then show thesis
    using d x(2) that [of "fst x" "fst (snd x)"] by (metis prod.collapse)
qed

lemma mt_find_None: "mt_find lo hi t = None \<longleftrightarrow> (\<forall>x \<in> set t. \<not> (lo < fst (snd x) \<and> fst x < hi))"
  unfolding mt_find_def map_option_is_None find_None_iff by blast

lemma mt_find_from_SomeE:
  assumes "mt_ok t" and "mt_find_from lo t = Some p"
  obtains s e where "(s, e, p) \<in> set t" "lo < e"
    and "\<And>y. y \<in> set t \<Longrightarrow> lo < fst (snd y) \<Longrightarrow> y = (s, e, p) \<or> e \<le> fst y"
proof -
  obtain x where x: "find (\<lambda>x. lo < fst (snd x)) t = Some x" "snd (snd x) = p"
    using assms(2) unfolding mt_find_from_def by auto
  then show thesis
    using find_SomeD [OF x(1)] find_first [OF assms(1) x(1)] that [of "fst x" "fst (snd x)"]
    by (metis prod.collapse)
qed

lemma mt_find_from_None: "mt_find_from lo t = None \<longleftrightarrow> (\<forall>x \<in> set t. fst (snd x) \<le> lo)"
  unfolding mt_find_from_def map_option_is_None find_None_iff not_less [symmetric] by blast

lemma mt_prev_SomeE:
  assumes "mt_ok t" and "mt_prev a t = Some p"
  obtains s e where "(s, e, p) \<in> set t" "e \<le> a"
    and "\<And>y. y \<in> set t \<Longrightarrow> fst (snd y) \<le> a \<Longrightarrow> y = (s, e, p) \<or> fst (snd y) \<le> s"
proof -
  obtain x where x: "find (\<lambda>x. fst (snd x) \<le> a) (rev t) = Some x" "snd (snd x) = p"
    using assms(2) unfolding mt_prev_def by auto
  then show thesis
    using find_SomeD [OF x(1)] find_rev_last [OF assms(1) x(1)] that [of "fst x" "fst (snd x)"]
    by (metis prod.collapse set_rev)
qed

lemma mt_prev_None: "mt_prev a t = None \<longleftrightarrow> (\<forall>x \<in> set t. a < fst (snd x))"
  unfolding mt_prev_def map_option_is_None find_None_iff set_rev not_le [symmetric] by blast

section \<open>The interface\<close>

locale range_tree =
  fixes at :: "u64 \<Rightarrow> 't \<Rightarrow> 'p option"
    and store :: "u64 \<Rightarrow> u64 \<Rightarrow> 'p \<Rightarrow> 't \<Rightarrow> 't"
    and erase :: "u64 \<Rightarrow> u64 \<Rightarrow> 't \<Rightarrow> 't"
    and ok :: "'t \<Rightarrow> bool"
  assumes at_store: "ok t \<Longrightarrow> a < b \<Longrightarrow> at c (store a b p t) = (if a \<le> c \<and> c < b then Some p else at c t)"
    and at_erase: "ok t \<Longrightarrow> a < b \<Longrightarrow> at c (erase a b t) = (if a \<le> c \<and> c < b then None else at c t)"
    and ok_store: "ok t \<Longrightarrow> a < b \<Longrightarrow> ok (store a b p t)"
    and ok_erase: "ok t \<Longrightarrow> a < b \<Longrightarrow> ok (erase a b t)"
begin

lemma erase_store:
  "ok t \<Longrightarrow> a < b \<Longrightarrow> at c (erase a b (store a b p t)) = at c (erase a b t)"
  by (simp add: at_store at_erase ok_store)

lemma store_free:
  "ok t \<Longrightarrow> a < b \<Longrightarrow> (\<And>c. a \<le> c \<Longrightarrow> c < b \<Longrightarrow> at c t = None) \<Longrightarrow>
    at c (erase a b (store a b p t)) = at c t"
  by (simp add: at_store at_erase ok_store)

end

interpretation mt: range_tree mt_walk mt_store mt_erase mt_ok
  by unfold_locales (simp_all add: mt_walk_store mt_walk_erase mt_ok_store mt_ok_erase)

end
