(* ===== verification/Vma_Model.thy ===== *)
theory Vma_Model
  imports Maple_Tree
begin

text \<open>
  The memory areas of an address space and the operations of \<open>mm/mmap.c\<close> that change one of
  them: linking, expanding, shrinking and splitting, with the preparation and completion
  steps they share. An operation takes the address space and gives it back with its status;
  \<open>None\<close> is the use of a pointer to an area that does not exist.

  Locks, TLB and cache flushes, huge-page splitting and the uprobe, perf, KSM and khugepaged
  notifications have no counterpart. Calls on the reverse-mapping trees, reference counts and
  accounting are recorded in \<open>mm_calls\<close>.
\<close>

section \<open>Flags\<close>

text \<open>The values of \<open>linux/mm.h\<close> on x86-64.\<close>

abbreviation (input) VM_READ :: u64 where "VM_READ \<equiv> 0x1"
abbreviation (input) VM_WRITE :: u64 where "VM_WRITE \<equiv> 0x2"
abbreviation (input) VM_EXEC :: u64 where "VM_EXEC \<equiv> 0x4"
abbreviation (input) VM_SHARED :: u64 where "VM_SHARED \<equiv> 0x8"
abbreviation (input) VM_MAYREAD :: u64 where "VM_MAYREAD \<equiv> 0x10"
abbreviation (input) VM_MAYWRITE :: u64 where "VM_MAYWRITE \<equiv> 0x20"
abbreviation (input) VM_MAYEXEC :: u64 where "VM_MAYEXEC \<equiv> 0x40"
abbreviation (input) VM_MAYSHARE :: u64 where "VM_MAYSHARE \<equiv> 0x80"
abbreviation (input) VM_GROWSDOWN :: u64 where "VM_GROWSDOWN \<equiv> 0x100"
abbreviation (input) VM_GROWSUP :: u64 where "VM_GROWSUP \<equiv> 0"
abbreviation (input) VM_PFNMAP :: u64 where "VM_PFNMAP \<equiv> 0x400"
abbreviation (input) VM_LOCKED :: u64 where "VM_LOCKED \<equiv> 0x2000"
abbreviation (input) VM_IO :: u64 where "VM_IO \<equiv> 0x4000"
abbreviation (input) VM_DONTEXPAND :: u64 where "VM_DONTEXPAND \<equiv> 0x40000"
abbreviation (input) VM_LOCKONFAULT :: u64 where "VM_LOCKONFAULT \<equiv> 0x80000"
abbreviation (input) VM_ACCOUNT :: u64 where "VM_ACCOUNT \<equiv> 0x100000"
abbreviation (input) VM_NORESERVE :: u64 where "VM_NORESERVE \<equiv> 0x200000"
abbreviation (input) VM_HUGETLB :: u64 where "VM_HUGETLB \<equiv> 0x400000"
abbreviation (input) VM_SOFTDIRTY :: u64 where "VM_SOFTDIRTY \<equiv> 0x8000000"
abbreviation (input) VM_MIXEDMAP :: u64 where "VM_MIXEDMAP \<equiv> 0x10000000"

definition VM_SPECIAL :: u64 where
  "VM_SPECIAL = VM_IO OR VM_DONTEXPAND OR VM_PFNMAP OR VM_MIXEDMAP"

definition VM_ACCESS_FLAGS :: u64 where
  "VM_ACCESS_FLAGS = VM_READ OR VM_WRITE OR VM_EXEC"

definition VM_LOCKED_MASK :: u64 where
  "VM_LOCKED_MASK = VM_LOCKED OR VM_LOCKONFAULT"

definition has :: "u64 \<Rightarrow> u64 \<Rightarrow> bool" where
  "has flags bs \<longleftrightarrow> flags AND bs \<noteq> 0"

section \<open>What the memory code asks of the rest of the kernel\<close>

text \<open>
  \<open>vm_area_alloc\<close> serves \<open>vm_area_alloc\<close> and \<open>vm_area_dup\<close>; \<open>prealloc_fails\<close> is a failing
  \<open>vma_iter_prealloc\<close> (or \<open>_gfp\<close> tree store); both may depend on the whole state. \<open>anon_vma_clone\<close>
  gives its status and the \<open>anon_vma\<close> fields of the destination. \<open>detach_store\<close> is the status of
  storing the next area in the side tree that \<open>munmap\<close> collects, \<open>clear_gfp\<close> that of clearing a
  range of the tree. The classification of flags (\<open>is_exec_mapping\<close> and so on) and \<open>TASK_SIZE\<close>
  belong to the configuration. \<open>lock_killed\<close> says that a killable wait for \<open>mmap_lock\<close> was
  interrupted; the resource limits are those of the calling process.

  The address searches of the architecture, of files, of shared memory and of huge pages have
  the arguments of \<open>get_unmapped_area\<close>. A mapper, \<open>call_mmap\<close> or \<open>shmem_zero_setup\<close>, gives its
  status and the area as it left it.
\<close>

type_synonym area_search = "nat option \<Rightarrow> u64 \<Rightarrow> u64 \<Rightarrow> u64 \<Rightarrow> u64 \<Rightarrow> mm_struct \<Rightarrow> u64"

record mmap_env =
  vm_area_alloc :: "mm_struct \<Rightarrow> vma_ptr option"
  prealloc_fails :: "mm_struct \<Rightarrow> bool"
  anon_vma_clone :: "vm_area_struct \<Rightarrow> vm_area_struct \<Rightarrow> int \<times> nat option \<times> nat list"
  unlink_anon :: "vm_area_struct \<Rightarrow> nat option \<times> nat list"
  mpol_dup :: "nat option \<Rightarrow> int \<times> nat option"
  mpol_equal :: "nat option \<Rightarrow> nat option \<Rightarrow> bool"
  ops_close :: "nat \<Rightarrow> bool"
  ops_open :: "nat \<Rightarrow> bool"
  ops_may_split :: "nat \<Rightarrow> u64 \<Rightarrow> int"
  sysctl_max_map_count :: int
  detach_store :: "mm_struct \<Rightarrow> vma_ptr list \<Rightarrow> int"
  clear_gfp :: "mm_struct \<Rightarrow> int"
  userfaultfd_unmap_prep :: "mm_struct \<Rightarrow> vma_ptr \<Rightarrow> u64 \<Rightarrow> u64 \<Rightarrow> int"
  is_exec_mapping :: "u64 \<Rightarrow> bool"
  is_stack_mapping :: "u64 \<Rightarrow> bool"
  is_data_mapping :: "u64 \<Rightarrow> bool"
  task_size :: u64
  lock_killed :: "mm_struct \<Rightarrow> bool"
  untagged_addr :: "u64 \<Rightarrow> u64"
  rlimit_as :: u64
  rlimit_data :: u64
  rlimit_data_max :: u64
  ignore_rlimit_data :: bool
  rlimit_memlock :: u64
  capable_ipc_lock :: bool
  security_vm_enough_memory :: "mm_struct \<Rightarrow> u64 \<Rightarrow> int"
  arch_mmap_check :: "u64 \<Rightarrow> u64 \<Rightarrow> u64 \<Rightarrow> u64"
  mm_get_area :: area_search
  file_get_area :: "nat \<Rightarrow> area_search option"
  shmem_get_area :: area_search
  thp_get_area :: "area_search option" \<comment> \<open>none without \<open>CONFIG_TRANSPARENT_HUGEPAGE\<close>\<close>
  security_mmap_addr :: "u64 \<Rightarrow> int"
  mmap_min_addr :: u64
  vm_start_gap :: "vm_area_struct \<Rightarrow> u64"
  vm_end_gap :: "vm_area_struct \<Rightarrow> u64"
  stack_guard_gap :: u64
  compat_brk :: bool \<comment> \<open>\<open>CONFIG_COMPAT_BRK\<close> and not \<open>brk_randomized\<close>\<close>
  check_data_rlimit :: "u64 \<Rightarrow> u64 \<Rightarrow> u64 \<Rightarrow> u64 \<Rightarrow> u64 \<Rightarrow> int"
  vm_data_default_flags :: u64
  vm_get_page_prot :: "u64 \<Rightarrow> u64"
  is_file_hugepages :: "nat \<Rightarrow> bool"
  call_mmap :: "nat \<Rightarrow> vm_area_struct \<Rightarrow> int \<times> vm_area_struct"
  shmem_zero_setup :: "vm_area_struct \<Rightarrow> int \<times> vm_area_struct"
  mapping_map_writable :: "nat \<Rightarrow> int"
  map_deny_write_exec :: "vm_area_struct \<Rightarrow> u64 \<Rightarrow> bool"
  arch_validate_flags :: "u64 \<Rightarrow> bool"
  vma_is_dax :: "vm_area_struct \<Rightarrow> bool"
  gate_vma :: "vma_ptr option"
  pgprot_modify :: "u64 \<Rightarrow> u64 \<Rightarrow> u64"
  ops_mkwrite :: "nat \<Rightarrow> bool"
  mapping_can_writeback :: "nat \<Rightarrow> bool"
  vma_soft_dirty_enabled :: "vm_area_struct \<Rightarrow> bool"
  userfaultfd_wp :: "vm_area_struct \<Rightarrow> bool"

section \<open>Small helpers\<close>

definition vma_pages :: "vm_area_struct \<Rightarrow> u64" where
  "vma_pages v = drop_bit PAGE_SHIFT (vm_end v - vm_start v)"

definition vma_is_shared_maywrite :: "vm_area_struct \<Rightarrow> bool" where
  "vma_is_shared_maywrite v \<longleftrightarrow>
     vm_flags v AND (VM_SHARED OR VM_MAYWRITE) = (VM_SHARED OR VM_MAYWRITE)"

definition put_vma :: "vma_ptr \<Rightarrow> vm_area_struct \<Rightarrow> mm_struct \<Rightarrow> mm_struct" where
  "put_vma p v mm = mm\<lparr>vmas := (vmas mm)(p \<mapsto> v)\<rparr>"

definition vm_area_free :: "vma_ptr \<Rightarrow> mm_struct \<Rightarrow> mm_struct" where
  "vm_area_free p mm = mm\<lparr>vmas := (vmas mm)(p := None)\<rparr>"

definition log_calls :: "mm_call list \<Rightarrow> mm_struct \<Rightarrow> mm_struct" where
  "log_calls cs mm = mm\<lparr>mm_calls := mm_calls mm @ cs\<rparr>"

text \<open>\<open>vma_iter_store\<close> stores an area over its own range.\<close>

definition vma_iter_store :: "vma_ptr \<Rightarrow> mm_struct \<Rightarrow> mm_struct option" where
  "vma_iter_store p mm = do {
     v \<leftarrow> vmas mm p;
     Some (mm\<lparr>mm_mt := mt_store (vm_start v) (vm_end v) p (mm_mt mm)\<rparr>) }"

definition vma_iter_clear :: "u64 \<Rightarrow> u64 \<Rightarrow> mm_struct \<Rightarrow> mm_struct" where
  "vma_iter_clear a b mm = mm\<lparr>mm_mt := mt_erase a b (mm_mt mm)\<rparr>"

section \<open>Counters\<close>

definition may_expand_vm :: "mmap_env \<Rightarrow> u64 \<Rightarrow> u64 \<Rightarrow> mm_struct \<Rightarrow> bool" where
  "may_expand_vm env flags npages mm =
    (if total_vm mm + npages > drop_bit PAGE_SHIFT (rlimit_as env) then False
     else if is_data_mapping env flags \<and> data_vm mm + npages > drop_bit PAGE_SHIFT (rlimit_data env)
     then (if rlimit_data env = 0 \<and> data_vm mm + npages \<le> drop_bit PAGE_SHIFT (rlimit_data_max env)
           then True else ignore_rlimit_data env)
     else True)"

definition vm_stat_account :: "mmap_env \<Rightarrow> u64 \<Rightarrow> u64 \<Rightarrow> mm_struct \<Rightarrow> mm_struct" where
  "vm_stat_account env flags npages mm =
    (let mm = mm\<lparr>total_vm := total_vm mm + npages\<rparr>
     in if is_exec_mapping env flags then mm\<lparr>exec_vm := exec_vm mm + npages\<rparr>
        else if is_stack_mapping env flags then mm\<lparr>stack_vm := stack_vm mm + npages\<rparr>
        else if is_data_mapping env flags then mm\<lparr>data_vm := data_vm mm + npages\<rparr>
        else mm)"

section \<open>Looking areas up\<close>

definition find_vma_intersection :: "mm_struct \<Rightarrow> u64 \<Rightarrow> u64 \<Rightarrow> vma_ptr option" where
  "find_vma_intersection mm start_addr end_addr =
    (if start_addr < end_addr then mt_find start_addr end_addr (mm_mt mm) else None)"

definition find_vma :: "mm_struct \<Rightarrow> u64 \<Rightarrow> vma_ptr option" where
  "find_vma mm addr = mt_find_from addr (mm_mt mm)"

definition vma_lookup :: "mm_struct \<Rightarrow> u64 \<Rightarrow> vma_ptr option" where
  "vma_lookup mm addr = mt_walk addr (mm_mt mm)"

text \<open>
  The area at an address or else the next one, and the area before it. \<open>mas_prev\<close> after the
  walk goes to the entry below the range (entry or gap) that holds the address.
\<close>

definition find_vma_prev :: "mm_struct \<Rightarrow> u64 \<Rightarrow> vma_ptr option \<times> vma_ptr option" where
  "find_vma_prev mm addr =
    (let pprev = mt_prev addr (mm_mt mm)
     in case mt_walk addr (mm_mt mm) of
          Some p \<Rightarrow> (Some p, pprev)
        | None \<Rightarrow> (mt_find_from addr (mm_mt mm), pprev))"

definition count_vma_pages_range :: "mm_struct \<Rightarrow> u64 \<Rightarrow> u64 \<Rightarrow> u64 option" where
  "count_vma_pages_range mm addr end = fold (\<lambda>p acc. do {
       nr_pages \<leftarrow> acc;
       v \<leftarrow> vmas mm p;
       let s = max addr (vm_start v);
           e = min end (vm_end v)
       in Some (nr_pages + drop_bit PAGE_SHIFT (e - s)) })
     (mt_range addr end (mm_mt mm)) (Some 0)"

section \<open>Validation\<close>

definition validate_mm :: "mm_struct \<Rightarrow> bool" where
  "validate_mm mm \<longleftrightarrow>
     (\<forall>x \<in> set (mm_mt mm). case x of (s, e, p) \<Rightarrow>
        (case vmas mm p of None \<Rightarrow> False | Some v \<Rightarrow> vm_end v = e \<and> vm_start v = s))
     \<and> int (length (mm_mt mm)) = map_count mm"

section \<open>Linking\<close>

definition vma_link_file_calls :: "vma_ptr \<Rightarrow> vm_area_struct \<Rightarrow> nat \<Rightarrow> mm_call list" where
  "vma_link_file_calls p v mapping =
     (if vma_is_shared_maywrite v then [MappingAllowWritable mapping] else []) @ [IMmapInsert p]"

definition remove_shared_calls :: "vma_ptr \<Rightarrow> vm_area_struct \<Rightarrow> nat \<Rightarrow> mm_call list" where
  "remove_shared_calls p v mapping =
     (if vma_is_shared_maywrite v then [MappingUnmapWritable mapping] else []) @ [IMmapRemove p]"

definition unlink_file_vma :: "vma_ptr \<Rightarrow> mm_struct \<Rightarrow> mm_struct option" where
  "unlink_file_vma p mm = do {
     v \<leftarrow> vmas mm p;
     Some (case vm_file v of None \<Rightarrow> mm | Some file \<Rightarrow> log_calls (remove_shared_calls p v file) mm) }"

definition vma_link :: "mmap_env \<Rightarrow> vma_ptr \<Rightarrow> mm_struct \<Rightarrow> (int \<times> mm_struct) option" where
  "vma_link env p mm = do {
     v \<leftarrow> vmas mm p;
     if prealloc_fails env mm then Some (- ENOMEM, mm)
     else do {
       mm \<leftarrow> vma_iter_store p mm;
       let mm = (case vm_file v of None \<Rightarrow> mm
                 | Some file \<Rightarrow> log_calls (vma_link_file_calls p v file) mm);
           mm = mm\<lparr>map_count := map_count mm + 1\<rparr>
       in Some (0, mm) } }"

definition remove_vma :: "mmap_env \<Rightarrow> vma_ptr \<Rightarrow> mm_struct \<Rightarrow> mm_struct option" where
  "remove_vma env p mm = do {
     v \<leftarrow> vmas mm p;
     let mm = (case vm_ops v of None \<Rightarrow> mm
               | Some ops \<Rightarrow> if ops_close env ops then log_calls [VmOpsClose p] mm else mm);
         mm = (case vm_file v of None \<Rightarrow> mm | Some file \<Rightarrow> log_calls [Fput file] mm);
         mm = log_calls [MpolPut (vm_policy v)] mm
     in Some (vm_area_free p mm) }"

section \<open>Preparing and completing a change\<close>

record vma_prepare =
  vp_vma :: vma_ptr
  vp_adj_next :: "vma_ptr option"
  vp_file :: "nat option"
  vp_anon_vma :: "nat option"
  vp_insert :: "vma_ptr option"
  vp_remove :: "vma_ptr option"
  vp_remove2 :: "vma_ptr option"

definition init_multi_vma_prep ::
  "vma_ptr \<Rightarrow> vma_ptr option \<Rightarrow> vma_ptr option \<Rightarrow> vma_ptr option \<Rightarrow> mm_struct \<Rightarrow> vma_prepare option" where
  "init_multi_vma_prep vma next remove remove2 mm = do {
     v \<leftarrow> vmas mm vma;
     anon \<leftarrow> (case (anon_vma v, next) of
        (None, Some n) \<Rightarrow> map_option anon_vma (vmas mm n)
      | (a, _) \<Rightarrow> Some a);
     Some \<lparr>vp_vma = vma, vp_adj_next = next, vp_file = vm_file v, vp_anon_vma = anon,
           vp_insert = None, vp_remove = remove, vp_remove2 = remove2\<rparr> }"

definition init_vma_prep :: "vma_ptr \<Rightarrow> mm_struct \<Rightarrow> vma_prepare option" where
  "init_vma_prep vma = init_multi_vma_prep vma None None None"

definition vma_prepare :: "vma_prepare \<Rightarrow> mm_struct \<Rightarrow> mm_struct option" where
  "vma_prepare vp mm = do {
     mm \<leftarrow> (case (vp_file vp, vp_insert vp) of
        (Some _, Some i) \<Rightarrow> do {
          v \<leftarrow> vmas mm i;
          Some (case vm_file v of None \<Rightarrow> mm | Some file \<Rightarrow> log_calls (vma_link_file_calls i v file) mm) }
      | _ \<Rightarrow> Some mm);
     let mm = (if vp_anon_vma vp \<noteq> None
               then log_calls (AnonTreeRemove (vp_vma vp)
                      # (case vp_adj_next vp of None \<Rightarrow> [] | Some n \<Rightarrow> [AnonTreeRemove n])) mm
               else mm);
         mm = (if vp_file vp \<noteq> None
               then log_calls (IMmapRemove (vp_vma vp)
                      # (case vp_adj_next vp of None \<Rightarrow> [] | Some n \<Rightarrow> [IMmapRemove n])) mm
               else mm)
     in Some mm }"

text \<open>
  One round of the removal loop of \<open>vma_complete\<close>. A second area to remove is handled by a
  second round.
\<close>

definition complete_remove :: "vma_prepare \<Rightarrow> vma_ptr \<Rightarrow> mm_struct \<Rightarrow> mm_struct option" where
  "complete_remove vp r mm = do {
     v \<leftarrow> vmas mm r;
     let mm = (case vp_file vp of None \<Rightarrow> mm | Some file \<Rightarrow> log_calls [Fput file] mm);
         mm = (if anon_vma v \<noteq> None then log_calls [AnonVmaMerge (vp_vma vp) r] mm else mm);
         mm = mm\<lparr>map_count := map_count mm - 1\<rparr>;
         mm = log_calls [MpolPut (vm_policy v)] mm
     in Some (vm_area_free r mm) }"

definition vma_complete :: "vma_prepare \<Rightarrow> mm_struct \<Rightarrow> mm_struct option" where
  "vma_complete vp mm = do {
     let mm = (if vp_file vp \<noteq> None
               then log_calls ((case vp_adj_next vp of None \<Rightarrow> [] | Some n \<Rightarrow> [IMmapInsert n])
                      @ [IMmapInsert (vp_vma vp)]) mm
               else mm);
     mm \<leftarrow> (case (vp_remove vp, vp_file vp) of
        (Some r, Some file) \<Rightarrow> do {
          v \<leftarrow> vmas mm r;
          let mm = log_calls (remove_shared_calls r v file) mm;
          case vp_remove2 vp of
            None \<Rightarrow> Some mm
          | Some r2 \<Rightarrow> do {
              v2 \<leftarrow> vmas mm r2;
              Some (log_calls (remove_shared_calls r2 v2 file) mm) } }
      | _ \<Rightarrow> (case vp_insert vp of
          None \<Rightarrow> Some mm
        | Some i \<Rightarrow> do {
            mm \<leftarrow> vma_iter_store i mm;
            Some (mm\<lparr>map_count := map_count mm + 1\<rparr>) }));
     let mm = (if vp_anon_vma vp \<noteq> None
               then log_calls (AnonTreeInsert (vp_vma vp)
                      # (case vp_adj_next vp of None \<Rightarrow> [] | Some n \<Rightarrow> [AnonTreeInsert n])) mm
               else mm);
     case vp_remove vp of
       None \<Rightarrow> Some mm
     | Some r \<Rightarrow> do {
         mm \<leftarrow> complete_remove vp r mm;
         case vp_remove2 vp of
           None \<Rightarrow> Some mm
         | Some r2 \<Rightarrow> complete_remove vp r2 mm } }"

section \<open>Sharing anonymous memory\<close>

text \<open>The result is the status, whether the destination got a duplicate, and the state.\<close>

definition dup_anon_vma ::
  "mmap_env \<Rightarrow> vma_ptr \<Rightarrow> vma_ptr \<Rightarrow> mm_struct \<Rightarrow> (int \<times> vma_ptr option \<times> mm_struct) option" where
  "dup_anon_vma env dst src mm = do {
     d \<leftarrow> vmas mm dst;
     s \<leftarrow> vmas mm src;
     if anon_vma s \<noteq> None \<and> anon_vma d = None
     then
       (let (ret, av, chain) = anon_vma_clone env (d\<lparr>anon_vma := anon_vma s\<rparr>) s;
            mm = put_vma dst (d\<lparr>anon_vma := av, anon_vma_chain := chain\<rparr>) mm
        in if ret \<noteq> 0 then Some (ret, None, mm) else Some (0, Some dst, mm))
     else Some (0, None, mm) }"

definition unlink_anon_vmas :: "mmap_env \<Rightarrow> vma_ptr \<Rightarrow> mm_struct \<Rightarrow> mm_struct option" where
  "unlink_anon_vmas env p mm = do {
     v \<leftarrow> vmas mm p;
     let (av, chain) = unlink_anon env v
     in Some (log_calls [UnlinkAnonVmas p] (put_vma p (v\<lparr>anon_vma := av, anon_vma_chain := chain\<rparr>) mm)) }"

section \<open>Expanding and shrinking\<close>

text \<open>The part of \<open>vma_expand\<close> after the anonymous memory of a swallowed area has been shared.\<close>

definition vma_expand_commit ::
  "mmap_env \<Rightarrow> vma_ptr \<Rightarrow> u64 \<Rightarrow> u64 \<Rightarrow> u64 \<Rightarrow> vma_ptr option \<Rightarrow> vma_ptr option \<Rightarrow> mm_struct
    \<Rightarrow> (int \<times> mm_struct) option" where
  "vma_expand_commit env vma start end pgoff remove anon_dup mm = do {
     vp \<leftarrow> init_multi_vma_prep vma None remove None mm;
     if prealloc_fails env mm
     then do {
       mm \<leftarrow> (case anon_dup of None \<Rightarrow> Some mm | Some d \<Rightarrow> unlink_anon_vmas env d mm);
       Some (- ENOMEM, mm) }
     else do {
       mm \<leftarrow> vma_prepare vp mm;
       v \<leftarrow> vmas mm vma;
       mm \<leftarrow> vma_iter_store vma (put_vma vma (v\<lparr>vm_start := start, vm_end := end, vm_pgoff := pgoff\<rparr>) mm);
       mm \<leftarrow> vma_complete vp mm;
       Some (0, mm) } }"

definition vma_expand ::
  "mmap_env \<Rightarrow> vma_ptr \<Rightarrow> u64 \<Rightarrow> u64 \<Rightarrow> u64 \<Rightarrow> vma_ptr option \<Rightarrow> mm_struct \<Rightarrow> (int \<times> mm_struct) option" where
  "vma_expand env vma start end pgoff next mm = do {
     remove \<leftarrow> (case next of
         None \<Rightarrow> Some None
       | Some n \<Rightarrow> do { nv \<leftarrow> vmas mm n; Some (if vma \<noteq> n \<and> end = vm_end nv then Some n else None) });
     (ret, anon_dup, mm) \<leftarrow> (case remove of
         Some n \<Rightarrow> dup_anon_vma env vma n mm
       | None \<Rightarrow> Some (0, None, mm));
     if ret \<noteq> 0 then Some (ret, mm)
     else vma_expand_commit env vma start end pgoff remove anon_dup mm }"

definition vma_shrink ::
  "mmap_env \<Rightarrow> vma_ptr \<Rightarrow> u64 \<Rightarrow> u64 \<Rightarrow> u64 \<Rightarrow> mm_struct \<Rightarrow> (int \<times> mm_struct) option" where
  "vma_shrink env vma start end pgoff mm = do {
     v \<leftarrow> vmas mm vma;
     let (a, b) = (if vm_start v < start then (vm_start v, start) else (end, vm_end v));
     if prealloc_fails env mm then Some (- ENOMEM, mm)
     else do {
       vp \<leftarrow> init_vma_prep vma mm;
       mm \<leftarrow> vma_prepare vp mm;
       let mm = vma_iter_clear a b mm;
       let mm = put_vma vma (v\<lparr>vm_start := start, vm_end := end, vm_pgoff := pgoff\<rparr>) mm;
       mm \<leftarrow> vma_complete vp mm;
       Some (0, mm) } }"

section \<open>Splitting\<close>

text \<open>\<open>__split_vma\<close> from the point where nothing can fail any more; \<open>nv\<close> is the new area.\<close>

definition split_vma_commit ::
  "mmap_env \<Rightarrow> vma_ptr \<Rightarrow> vm_area_struct \<Rightarrow> u64 \<Rightarrow> bool \<Rightarrow> vma_ptr \<Rightarrow> vm_area_struct \<Rightarrow> mm_struct
    \<Rightarrow> (int \<times> mm_struct) option" where
  "split_vma_commit env vma v addr new_below new nv mm = do {
     let mm = put_vma new nv mm;
     let mm = (case vm_file nv of None \<Rightarrow> mm | Some file \<Rightarrow> log_calls [GetFile file] mm);
     let mm = (case vm_ops nv of None \<Rightarrow> mm
               | Some ops \<Rightarrow> if ops_open env ops then log_calls [VmOpsOpen new] mm else mm);
     vp0 \<leftarrow> init_vma_prep vma mm;
     let vp = vp0\<lparr>vp_insert := Some new\<rparr>;
     mm \<leftarrow> vma_prepare vp mm;
     let v' = (if new_below
               then v\<lparr>vm_start := addr, vm_pgoff := vm_pgoff v + drop_bit PAGE_SHIFT (addr - vm_start nv)\<rparr>
               else v\<lparr>vm_end := addr\<rparr>);
     mm \<leftarrow> vma_complete vp (put_vma vma v' mm);
     Some (0, mm) }"

text \<open>\<open>__split_vma\<close>\<close>

definition split_vma_nocheck ::
  "mmap_env \<Rightarrow> vma_ptr \<Rightarrow> u64 \<Rightarrow> bool \<Rightarrow> mm_struct \<Rightarrow> (int \<times> mm_struct) option" where
  "split_vma_nocheck env vma addr new_below mm = do {
     v \<leftarrow> vmas mm vma;
     let err = (case vm_ops v of None \<Rightarrow> 0 | Some ops \<Rightarrow> ops_may_split env ops addr);
     if err \<noteq> 0 then Some (err, mm)
     else (case vm_area_alloc env mm of
       None \<Rightarrow> Some (- ENOMEM, mm)
     | Some new \<Rightarrow>
         (let nv = (if new_below then v\<lparr>vm_end := addr\<rparr>
                    else v\<lparr>vm_start := addr,
                           vm_pgoff := vm_pgoff v + drop_bit PAGE_SHIFT (addr - vm_start v)\<rparr>);
              mm1 = put_vma new nv mm
          in if prealloc_fails env mm1 then Some (- ENOMEM, vm_area_free new mm1)
             else
               (let (perr, pol) = mpol_dup env (vm_policy v)
                in if perr \<noteq> 0 then Some (perr, vm_area_free new mm1)
                   else
                     (let (aerr, av, chain) = anon_vma_clone env (nv\<lparr>vm_policy := pol\<rparr>) v
                      in if aerr \<noteq> 0
                         then Some (aerr, vm_area_free new (log_calls [MpolPut pol] mm1))
                         else split_vma_commit env vma v addr new_below new
                                (nv\<lparr>vm_policy := pol, anon_vma := av, anon_vma_chain := chain\<rparr>) mm1)))) }"

definition split_vma ::
  "mmap_env \<Rightarrow> vma_ptr \<Rightarrow> u64 \<Rightarrow> bool \<Rightarrow> mm_struct \<Rightarrow> (int \<times> mm_struct) option" where
  "split_vma env vma addr new_below mm =
    (if map_count mm \<ge> sysctl_max_map_count env then Some (- ENOMEM, mm)
     else split_vma_nocheck env vma addr new_below mm)"

section \<open>An example environment\<close>

text \<open>
  Nothing fails, and three new areas can be allocated. For concrete runs.
\<close>

definition plain_env :: mmap_env where
  "plain_env = \<lparr>vm_area_alloc = (\<lambda>mm. find (\<lambda>p. vmas mm p = None) [100, 101, 102]),
     prealloc_fails = (\<lambda>_. False), anon_vma_clone = (\<lambda>d s. (0, anon_vma s, anon_vma_chain s)),
     unlink_anon = (\<lambda>_. (None, [])), mpol_dup = (\<lambda>p. (0, p)), mpol_equal = (=),
     ops_close = (\<lambda>_. False), ops_open = (\<lambda>_. False), ops_may_split = (\<lambda>_ _. 0),
     sysctl_max_map_count = 65530, detach_store = (\<lambda>_ _. 0), clear_gfp = (\<lambda>_. 0),
     userfaultfd_unmap_prep = (\<lambda>_ _ _ _. 0), is_exec_mapping = (\<lambda>_. False),
     is_stack_mapping = (\<lambda>_. False), is_data_mapping = (\<lambda>_. False), task_size = 0x7ffffffff000,
     lock_killed = (\<lambda>_. False), untagged_addr = (\<lambda>a. a), rlimit_as = - 1, rlimit_data = - 1,
     rlimit_data_max = - 1, ignore_rlimit_data = False, rlimit_memlock = - 1, capable_ipc_lock = False,
     security_vm_enough_memory = (\<lambda>_ _. 0), arch_mmap_check = (\<lambda>_ _ _. 0),
     mm_get_area = (\<lambda>_ a _ _ _ _. a), file_get_area = (\<lambda>_. None), shmem_get_area = (\<lambda>_ a _ _ _ _. a),
     thp_get_area = None, security_mmap_addr = (\<lambda>_. 0), mmap_min_addr = 0x10000, vm_start_gap = vm_start,
     vm_end_gap = vm_end, stack_guard_gap = 0x100000, compat_brk = False, check_data_rlimit = (\<lambda>_ _ _ _ _. 0),
     vm_data_default_flags = VM_READ OR VM_WRITE, vm_get_page_prot = (\<lambda>f. f), is_file_hugepages = (\<lambda>_. False),
     call_mmap = (\<lambda>_ v. (0, v)), shmem_zero_setup = (\<lambda>v. (0, v\<lparr>vm_file := Some 0\<rparr>)),
     mapping_map_writable = (\<lambda>_. 0), map_deny_write_exec = (\<lambda>_ _. False), arch_validate_flags = (\<lambda>_. True),
     vma_is_dax = (\<lambda>_. False), gate_vma = None, pgprot_modify = (\<lambda>_ f. f), ops_mkwrite = (\<lambda>_. False),
     mapping_can_writeback = (\<lambda>_. False), vma_soft_dirty_enabled = (\<lambda>_. False), userfaultfd_wp = (\<lambda>_. False)\<rparr>"

definition plain_vma :: "u64 \<Rightarrow> u64 \<Rightarrow> u64 \<Rightarrow> vm_area_struct" where
  "plain_vma start end flags = \<lparr>vm_start = start, vm_end = end, vm_flags = flags, vm_pgoff = drop_bit PAGE_SHIFT start,
     vm_page_prot = 0, vm_file = None, vm_ops = None, anon_vma = None, anon_vma_chain = [],
     vm_policy = None, vm_userfaultfd_ctx = None, anon_name = None, vm_private_data = None\<rparr>"

end
