(* ===== verification/Vma_Inv.thy ===== *)
theory Vma_Inv
  imports Vma_Model
begin

text \<open>
  The invariant of an address space, and what the operations on single areas do to it: the
  tree holds exactly the areas that exist, each under its own page-aligned range, the ranges
  are disjoint, and \<open>map_count\<close> is their number. This is what \<open>validate_mm\<close> checks at run time.
\<close>

section \<open>The invariant\<close>

definition rng :: "vm_area_struct \<Rightarrow> u64 \<times> u64" where
  "rng v = (vm_start v, vm_end v)"

definition entries :: "(vma_ptr \<rightharpoonup> vm_area_struct) \<Rightarrow> mt_entry set" where
  "entries f = {(vm_start v, vm_end v, p) | p v. f p = Some v}"

definition aligned_areas :: "(vma_ptr \<rightharpoonup> vm_area_struct) \<Rightarrow> bool" where
  "aligned_areas f \<longleftrightarrow> (\<forall>p v. f p = Some v \<longrightarrow> offset_in_page (vm_start v) = 0 \<and> offset_in_page (vm_end v) = 0)"

definition mm_inv :: "mm_struct \<Rightarrow> bool" where
  "mm_inv mm \<longleftrightarrow> mt_ok (mm_mt mm) \<and> set (mm_mt mm) = entries (vmas mm)
     \<and> map_count mm = int (card (dom (vmas mm))) \<and> aligned_areas (vmas mm)"

text \<open>Two states that differ at most in their areas, their count and the recorded calls.\<close>

definition other_fields :: "mm_struct \<Rightarrow> mm_struct" where
  "other_fields mm = mm\<lparr>mm_mt := [], vmas := Map.empty, map_count := 0, mm_calls := []\<rparr>"

definition only_areas :: "mm_struct \<Rightarrow> mm_struct \<Rightarrow> bool" where
  "only_areas mm mm' \<longleftrightarrow> other_fields mm' = other_fields mm"

lemma only_areas_refl [simp]: "only_areas mm mm"
  by (simp add: only_areas_def)

lemma only_areas_trans: "only_areas a b \<Longrightarrow> only_areas b c \<Longrightarrow> only_areas a c"
  by (simp add: only_areas_def)

lemma only_areas_updates [simp]:
  "only_areas mm (mm'\<lparr>mm_mt := t\<rparr>) = only_areas mm mm'"
  "only_areas mm (mm'\<lparr>vmas := f\<rparr>) = only_areas mm mm'"
  "only_areas mm (mm'\<lparr>map_count := n\<rparr>) = only_areas mm mm'"
  "only_areas mm (mm'\<lparr>mm_calls := cs\<rparr>) = only_areas mm mm'"
  by (simp_all add: only_areas_def other_fields_def)

lemma only_areas_fields:
  assumes "only_areas mm mm'"
  shows "total_vm mm' = total_vm mm" "data_vm mm' = data_vm mm" "exec_vm mm' = exec_vm mm"
    "stack_vm mm' = stack_vm mm" "locked_vm mm' = locked_vm mm" "def_flags mm' = def_flags mm"
    "mmap_base mm' = mmap_base mm" "start_brk mm' = start_brk mm" "brk mm' = brk mm"
    "end_data mm' = end_data mm" "start_data mm' = start_data mm"
proof -
  note eq = assms [unfolded only_areas_def other_fields_def]
  show "total_vm mm' = total_vm mm" "data_vm mm' = data_vm mm" "exec_vm mm' = exec_vm mm"
    "stack_vm mm' = stack_vm mm" "locked_vm mm' = locked_vm mm" "def_flags mm' = def_flags mm"
    "mmap_base mm' = mmap_base mm" "start_brk mm' = start_brk mm" "brk mm' = brk mm"
    "end_data mm' = end_data mm" "start_data mm' = start_data mm"
    using arg_cong [OF eq, of total_vm] arg_cong [OF eq, of data_vm] arg_cong [OF eq, of exec_vm]
      arg_cong [OF eq, of stack_vm] arg_cong [OF eq, of locked_vm] arg_cong [OF eq, of def_flags]
      arg_cong [OF eq, of mmap_base] arg_cong [OF eq, of start_brk] arg_cong [OF eq, of brk]
      arg_cong [OF eq, of end_data] arg_cong [OF eq, of start_data]
    by simp_all
qed

lemma entries_iff: "(s, e, p) \<in> entries f \<longleftrightarrow> (\<exists>v. f p = Some v \<and> vm_start v = s \<and> vm_end v = e)"
  by (auto simp: entries_def)

lemma entries_rng: "(\<And>p. map_option rng (f p) = map_option rng (g p)) \<Longrightarrow> entries f = entries g"
proof -
  assume eq: "\<And>p. map_option rng (f p) = map_option rng (g p)"
  have "(s, e, p) \<in> entries f \<longleftrightarrow> (s, e, p) \<in> entries g" for s e p
    using eq [of p] by (auto simp: entries_iff rng_def map_option_case split: option.splits)
  then show ?thesis by auto
qed

lemma card_entries: "finite (dom f) \<Longrightarrow> card (entries f) = card (dom f)"
proof -
  have "bij_betw (snd \<circ> snd) (entries f) (dom f)"
    unfolding bij_betw_def inj_on_def by (force simp: entries_def dom_def image_iff)
  then show ?thesis
    by (rule bij_betw_same_card)
qed

lemma dom_entries: "dom f = (snd \<circ> snd) ` entries f"
  by (force simp: entries_def dom_def image_iff)

lemma tree_length:
  assumes "mt_ok t" and "set t = entries f"
  shows "finite (dom f)" and "length t = card (dom f)"
proof -
  show fin: "finite (dom f)"
    unfolding dom_entries assms(2) [symmetric] by simp
  show "length t = card (dom f)"
    using distinct_card [OF mt_ok_distinct [OF assms(1)]] card_entries [OF fin] assms(2) by simp
qed

lemma mm_inv_finite: "mm_inv mm \<Longrightarrow> finite (dom (vmas mm))"
  by (rule tree_length(1)) (auto simp: mm_inv_def)

lemma mm_inv_validate: "mm_inv mm \<Longrightarrow> validate_mm mm"
proof -
  assume inv: "mm_inv mm"
  then have "int (length (mm_mt mm)) = map_count mm"
    using tree_length(2) [of "mm_mt mm" "vmas mm"] by (simp add: mm_inv_def)
  moreover have "case x of (s, e, p) \<Rightarrow>
      (case vmas mm p of None \<Rightarrow> False | Some v \<Rightarrow> vm_end v = e \<and> vm_start v = s)"
    if "x \<in> set (mm_mt mm)" for x
    using inv that by (cases x) (auto simp: mm_inv_def entries_iff)
  ultimately show ?thesis
    by (auto simp: validate_mm_def)
qed

section \<open>Areas of a valid address space\<close>

lemma mm_inv_mem:
  "mm_inv mm \<Longrightarrow> vmas mm p = Some v \<Longrightarrow> (vm_start v, vm_end v, p) \<in> set (mm_mt mm)"
  by (auto simp: mm_inv_def entries_iff)

lemma mm_inv_area:
  assumes "mm_inv mm" and "(s, e, p) \<in> set (mm_mt mm)"
  obtains v where "vmas mm p = Some v" "vm_start v = s" "vm_end v = e"
  using assms by (auto simp: mm_inv_def entries_iff)

lemma mm_inv_nonempty: "mm_inv mm \<Longrightarrow> vmas mm p = Some v \<Longrightarrow> vm_start v < vm_end v"
  using mt_ok_nonempty mm_inv_mem by (fastforce simp: mm_inv_def)

lemma mm_inv_disjoint:
  assumes "mm_inv mm" and "vmas mm p = Some v" and "vmas mm q = Some w" and "p \<noteq> q"
  shows "vm_end v \<le> vm_start w \<or> vm_end w \<le> vm_start v"
  using mt_ok_disjoint [of "mm_mt mm" "(vm_start v, vm_end v, p)" "(vm_start w, vm_end w, q)"]
    mm_inv_mem [OF assms(1,2)] mm_inv_mem [OF assms(1,3)] assms(1,4) by (simp add: mm_inv_def)

lemma mm_inv_aligned:
  "mm_inv mm \<Longrightarrow> vmas mm p = Some v \<Longrightarrow> offset_in_page (vm_start v) = 0 \<and> offset_in_page (vm_end v) = 0"
  by (simp add: mm_inv_def aligned_areas_def)

section \<open>Tree updates\<close>

text \<open>Membership in an updated tree, area by area.\<close>

lemma store_mem:
  assumes "set t = entries f"
  shows "x \<in> set (mt_store a b p t) \<longleftrightarrow> x = (a, b, p)
    \<or> (\<exists>r w. f r = Some w \<and> x \<in> set (mt_cut a b (vm_start w, vm_end w, r)))"
  unfolding set_mt_store assms entries_def by blast

lemma erase_mem:
  assumes "set t = entries f"
  shows "x \<in> set (mt_erase a b t) \<longleftrightarrow>
    (\<exists>r w. f r = Some w \<and> x \<in> set (mt_cut a b (vm_start w, vm_end w, r)))"
  unfolding set_mt_erase assms entries_def by blast

lemma area_nonempty:
  assumes "mt_ok t" and "set t = entries f" and "f q = Some w"
  shows "vm_start w < vm_end w"
proof -
  have "(vm_start w, vm_end w, q) \<in> set t"
    using assms(2,3) by (auto simp: entries_iff)
  then show ?thesis
    using mt_ok_nonempty [OF assms(1)] by fastforce
qed

lemma area_disjoint:
  assumes "mt_ok t" and "set t = entries f" and "f p = Some v" and "f q = Some w" and "p \<noteq> q"
  shows "vm_end v \<le> vm_start w \<or> vm_end w \<le> vm_start v"
  using mt_ok_disjoint [OF assms(1), of "(vm_start v, vm_end v, p)" "(vm_start w, vm_end w, q)"]
    assms(2-) by (auto simp: entries_iff)

text \<open>
  Storing \<open>p\<close> over a range when every area inside the range goes away (or is \<open>p\<close> itself) and
  every other area stays outside it.
\<close>

lemma store_entries:
  assumes ok: "mt_ok t" "set t = entries f" and ab: "a < b"
    and p: "g p = Some v" "rng v = (a, b)"
    and keep: "\<And>q w. q \<noteq> p \<Longrightarrow> g q = Some w \<Longrightarrow>
      map_option rng (f q) = Some (rng w) \<and> (vm_end w \<le> a \<or> b \<le> vm_start w)"
    and gone: "\<And>q w. f q = Some w \<Longrightarrow> q = p \<or> g q = None \<Longrightarrow> a \<le> vm_start w \<and> vm_end w \<le> b"
  shows "mt_ok (mt_store a b p t)" and "set (mt_store a b p t) = entries g"
proof -
  show "mt_ok (mt_store a b p t)"
    by (rule mt_ok_store [OF ok(1) ab])
  have cuts: "set (mt_cut a b (vm_start w, vm_end w, q))
      = (if q = p \<or> g q = None then {} else {(vm_start w, vm_end w, q)})" if fq: "f q = Some w" for q w
  proof (cases "q = p \<or> g q = None")
    case True
    then show ?thesis
      using gone [OF fq True] by (simp add: mt_cut_inside)
  next
    case False
    then obtain w' where w': "g q = Some w'" "q \<noteq> p"
      by auto
    then have same: "rng w' = rng w" and out: "vm_end w' \<le> a \<or> b \<le> vm_start w'"
      using keep [OF w'(2,1)] fq by simp_all
    have "(vm_start w, vm_end w, q) \<in> set t"
      using ok(2) fq by (auto simp: entries_iff)
    then have "vm_start w < vm_end w"
      using mt_ok_nonempty [OF ok(1)] by fastforce
    then show ?thesis
      using False same out ab by (simp add: mt_cut_disjoint rng_def)
  qed
  have "x \<in> set (mt_store a b p t) \<longleftrightarrow> x \<in> entries g" for x
  proof (cases x)
    case (fields s e q)
    have "x \<in> set (mt_store a b p t) \<longleftrightarrow> x = (a, b, p)
        \<or> (\<exists>r w. f r = Some w \<and> x \<in> set (mt_cut a b (vm_start w, vm_end w, r)))"
      by (rule store_mem [OF ok(2)])
    also have "\<dots> \<longleftrightarrow> x = (a, b, p)
        \<or> (\<exists>w. f q = Some w \<and> q \<noteq> p \<and> g q \<noteq> None \<and> s = vm_start w \<and> e = vm_end w)"
    proof -
      have "x \<in> set (mt_cut a b (vm_start w, vm_end w, r))
          \<longleftrightarrow> q = r \<and> r \<noteq> p \<and> g r \<noteq> None \<and> s = vm_start w \<and> e = vm_end w" if "f r = Some w" for r w
        unfolding fields using cuts [OF that] by auto
      then show ?thesis by blast
    qed
    also have "\<dots> \<longleftrightarrow> x \<in> entries g"
    proof (cases "q = p")
      case True
      then show ?thesis
        using p by (auto simp: fields entries_iff rng_def)
    next
      case False
      then show ?thesis
        using keep [OF False] by (fastforce simp: fields entries_iff rng_def)
    qed
    finally show ?thesis .
  qed
  then show "set (mt_store a b p t) = entries g"
    by blast
qed

text \<open>Storing a new area over the lower or the upper part of an existing one.\<close>

lemma split_entries:
  assumes ok: "mt_ok t" "set t = entries f"
    and f: "f p = Some v" "f new = None"
    and g: "g new = Some nv" "rng nv = (a, b)" "g p = Some v'" "rng v' = (c, d)"
      "\<And>q. q \<noteq> p \<Longrightarrow> q \<noteq> new \<Longrightarrow> map_option rng (g q) = map_option rng (f q)"
    and parts: "a < b" "c < d"
      "(a = vm_start v \<and> b = c \<and> d = vm_end v) \<or> (c = vm_start v \<and> d = a \<and> b = vm_end v)"
  shows "mt_ok (mt_store a b new t)" and "set (mt_store a b new t) = entries g"
proof -
  show "mt_ok (mt_store a b new t)"
    by (rule mt_ok_store [OF ok(1) parts(1)])
  have this_cut: "mt_cut a b (vm_start v, vm_end v, p) = [(c, d, p)]"
    using parts by (auto simp: mt_cut_def min_def max_def)
  have other_cut: "mt_cut a b (vm_start w, vm_end w, q) = [(vm_start w, vm_end w, q)]"
    if "f q = Some w" and "q \<noteq> p" for q w
  proof (rule mt_cut_disjoint [OF parts(1)])
    show "fst (vm_start w, vm_end w, q) < fst (snd (vm_start w, vm_end w, q))"
      using area_nonempty [OF ok that(1)] by simp
    have "vm_end v \<le> vm_start w \<or> vm_end w \<le> vm_start v"
      using area_disjoint [OF ok f(1) that(1)] that(2) by blast
    moreover have "vm_start v \<le> a" "b \<le> vm_end v"
      using parts by auto
    ultimately show "fst (snd (vm_start w, vm_end w, q)) \<le> a \<or> b \<le> fst (vm_start w, vm_end w, q)"
      by auto
  qed
  have "x \<in> set (mt_store a b new t) \<longleftrightarrow> x \<in> entries g" for x
  proof (cases x)
    case (fields s e q)
    have "x \<in> set (mt_store a b new t) \<longleftrightarrow> x = (a, b, new) \<or> x = (c, d, p)
        \<or> (\<exists>w. f q = Some w \<and> q \<noteq> p \<and> s = vm_start w \<and> e = vm_end w)"
    proof -
      have "x \<in> set (mt_cut a b (vm_start w, vm_end w, r))
          \<longleftrightarrow> r = p \<and> x = (c, d, p) \<or> r \<noteq> p \<and> q = r \<and> s = vm_start w \<and> e = vm_end w"
        if fr: "f r = Some w" for r w
      proof (cases "r = p")
        case True
        then show ?thesis
          using fr f(1) this_cut by simp
      next
        case False
        then show ?thesis
          using other_cut [OF fr False] by (auto simp: fields)
      qed
      then show ?thesis
        unfolding store_mem [OF ok(2)] using f(1) by blast
    qed
    also have "\<dots> \<longleftrightarrow> x \<in> entries g"
    proof (cases "q = p \<or> q = new")
      case True
      then show ?thesis
        using g(1-4) f by (auto simp: fields entries_iff rng_def)
    next
      case False
      then have "map_option rng (g q) = map_option rng (f q)"
        using g(5) by simp
      with False show ?thesis
        by (cases "f q"; cases "g q") (auto simp: fields entries_iff rng_def)
    qed
    finally show ?thesis .
  qed
  then show "set (mt_store a b new t) = entries g"
    by blast
qed

text \<open>Erasing a range when every area lies inside it and goes away, or outside it and stays.\<close>

lemma erase_entries:
  assumes ok: "mt_ok t" "set t = entries f" and ab: "a < b"
    and none: "\<And>q. f q = None \<Longrightarrow> g q = None"
    and gone: "\<And>q w. f q = Some w \<Longrightarrow> g q = None \<Longrightarrow> a \<le> vm_start w \<and> vm_end w \<le> b"
    and keep: "\<And>q w w'. f q = Some w \<Longrightarrow> g q = Some w' \<Longrightarrow>
      rng w' = rng w \<and> (vm_end w \<le> a \<or> b \<le> vm_start w)"
  shows "mt_ok (mt_erase a b t)" and "set (mt_erase a b t) = entries g"
proof -
  show "mt_ok (mt_erase a b t)"
    by (rule mt_ok_erase [OF ok(1) ab])
  have cuts: "set (mt_cut a b (vm_start w, vm_end w, q))
      = (if g q = None then {} else {(vm_start w, vm_end w, q)})" if fq: "f q = Some w" for q w
  proof (cases "g q")
    case None
    then show ?thesis
      using gone [OF fq None] by (simp add: mt_cut_inside)
  next
    case (Some w')
    then show ?thesis
      using keep [OF fq Some] area_nonempty [OF ok fq] ab by (simp add: mt_cut_disjoint)
  qed
  have "x \<in> set (mt_erase a b t) \<longleftrightarrow> x \<in> entries g" for x
  proof (cases x)
    case (fields s e q)
    have "x \<in> set (mt_cut a b (vm_start w, vm_end w, r))
        \<longleftrightarrow> q = r \<and> g r \<noteq> None \<and> s = vm_start w \<and> e = vm_end w" if "f r = Some w" for r w
      unfolding fields using cuts [OF that] by auto
    then have "x \<in> set (mt_erase a b t) \<longleftrightarrow> (\<exists>w. f q = Some w \<and> g q \<noteq> None \<and> s = vm_start w \<and> e = vm_end w)"
      unfolding erase_mem [OF ok(2)] by blast
    also have "\<dots> \<longleftrightarrow> x \<in> entries g"
    proof (cases "f q")
      case None
      then show ?thesis
        using none [OF None] by (simp add: fields entries_iff)
    next
      case (Some w)
      show ?thesis
      proof (cases "g q")
        case None
        then show ?thesis by (simp add: fields entries_iff)
      next
        case (Some w')
        then show ?thesis
          using keep [OF \<open>f q = Some w\<close> Some] \<open>f q = Some w\<close> by (auto simp: fields entries_iff rng_def)
      qed
    qed
    finally show ?thesis .
  qed
  then show "set (mt_erase a b t) = entries g"
    by blast
qed

end
