(* ===== verification/Vma_Ops.thy ===== *)
theory Vma_Ops
  imports Vma_Inv
begin

text \<open>
  What linking, expanding, shrinking and splitting an area do to the address space: each
  returns, keeps the invariant, and changes exactly the areas it is about.
\<close>

section \<open>Preparation and completion\<close>

lemmas mm_state = log_calls_def put_vma_def vm_area_free_def vma_iter_store_def vma_iter_clear_def

text \<open>
  The effect of a step on the four components that the area operations change: the step gives
  a state with tree \<open>t\<close>, areas \<open>f\<close> and count \<open>n\<close>, equal to \<open>mm\<close> in every other field.
\<close>

definition steps_to ::
  "mm_struct \<Rightarrow> mm_struct option \<Rightarrow> mt_entry list \<Rightarrow> (vma_ptr \<rightharpoonup> vm_area_struct) \<Rightarrow> int \<Rightarrow> bool" where
  "steps_to mm r t f n \<longleftrightarrow> (\<exists>mm'. r = Some mm' \<and> mm_mt mm' = t \<and> vmas mm' = f \<and> map_count mm' = n
     \<and> only_areas mm mm')"

lemma steps_toE:
  assumes "steps_to mm r t f n"
  obtains mm' where "r = Some mm'" "mm_mt mm' = t" "vmas mm' = f" "map_count mm' = n" "only_areas mm mm'"
  using assms unfolding steps_to_def by blast

lemma vma_prepare_steps:
  assumes "\<And>i. vp_insert vp = Some i \<Longrightarrow> vmas mm i \<noteq> None"
  shows "steps_to mm (vma_prepare vp mm) (mm_mt mm) (vmas mm) (map_count mm)"
proof (cases "vp_insert vp")
  case None
  then show ?thesis
    by (auto simp: steps_to_def vma_prepare_def mm_state Let_def split: option.splits)
next
  case (Some i)
  then obtain v where "vmas mm i = Some v"
    using assms by blast
  with Some show ?thesis
    by (auto simp: steps_to_def vma_prepare_def mm_state Let_def split: option.splits)
qed

lemma vma_complete_plain:
  assumes "vp_insert vp = None" and "vp_remove vp = None"
  shows "steps_to mm (vma_complete vp mm) (mm_mt mm) (vmas mm) (map_count mm)"
  using assms by (auto simp: steps_to_def vma_complete_def mm_state Let_def split: option.splits)

lemma vma_complete_insert:
  assumes "vp_insert vp = Some i" and "vp_remove vp = None" and "vmas mm i = Some v"
  shows "steps_to mm (vma_complete vp mm) (mt_store (vm_start v) (vm_end v) i (mm_mt mm)) (vmas mm)
    (map_count mm + 1)"
  using assms by (auto simp: steps_to_def vma_complete_def mm_state Let_def split: option.splits)

lemma vma_complete_remove:
  assumes "vp_insert vp = None" and "vp_remove vp = Some r" and "vp_remove2 vp = None"
    and "vmas mm r = Some v"
  shows "steps_to mm (vma_complete vp mm) (mm_mt mm) ((vmas mm)(r := None)) (map_count mm - 1)"
  using assms
  by (auto simp: steps_to_def vma_complete_def complete_remove_def mm_state Let_def split: option.splits)

lemma vma_complete_remove2:
  assumes "vp_insert vp = None" and "vp_remove vp = Some r" and "vp_remove2 vp = Some r2"
    and "vmas mm r = Some v" and "vmas mm r2 = Some v2" and "r \<noteq> r2"
  shows "steps_to mm (vma_complete vp mm) (mm_mt mm) ((vmas mm)(r := None, r2 := None)) (map_count mm - 2)"
  using assms
  by (auto simp: steps_to_def vma_complete_def complete_remove_def mm_state Let_def split: option.splits)

lemma init_multi_vma_prep_Some:
  assumes "vmas mm p = Some v" and "\<And>n. next = Some n \<Longrightarrow> vmas mm n \<noteq> None"
  shows "\<exists>vp. init_multi_vma_prep p next r r2 mm = Some vp \<and> vp_vma vp = p \<and> vp_adj_next vp = next
    \<and> vp_insert vp = None \<and> vp_remove vp = r \<and> vp_remove2 vp = r2"
proof (cases "next")
  case None
  then show ?thesis
    using assms(1) by (simp add: init_multi_vma_prep_def split: option.splits)
next
  case (Some n)
  then obtain w where "vmas mm n = Some w"
    using assms(2) by blast
  then show ?thesis
    using Some assms(1) by (simp add: init_multi_vma_prep_def split: option.splits)
qed

section \<open>Anonymous memory\<close>

text \<open>The same area up to its \<open>anon_vma\<close> fields.\<close>

definition same_area :: "vm_area_struct \<Rightarrow> vm_area_struct \<Rightarrow> bool" where
  "same_area v w \<longleftrightarrow> w = v\<lparr>anon_vma := anon_vma w, anon_vma_chain := anon_vma_chain w\<rparr>"

lemma same_area_refl [simp]: "same_area v v"
  by (simp add: same_area_def)

lemma same_area_update [simp]: "same_area v (v\<lparr>anon_vma := a, anon_vma_chain := c\<rparr>)"
  by (simp add: same_area_def)

lemma same_area_trans: "same_area u v \<Longrightarrow> same_area v w \<Longrightarrow> same_area u w"
proof -
  assume uv: "same_area u v" and vw: "same_area v w"
  have "w = u\<lparr>anon_vma := anon_vma w, anon_vma_chain := anon_vma_chain w\<rparr>"
    by (subst vw [unfolded same_area_def], subst uv [unfolded same_area_def]) simp
  then show ?thesis
    by (simp add: same_area_def)
qed

lemma same_area_fields:
  assumes "same_area v w"
  shows "vm_start w = vm_start v" "vm_end w = vm_end v" "vm_flags w = vm_flags v" "vm_pgoff w = vm_pgoff v"
    "vm_file w = vm_file v" "vm_ops w = vm_ops v" "vm_policy w = vm_policy v"
    "vm_userfaultfd_ctx w = vm_userfaultfd_ctx v" "anon_name w = anon_name v"
    "vm_page_prot w = vm_page_prot v" "vm_private_data w = vm_private_data v"
  by (subst assms [unfolded same_area_def], simp)+

lemma same_area_rng: "same_area v w \<Longrightarrow> rng w = rng v"
  by (simp add: rng_def same_area_fields)

lemma dup_anon_vma_Some:
  assumes "vmas mm dst = Some d" and "vmas mm src = Some s"
  shows "\<exists>ret dup d'. dup_anon_vma env dst src mm = Some (ret, dup, mm\<lparr>vmas := (vmas mm)(dst \<mapsto> d')\<rparr>)
    \<and> same_area d d' \<and> (dup = None \<or> dup = Some dst)"
proof (cases "anon_vma s \<noteq> None \<and> anon_vma d = None")
  case False
  have "mm\<lparr>vmas := (vmas mm)(dst \<mapsto> d)\<rparr> = mm"
    using assms(1) by (simp add: fun_upd_idem)
  with False assms show ?thesis
    by (intro exI [of _ 0] exI [of _ None] exI [of _ d]) (auto simp: dup_anon_vma_def)
next
  case True
  obtain ret av ch where cl: "anon_vma_clone env (d\<lparr>anon_vma := anon_vma s\<rparr>) s = (ret, av, ch)"
    by (cases "anon_vma_clone env (d\<lparr>anon_vma := anon_vma s\<rparr>) s") auto
  let ?d = "d\<lparr>anon_vma := av, anon_vma_chain := ch\<rparr>"
  have "dup_anon_vma env dst src mm
      = Some (ret, if ret = 0 then Some dst else None, mm\<lparr>vmas := (vmas mm)(dst \<mapsto> ?d)\<rparr>)"
    using True assms cl by (simp add: dup_anon_vma_def put_vma_def)
  then show ?thesis
    by (intro exI [of _ ret] exI [of _ "if ret = 0 then Some dst else None"] exI [of _ ?d]) simp
qed

lemma unlink_anon_vmas_Some:
  assumes "vmas mm p = Some v"
  shows "\<exists>v' cs. unlink_anon_vmas env p mm = Some (mm\<lparr>vmas := (vmas mm)(p \<mapsto> v'), mm_calls := cs\<rparr>)
    \<and> same_area v v'"
proof -
  obtain av ch where "unlink_anon env v = (av, ch)"
    by (cases "unlink_anon env v") auto
  then show ?thesis
    using assms by (auto simp: unlink_anon_vmas_def mm_state)
qed

section \<open>Keeping the invariant\<close>

text \<open>A change of \<open>anon_vma\<close> fields, page protections and the like leaves the tree in order.\<close>

lemma mm_inv_same_rng:
  assumes "mm_inv mm" and "mm_mt mm' = mm_mt mm" and "map_count mm' = map_count mm"
    and "\<And>p. map_option rng (vmas mm' p) = map_option rng (vmas mm p)"
  shows "mm_inv mm'"
proof -
  have e: "entries (vmas mm') = entries (vmas mm)"
    by (rule entries_rng) (rule assms(4))
  have "vmas mm' p = None \<longleftrightarrow> vmas mm p = None" for p
    using assms(4) [of p] by (metis map_option_is_None)
  then have d: "dom (vmas mm') = dom (vmas mm)"
    by (simp add: dom_def)
  have "aligned_areas (vmas mm')"
    unfolding aligned_areas_def
  proof (intro allI impI)
    fix p v
    assume "vmas mm' p = Some v"
    then have "map_option rng (vmas mm p) = Some (rng v)"
      using assms(4) [of p] by simp
    then obtain w where w: "vmas mm p = Some w" "rng w = rng v"
      by auto
    then show "offset_in_page (vm_start v) = 0 \<and> offset_in_page (vm_end v) = 0"
      using mm_inv_aligned [OF assms(1) w(1)] by (simp add: rng_def)
  qed
  then show ?thesis
    using assms e d by (simp add: mm_inv_def)
qed

section \<open>Expanding\<close>

lemma mm_inv_expanded:
  assumes inv: "mm_inv mm" and v: "vmas mm p = Some v" and v': "rng v' = (start, end)"
    and room: "start \<le> vm_start v" "vm_end v \<le> end"
    and al: "offset_in_page start = 0" "offset_in_page end = 0"
    and drop: "p \<notin> D" "D \<subseteq> dom (vmas mm)"
    and inside: "\<And>q w. q \<in> D \<Longrightarrow> vmas mm q = Some w \<Longrightarrow> start \<le> vm_start w \<and> vm_end w \<le> end"
    and outside: "\<And>q w. q \<notin> D \<Longrightarrow> q \<noteq> p \<Longrightarrow> vmas mm q = Some w \<Longrightarrow> vm_end w \<le> start \<or> end \<le> vm_start w"
    and mm': "mm_mt mm' = mt_store start end p (mm_mt mm)" "vmas mm' = (vmas mm |` (- D))(p \<mapsto> v')"
      "map_count mm' = map_count mm - int (card D)"
  shows "mm_inv mm'"
proof -
  have t: "mt_ok (mm_mt mm)" "set (mm_mt mm) = entries (vmas mm)"
    using inv by (simp_all add: mm_inv_def)
  have lt: "start < end"
    using room mm_inv_nonempty [OF inv v] by simp
  have new: "vmas mm' p = Some v'" "vmas mm' q = (if q \<in> D then None else vmas mm q)" if "q \<noteq> p" for q
    using that by (simp_all add: mm'(2) restrict_map_def)
  have pv: "vmas mm' p = Some v'"
    by (simp add: mm'(2))
  have ent: "mt_ok (mm_mt mm')" "set (mm_mt mm') = entries (vmas mm')"
  proof -
    have k: "map_option rng (vmas mm q) = Some (rng w) \<and> (vm_end w \<le> start \<or> end \<le> vm_start w)"
      if "q \<noteq> p" "vmas mm' q = Some w" for q w
      using that new(2) [OF that(1)] outside [of q w] by (auto split: if_splits)
    have g: "start \<le> vm_start w \<and> vm_end w \<le> end" if "vmas mm q = Some w" "q = p \<or> vmas mm' q = None" for q w
    proof (cases "q = p")
      case True
      then show ?thesis using that(1) v room by simp
    next
      case False
      then have "q \<in> D"
        using that new(2) [OF False] by (auto split: if_splits)
      then show ?thesis
        using inside that(1) by blast
    qed
    show "mt_ok (mm_mt mm')"
      unfolding mm'(1) by (rule mt_ok_store [OF t(1) lt])
    show "set (mm_mt mm') = entries (vmas mm')"
      unfolding mm'(1) by (rule store_entries(2) [where g = "vmas mm'", OF t lt pv v']) (erule (1) k, erule (1) g)
  qed
  have dom: "dom (vmas mm') = dom (vmas mm) - D"
    using v drop(1) by (auto simp: mm'(2) restrict_map_def split: if_splits)
  have "card (dom (vmas mm')) = card (dom (vmas mm)) - card D" "card D \<le> card (dom (vmas mm))"
    unfolding dom using drop(2) mm_inv_finite [OF inv] by (auto simp: card_Diff_subset finite_subset card_mono)
  then have "map_count mm' = int (card (dom (vmas mm')))"
    using mm'(3) inv by (simp add: mm_inv_def)
  moreover have "aligned_areas (vmas mm')"
    unfolding aligned_areas_def
  proof (intro allI impI)
    fix q w
    assume "vmas mm' q = Some w"
    then show "offset_in_page (vm_start w) = 0 \<and> offset_in_page (vm_end w) = 0"
      using pv v' al new(2) [of q] mm_inv_aligned [OF inv, of q w]
      by (cases "q = p") (auto simp: rng_def split: if_splits)
  qed
  ultimately show ?thesis
    using ent by (simp add: mm_inv_def)
qed

text \<open>
  What an expansion promises to a caller that has checked the surroundings; \<open>D\<close> is the set of
  areas it swallows. On failure only \<open>anon_vma\<close> fields of the area may have changed.
\<close>

definition expands ::
  "mm_struct \<Rightarrow> vma_ptr \<Rightarrow> vm_area_struct \<Rightarrow> u64 \<Rightarrow> u64 \<Rightarrow> u64 \<Rightarrow> vma_ptr set \<Rightarrow> int \<Rightarrow> mm_struct \<Rightarrow> bool" where
  "expands mm p v start end pgoff D r mm' \<longleftrightarrow> mm_inv mm' \<and> only_areas mm mm'
     \<and> (\<exists>v'. same_area v v' \<and>
          (if r = 0
           then vmas mm' = (vmas mm |` (- D))(p \<mapsto> v'\<lparr>vm_start := start, vm_end := end, vm_pgoff := pgoff\<rparr>)
           else vmas mm' = (vmas mm)(p \<mapsto> v')))"

lemma expands_success:
  assumes "mm_inv mm'" and "only_areas mm mm'" and "same_area v v'"
    and "vmas mm' = (vmas mm |` (- D))(p \<mapsto> v'\<lparr>vm_start := start, vm_end := end, vm_pgoff := pgoff\<rparr>)"
  shows "expands mm p v start end pgoff D 0 mm'"
  unfolding expands_def using assms by auto

lemma expands_failure:
  assumes "mm_inv mm'" and "only_areas mm mm'" and "same_area v v'" and "vmas mm' = (vmas mm)(p \<mapsto> v')"
    and "r \<noteq> 0"
  shows "expands mm p v start end pgoff D r mm'"
  unfolding expands_def using assms by auto

lemma expands_anon:
  assumes "expands (mm\<lparr>vmas := (vmas mm)(p \<mapsto> v1)\<rparr>) p v1 start end pgoff D r mm'" and "same_area v v1"
  shows "expands mm p v start end pgoff D r mm'"
proof -
  let ?mm1 = "mm\<lparr>vmas := (vmas mm)(p \<mapsto> v1)\<rparr>"
  obtain v' where v': "same_area v1 v'" "if r = 0
      then vmas mm' = (vmas ?mm1 |` (- D))(p \<mapsto> v'\<lparr>vm_start := start, vm_end := end, vm_pgoff := pgoff\<rparr>)
      else vmas mm' = (vmas ?mm1)(p \<mapsto> v')"
    and inv: "mm_inv mm'" "only_areas ?mm1 mm'"
    using assms(1) unfolding expands_def by blast
  have upd: "(vmas ?mm1 |` (- D))(p \<mapsto> x) = (vmas mm |` (- D))(p \<mapsto> x)" for x
    by (auto simp: fun_eq_iff restrict_map_def)
  have only: "only_areas mm mm'"
    using inv(2) by (simp add: only_areas_def other_fields_def)
  show ?thesis
  proof (cases "r = 0")
    case True
    then show ?thesis
      using expands_success [OF inv(1) only same_area_trans [OF assms(2) v'(1)]] v'(2) upd by simp
  next
    case False
    then show ?thesis
      using expands_failure [OF inv(1) only same_area_trans [OF assms(2) v'(1)]] v'(2) by simp
  qed
qed

lemma mm_inv_same_area:
  assumes "mm_inv mm" and "vmas mm p = Some v" and "same_area v v'"
    and "mm_mt mm' = mm_mt mm" "map_count mm' = map_count mm" "vmas mm' = (vmas mm)(p \<mapsto> v')"
  shows "mm_inv mm'"
  by (rule mm_inv_same_rng [OF assms(1,4,5)]) (use assms(2,3,6) in \<open>simp add: same_area_rng\<close>)

lemma expand_nomem:
  assumes "mm_inv mm" and "vmas mm p = Some v" and "dup = None \<or> dup = Some p"
  shows "\<exists>mm'. (case dup of None \<Rightarrow> Some mm | Some d \<Rightarrow> unlink_anon_vmas env d mm) = Some mm'
    \<and> mm_inv mm' \<and> only_areas mm mm' \<and> (\<exists>v'. same_area v v' \<and> vmas mm' = (vmas mm)(p \<mapsto> v'))"
proof (cases dup)
  case None
  then show ?thesis
    using assms(1,2) by (auto intro!: exI [of _ v] simp: fun_upd_idem)
next
  case (Some d)
  then have d: "d = p" using assms(3) by simp
  obtain v' cs where "unlink_anon_vmas env p mm = Some (mm\<lparr>vmas := (vmas mm)(p \<mapsto> v'), mm_calls := cs\<rparr>)"
      "same_area v v'"
    using unlink_anon_vmas_Some [OF assms(2), of env] by blast
  then show ?thesis
    using Some d mm_inv_same_area [OF assms(1,2), of v'] by auto
qed

lemma expand_store:
  assumes "vmas mm p = Some v" and "\<And>i. vp_insert vp = Some i \<Longrightarrow> vmas mm i \<noteq> None"
    and v'_def: "v' = v\<lparr>vm_start := start, vm_end := hi, vm_pgoff := pgoff\<rparr>"
  shows "\<exists>mm2 mm3. vma_prepare vp mm = Some mm2 \<and> vmas mm2 p = Some v
    \<and> vma_iter_store p (put_vma p v' mm2) = Some mm3 \<and> mm_mt mm3 = mt_store start hi p (mm_mt mm)
    \<and> vmas mm3 = (vmas mm)(p \<mapsto> v') \<and> map_count mm3 = map_count mm \<and> only_areas mm mm3"
proof -
  obtain mm2 where "vma_prepare vp mm = Some mm2" "mm_mt mm2 = mm_mt mm" "vmas mm2 = vmas mm"
      "map_count mm2 = map_count mm" "only_areas mm mm2"
    using vma_prepare_steps [of vp mm, OF assms(2)] by (rule steps_toE)
  then show ?thesis
    using assms(1) by (simp add: v'_def mm_state)
qed

lemma vma_expand_commit_spec:
  assumes inv: "mm_inv mm" and v: "vmas mm p = Some v"
    and room: "start \<le> vm_start v" "vm_end v \<le> end"
    and al: "offset_in_page start = 0" "offset_in_page end = 0"
    and D: "D = set_option remove" "p \<notin> D" "D \<subseteq> dom (vmas mm)" and dup: "dup = None \<or> dup = Some p"
    and inside: "\<And>q w. q \<in> D \<Longrightarrow> vmas mm q = Some w \<Longrightarrow> start \<le> vm_start w \<and> vm_end w \<le> end"
    and outside: "\<And>q w. q \<notin> D \<Longrightarrow> q \<noteq> p \<Longrightarrow> vmas mm q = Some w \<Longrightarrow> vm_end w \<le> start \<or> end \<le> vm_start w"
  shows "\<exists>r mm'. vma_expand_commit env p start end pgoff remove dup mm = Some (r, mm')
    \<and> expands mm p v start end pgoff D r mm'"
proof -
  obtain vp where vp: "init_multi_vma_prep p None remove None mm = Some vp" "vp_insert vp = None"
      "vp_remove vp = remove" "vp_remove2 vp = None"
    using init_multi_vma_prep_Some [OF v, of None remove None] by auto
  show ?thesis
  proof (cases "prealloc_fails env mm")
    case True
    then show ?thesis
      using expand_nomem [OF inv v dup, of env] vp(1) by (auto simp: vma_expand_commit_def expands_def)
  next
    case False
    let ?v' = "v\<lparr>vm_start := start, vm_end := end, vm_pgoff := pgoff\<rparr>"
    obtain mm2 mm3 where mm2: "vma_prepare vp mm = Some mm2" "vmas mm2 p = Some v"
      and mm3: "vma_iter_store p (put_vma p ?v' mm2) = Some mm3" "mm_mt mm3 = mt_store start end p (mm_mt mm)"
        "vmas mm3 = (vmas mm)(p \<mapsto> ?v')" "map_count mm3 = map_count mm" "only_areas mm mm3"
      using expand_store [where start = start and pgoff = pgoff and vp = vp and hi = "end", OF v _ refl] vp(2) by auto
    have "steps_to mm3 (vma_complete vp mm3) (mm_mt mm3) ((vmas mm |` (- D))(p \<mapsto> ?v')) (map_count mm - int (card D))"
    proof (cases remove)
      case None
      then show ?thesis
        using vma_complete_plain [of vp mm3] vp mm3(3,4) D(1) by (simp add: restrict_map_def)
    next
      case (Some n)
      then have n: "n \<noteq> p" "n \<in> dom (vmas mm)" "D = {n}"
        using D by auto
      then have "(vmas mm3)(n := None) = (vmas mm |` (- D))(p \<mapsto> ?v')"
        using mm3(3) by (auto simp: fun_eq_iff restrict_map_def)
      moreover obtain w where "vmas mm3 n = Some w"
        using n mm3(3) by auto
      ultimately show ?thesis
        using vma_complete_remove [of vp n mm3 w] vp mm3(4) Some n(3) by simp
    qed
    then obtain mm4 where mm4: "vma_complete vp mm3 = Some mm4" "mm_mt mm4 = mt_store start end p (mm_mt mm)"
        "vmas mm4 = (vmas mm |` (- D))(p \<mapsto> ?v')" "map_count mm4 = map_count mm - int (card D)" "only_areas mm3 mm4"
      using mm3(2) by (auto elim: steps_toE)
    have "vma_expand_commit env p start end pgoff remove dup mm = Some (0, mm4)"
      using vp(1) False mm2 mm3(1) mm4(1) by (simp add: vma_expand_commit_def)
    moreover have "mm_inv mm4"
      by (rule mm_inv_expanded [OF inv v _ room al D(2,3) inside outside mm4(2-4)]) (simp_all add: rng_def)
    ultimately show ?thesis
      using expands_success [OF _ only_areas_trans [OF mm3(5) mm4(5)] same_area_refl mm4(3)] by blast
  qed
qed

text \<open>The area that an expansion to \<open>end\<close> swallows.\<close>

definition swallowed :: "vma_ptr \<Rightarrow> u64 \<Rightarrow> vma_ptr option \<Rightarrow> mm_struct \<Rightarrow> vma_ptr option" where
  "swallowed p end next mm = (case next of None \<Rightarrow> None
     | Some n \<Rightarrow> if p \<noteq> n \<and> map_option vm_end (vmas mm n) = Some end then Some n else None)"

lemma vma_expand_spec:
  assumes inv: "mm_inv mm" and v: "vmas mm p = Some v"
    and room: "start \<le> vm_start v" "vm_end v \<le> end"
    and al: "offset_in_page start = 0" "offset_in_page end = 0"
    and nxt: "\<And>n. next = Some n \<Longrightarrow> vmas mm n \<noteq> None"
    and inside: "\<And>q w. swallowed p end next mm = Some q \<Longrightarrow> vmas mm q = Some w \<Longrightarrow> start \<le> vm_start w"
    and outside: "\<And>q w. swallowed p end next mm \<noteq> Some q \<Longrightarrow> q \<noteq> p \<Longrightarrow> vmas mm q = Some w \<Longrightarrow>
      vm_end w \<le> start \<or> end \<le> vm_start w"
  shows "\<exists>r mm'. vma_expand env p start end pgoff next mm = Some (r, mm')
    \<and> expands mm p v start end pgoff (set_option (swallowed p end next mm)) r mm'"
proof -
  let ?r = "swallowed p end next mm"
  have rem: "(case next of None \<Rightarrow> Some None
      | Some n \<Rightarrow> do { nv \<leftarrow> vmas mm n; Some (if p \<noteq> n \<and> end = vm_end nv then Some n else None) }) = Some ?r"
    using nxt by (cases "next") (auto simp: swallowed_def)
  have sw: "n \<noteq> p \<and> (\<exists>w. vmas mm n = Some w \<and> vm_end w = end)" if "?r = Some n" for n
    using that by (auto simp: swallowed_def split: option.splits if_splits)
  obtain ret dup v1 where dup: "(case ?r of Some n \<Rightarrow> dup_anon_vma env p n mm | None \<Rightarrow> Some (0, None, mm))
      = Some (ret, dup, mm\<lparr>vmas := (vmas mm)(p \<mapsto> v1)\<rparr>)" "same_area v v1" "dup = None \<or> dup = Some p"
  proof (cases ?r)
    case (Some n)
    then obtain w where w: "vmas mm n = Some w"
      using sw by blast
    show ?thesis
      using dup_anon_vma_Some [OF v w, of env] Some that by auto
  next
    case None
    then show ?thesis
      using that [of 0 None v] v by (simp add: fun_upd_idem)
  qed
  let ?mm1 = "mm\<lparr>vmas := (vmas mm)(p \<mapsto> v1)\<rparr>"
  have inv1: "mm_inv ?mm1"
    by (rule mm_inv_same_area [OF inv v dup(2)]) simp_all
  show ?thesis
  proof (cases "ret = 0")
    case False
    then show ?thesis
      using rem dup inv1 by (auto simp: vma_expand_def expands_def)
  next
    case True
    have "\<exists>r mm'. vma_expand_commit env p start end pgoff ?r dup ?mm1 = Some (r, mm')
        \<and> expands ?mm1 p v1 start end pgoff (set_option ?r) r mm'"
    proof (rule vma_expand_commit_spec [OF inv1 _ _ _ al refl _ _ dup(3)])
      show "vm_end w \<le> start \<or> end \<le> vm_start w"
        if "q \<notin> set_option ?r" "q \<noteq> p" "vmas ?mm1 q = Some w" for q w
        using outside [of q w] that by auto
    qed (use room sw inside same_area_fields [OF dup(2)] in auto)
    then obtain r mm' where res: "vma_expand_commit env p start end pgoff ?r dup ?mm1 = Some (r, mm')"
      and ex: "expands ?mm1 p v1 start end pgoff (set_option ?r) r mm'"
      by blast
    have "vma_expand env p start end pgoff next mm = Some (r, mm')"
      unfolding vma_expand_def rem bind.bind_lunit dup(1) using True res by simp
    then show ?thesis
      using expands_anon [OF ex dup(2)] by blast
  qed
qed

section \<open>Inserting\<close>

lemma mm_inv_inserted:
  assumes inv: "mm_inv mm" and new: "vmas mm p = None" and v: "rng v = (a, b)" "a < b"
    and al: "offset_in_page a = 0" "offset_in_page b = 0"
    and outside: "\<And>q w. vmas mm q = Some w \<Longrightarrow> vm_end w \<le> a \<or> b \<le> vm_start w"
    and mm': "mm_mt mm' = mt_store a b p (mm_mt mm)" "vmas mm' = (vmas mm)(p \<mapsto> v)"
      "map_count mm' = map_count mm + 1"
  shows "mm_inv mm'"
proof -
  have t: "mt_ok (mm_mt mm)" "set (mm_mt mm) = entries (vmas mm)"
    using inv by (simp_all add: mm_inv_def)
  have "mt_ok (mm_mt mm')"
    unfolding mm'(1) by (rule mt_ok_store [OF t(1) v(2)])
  moreover have "set (mm_mt mm') = entries (vmas mm')"
    unfolding mm'(1)
  proof (rule store_entries(2) [OF t v(2), of "vmas mm'" p v])
    show "vmas mm' p = Some v" by (simp add: mm'(2))
    show "rng v = (a, b)" by (rule v(1))
    show "map_option rng (vmas mm q) = Some (rng w) \<and> (vm_end w \<le> a \<or> b \<le> vm_start w)"
      if "q \<noteq> p" "vmas mm' q = Some w" for q w
      using that outside by (simp add: mm'(2))
    show "a \<le> vm_start w \<and> vm_end w \<le> b" if "vmas mm q = Some w" "q = p \<or> vmas mm' q = None" for q w
      using that new by (auto simp: mm'(2) split: if_splits)
  qed
  moreover have "card (dom (vmas mm')) = Suc (card (dom (vmas mm)))"
    using new mm_inv_finite [OF inv] by (simp add: mm'(2) card_insert_if domIff)
  moreover have "aligned_areas (vmas mm')"
    using mm_inv_aligned [OF inv] v(1) al by (auto simp: aligned_areas_def mm'(2) rng_def)
  ultimately show ?thesis
    using mm'(3) inv by (simp add: mm_inv_def)
qed

text \<open>\<open>vma_link\<close> takes an area that exists but is not in the tree.\<close>

lemma vma_link_spec:
  assumes inv: "mm_inv (vm_area_free p mm)" and v: "vmas mm p = Some v" "vm_start v < vm_end v"
    and al: "offset_in_page (vm_start v) = 0" "offset_in_page (vm_end v) = 0"
    and outside: "\<And>q w. q \<noteq> p \<Longrightarrow> vmas mm q = Some w \<Longrightarrow> vm_end w \<le> vm_start v \<or> vm_end v \<le> vm_start w"
  shows "\<exists>r mm'. vma_link env p mm = Some (r, mm') \<and> only_areas mm mm' \<and> vmas mm' = vmas mm
    \<and> (if r = 0 then mm_inv mm' else r = - ENOMEM \<and> mm' = mm)"
proof (cases "prealloc_fails env mm")
  case True
  then show ?thesis
    using v by (simp add: vma_link_def)
next
  case False
  have stp: "steps_to mm (map_option snd (vma_link env p mm)) (mt_store (vm_start v) (vm_end v) p (mm_mt mm)) (vmas mm)
      (map_count mm + 1)" and st: "map_option fst (vma_link env p mm) = Some 0"
    using False v(1) by (auto simp: steps_to_def vma_link_def mm_state split: option.splits)
  from stp obtain mm' where mm': "map_option snd (vma_link env p mm) = Some mm'"
      "mm_mt mm' = mt_store (vm_start v) (vm_end v) p (mm_mt mm)" "vmas mm' = vmas mm"
      "map_count mm' = map_count mm + 1" "only_areas mm mm'"
    by (rule steps_toE)
  have "vma_link env p mm = Some (0, mm')"
    using mm'(1) st by (cases "vma_link env p mm") auto
  moreover have "mm_inv mm'"
  proof (rule mm_inv_inserted [OF inv, of p v "vm_start v" "vm_end v"])
    show "vm_end w \<le> vm_start v \<or> vm_end v \<le> vm_start w" if "vmas (vm_area_free p mm) q = Some w" for q w
      using that outside by (auto simp: vm_area_free_def split: if_splits)
  qed (use v al mm' in \<open>auto simp: vm_area_free_def rng_def fun_upd_idem\<close>)
  ultimately show ?thesis
    using mm' by auto
qed

section \<open>Splitting\<close>

lemma mm_inv_split:
  assumes inv: "mm_inv mm" and f: "vmas mm p = Some v" "vmas mm new = None"
    and g: "rng nv = (a, b)" "rng v' = (c, d)"
    and parts: "a < b" "c < d"
      "(a = vm_start v \<and> b = c \<and> d = vm_end v) \<or> (c = vm_start v \<and> d = a \<and> b = vm_end v)"
    and al: "offset_in_page a = 0" "offset_in_page b = 0" "offset_in_page c = 0" "offset_in_page d = 0"
    and mm': "mm_mt mm' = mt_store a b new (mm_mt mm)" "vmas mm' = (vmas mm)(new \<mapsto> nv, p \<mapsto> v')"
      "map_count mm' = map_count mm + 1"
  shows "mm_inv mm'"
proof -
  have t: "mt_ok (mm_mt mm)" "set (mm_mt mm) = entries (vmas mm)"
    using inv by (simp_all add: mm_inv_def)
  have ne: "new \<noteq> p"
    using f by auto
  have "mt_ok (mm_mt mm')"
    unfolding mm'(1) by (rule mt_ok_store [OF t(1) parts(1)])
  moreover have "set (mm_mt mm') = entries (vmas mm')"
    unfolding mm'(1) by (rule split_entries(2) [OF t f _ g(1) _ g(2) _ parts]) (simp_all add: mm'(2) ne)
  moreover have "card (dom (vmas mm')) = Suc (card (dom (vmas mm)))"
  proof -
    have "dom (vmas mm') = insert new (dom (vmas mm))"
      using f(1) by (auto simp: mm'(2))
    then show ?thesis
      using f(2) mm_inv_finite [OF inv] by (simp add: domIff)
  qed
  moreover have "aligned_areas (vmas mm')"
    using mm_inv_aligned [OF inv] g al by (auto simp: aligned_areas_def mm'(2) rng_def)
  ultimately show ?thesis
    using mm'(3) inv by (simp add: mm_inv_def)
qed

text \<open>
  A successful split: the area keeps one side of \<open>addr\<close>, a new area with the same attributes
  has the other, and page offsets continue across the cut.
\<close>

definition splits_at :: "mm_struct \<Rightarrow> vma_ptr \<Rightarrow> vm_area_struct \<Rightarrow> u64 \<Rightarrow> bool \<Rightarrow> mm_struct \<Rightarrow> bool" where
  "splits_at mm p v addr new_below mm' \<longleftrightarrow> (\<exists>new pol av ch. vmas mm new = None \<and>
     (let shift = vm_pgoff v + drop_bit PAGE_SHIFT (addr - vm_start v);
          lower = v\<lparr>vm_end := addr\<rparr>;
          upper = v\<lparr>vm_start := addr, vm_pgoff := shift\<rparr>;
          fresh = (\<lambda>w. w\<lparr>vm_policy := pol, anon_vma := av, anon_vma_chain := ch\<rparr>)
      in vmas mm' = (if new_below then (vmas mm)(new \<mapsto> fresh lower, p \<mapsto> upper)
                     else (vmas mm)(new \<mapsto> fresh upper, p \<mapsto> lower))))"

definition alloc_fresh :: "mmap_env \<Rightarrow> bool" where
  "alloc_fresh env \<longleftrightarrow> (\<forall>mm p. vm_area_alloc env mm = Some p \<longrightarrow> vmas mm p = None)"

lemma free_put [simp]: "vmas mm p = None \<Longrightarrow> vm_area_free p (put_vma p v mm) = mm"
  by (simp add: vm_area_free_def put_vma_def fun_upd_idem)

lemma split_commit:
  assumes inv: "mm_inv mm" and v: "vmas mm p = Some v" "vmas mm new = None"
    and at: "vm_start v < addr" "addr < vm_end v" "offset_in_page addr = 0"
    and mm2: "mm_mt mm2 = mm_mt mm" "vmas mm2 = (vmas mm)(new \<mapsto> nv)" "map_count mm2 = map_count mm" "only_areas mm mm2"
    and nv: "rng nv = (if new_below then (vm_start v, addr) else (addr, vm_end v))"
    and v': "rng v' = (if new_below then (addr, vm_end v) else (vm_start v, addr))"
  shows "\<exists>vp0 mm3 mm4. init_vma_prep p mm2 = Some vp0 \<and> vma_prepare (vp0\<lparr>vp_insert := Some new\<rparr>) mm2 = Some mm3
    \<and> vma_complete (vp0\<lparr>vp_insert := Some new\<rparr>) (put_vma p v' mm3) = Some mm4
    \<and> mm_inv mm4 \<and> only_areas mm mm4 \<and> vmas mm4 = (vmas mm)(new \<mapsto> nv, p \<mapsto> v')"
proof -
  have ne: "new \<noteq> p"
    using v by auto
  obtain vp0 where vp0: "init_vma_prep p mm2 = Some vp0" "vp_remove vp0 = None"
    using init_multi_vma_prep_Some [of mm2 p v None None None] v(1) ne mm2(2)
    by (auto simp: init_vma_prep_def)
  let ?vp = "vp0\<lparr>vp_insert := Some new\<rparr>"
  have "steps_to mm2 (vma_prepare ?vp mm2) (mm_mt mm2) (vmas mm2) (map_count mm2)"
    by (rule vma_prepare_steps) (simp add: mm2(2))
  then obtain mm3 where mm3: "vma_prepare ?vp mm2 = Some mm3" "mm_mt mm3 = mm_mt mm2" "vmas mm3 = vmas mm2"
      "map_count mm3 = map_count mm2" "only_areas mm2 mm3"
    by (rule steps_toE)
  let ?mm3 = "put_vma p v' mm3"
  have "steps_to ?mm3 (vma_complete ?vp ?mm3) (mt_store (vm_start nv) (vm_end nv) new (mm_mt ?mm3)) (vmas ?mm3)
      (map_count ?mm3 + 1)"
    by (rule vma_complete_insert) (simp_all add: vp0(2) put_vma_def mm3(3) mm2(2) ne)
  then obtain mm4 where mm4: "vma_complete ?vp ?mm3 = Some mm4"
      "mm_mt mm4 = mt_store (vm_start nv) (vm_end nv) new (mm_mt mm)" "vmas mm4 = (vmas mm)(new \<mapsto> nv, p \<mapsto> v')"
      "map_count mm4 = map_count mm + 1" "only_areas ?mm3 mm4"
    by (rule steps_toE) (simp add: put_vma_def mm3 mm2)
  have "mm_inv mm4"
  proof (rule mm_inv_split [OF inv v _ _ _ _ _ _ _ _ _ mm4(2-4)])
    show "rng nv = (vm_start nv, vm_end nv)" "rng v' = (vm_start v', vm_end v')"
      by (simp_all add: rng_def)
  qed (use nv v' at mm_inv_aligned [OF inv v(1)] in \<open>auto simp: rng_def split: if_splits\<close>)
  moreover have "only_areas mm mm4"
    using mm2(4) mm3(5) mm4(5) by (simp add: only_areas_def other_fields_def put_vma_def)
  ultimately show ?thesis
    using vp0(1) mm3(1) mm4(1,3) by blast
qed

lemma split_vma_commit_spec:
  assumes inv: "mm_inv mm" and v: "vmas mm p = Some v" "vmas mm new = None"
    and at: "vm_start v < addr" "addr < vm_end v" "offset_in_page addr = 0"
    and nv: "rng nv = (if new_below then (vm_start v, addr) else (addr, vm_end v))"
    and v'_def: "v' = (if new_below
      then v\<lparr>vm_start := addr, vm_pgoff := vm_pgoff v + drop_bit 12 (addr - vm_start v)\<rparr> else v\<lparr>vm_end := addr\<rparr>)"
  shows "\<exists>mm'. split_vma_commit env p v addr new_below new nv (put_vma new nv0 mm) = Some (0, mm')
    \<and> mm_inv mm' \<and> only_areas mm mm' \<and> vmas mm' = (vmas mm)(new \<mapsto> nv, p \<mapsto> v')"
proof -
  let ?mm1 = "put_vma new nv (put_vma new nv0 mm)"
  let ?mm2 = "case vm_file nv of None \<Rightarrow> ?mm1 | Some file \<Rightarrow> log_calls [GetFile file] ?mm1"
  let ?mm3 = "case vm_ops nv of None \<Rightarrow> ?mm2
    | Some ops \<Rightarrow> if ops_open env ops then log_calls [VmOpsOpen new] ?mm2 else ?mm2"
  have st: "mm_mt ?mm3 = mm_mt mm" "vmas ?mm3 = (vmas mm)(new \<mapsto> nv)" "map_count ?mm3 = map_count mm"
      "only_areas mm ?mm3"
    by (auto simp: mm_state split: option.splits)
  have v': "rng v' = (if new_below then (addr, vm_end v) else (vm_start v, addr))"
    by (simp add: v'_def rng_def)
  have "v' = (if new_below
      then v\<lparr>vm_start := addr, vm_pgoff := vm_pgoff v + drop_bit 12 (addr - vm_start nv)\<rparr> else v\<lparr>vm_end := addr\<rparr>)"
    using nv by (cases new_below) (simp_all add: v'_def rng_def)
  then show ?thesis
    using split_commit [OF inv v at st nv v'] unfolding split_vma_commit_def Let_def by auto
qed

lemma log_calls_Nil [simp]: "log_calls [] mm = mm"
  by (simp add: log_calls_def)

lemma free_log_put [simp]:
  "vmas mm p = None \<Longrightarrow> vm_area_free p (log_calls cs (put_vma p v mm)) = log_calls cs mm"
  by (simp add: vm_area_free_def log_calls_def put_vma_def fun_upd_idem)

text \<open>A split that fails has changed nothing but the calls it made.\<close>

lemma split_vma_spec:
  assumes inv: "mm_inv mm" and v: "vmas mm p = Some v" and fresh: "alloc_fresh env"
    and at: "vm_start v < addr" "addr < vm_end v" "offset_in_page addr = 0"
  shows "\<exists>r mm'. split_vma_nocheck env p addr new_below mm = Some (r, mm')
    \<and> (if r = 0 then mm_inv mm' \<and> only_areas mm mm' \<and> splits_at mm p v addr new_below mm'
       else \<exists>cs. mm' = log_calls cs mm)"
proof (cases "(case vm_ops v of None \<Rightarrow> 0 | Some ops \<Rightarrow> ops_may_split env ops addr) = 0")
  case False
  then show ?thesis
    using v by (auto simp: split_vma_nocheck_def intro!: exI [of _ "[]"])
next
  case may: True
  show ?thesis
  proof (cases "vm_area_alloc env mm")
    case None
    then show ?thesis
      using v may by (auto simp: split_vma_nocheck_def intro!: exI [of _ "[]"])
  next
    case (Some new)
    then have new: "vmas mm new = None"
      using fresh by (simp add: alloc_fresh_def)
    let ?up = "v\<lparr>vm_start := addr, vm_pgoff := vm_pgoff v + drop_bit 12 (addr - vm_start v)\<rparr>"
    let ?lo = "v\<lparr>vm_end := addr\<rparr>"
    let ?nv = "if new_below then ?lo else ?up"
    obtain perr pol where pol: "mpol_dup env (vm_policy v) = (perr, pol)"
      by fastforce
    obtain aerr av ch where cl: "anon_vma_clone env (?nv\<lparr>vm_policy := pol\<rparr>) v = (aerr, av, ch)"
      by (cases "anon_vma_clone env (?nv\<lparr>vm_policy := pol\<rparr>) v") auto
    let ?new = "?nv\<lparr>vm_policy := pol, anon_vma := av, anon_vma_chain := ch\<rparr>"
    have res: "split_vma_nocheck env p addr new_below mm =
        (if prealloc_fails env (put_vma new ?nv mm) then Some (- ENOMEM, mm)
         else if perr \<noteq> 0 then Some (perr, mm)
         else if aerr \<noteq> 0 then Some (aerr, log_calls [MpolPut pol] mm)
         else split_vma_commit env p v addr new_below new ?new (put_vma new ?nv mm))"
      using v may Some new pol cl by (simp add: split_vma_nocheck_def Let_def)
    have "rng ?new = (if new_below then (vm_start v, addr) else (addr, vm_end v))"
      by (simp add: rng_def)
    then obtain mm' where mm': "split_vma_commit env p v addr new_below new ?new (put_vma new ?nv mm) = Some (0, mm')"
        "mm_inv mm'" "only_areas mm mm'" "vmas mm' = (vmas mm)(new \<mapsto> ?new, p \<mapsto> (if new_below then ?up else ?lo))"
      using split_vma_commit_spec [OF inv v new at _ refl, of ?new new_below env ?nv] by auto
    then have "splits_at mm p v addr new_below mm'"
      unfolding splits_at_def Let_def using new
      by (intro exI [of _ new] exI [of _ pol] exI [of _ av] exI [of _ ch]) simp
    then show ?thesis
      unfolding res using mm' by (auto intro: exI [of _ "[]"])
  qed
qed

end
