(* ===== verification/Vma_View.thy ===== *)
theory Vma_View
  imports Vma_Ops
begin

text \<open>
  What an address space promises to its process, apart from how it is cut into areas: for
  every address, whether it is mapped and with which attributes, and how many pages are
  mapped in all. The operations of \<open>mm/mmap.c\<close> are specified against this view.
\<close>

section \<open>The view\<close>

text \<open>
  What the pages of an area have in common: the flags that merging compares (soft-dirty
  tracking and locking apart), the file, the userfaultfd context and the name. The page offset
  of an address \<open>a\<close> is \<open>pk_base + (a >> PAGE_SHIFT)\<close>.
\<close>

record page_kind =
  pk_flags :: u64
  pk_file :: "nat option"
  pk_base :: u64
  pk_uffd :: "nat option"
  pk_name :: "string option"

definition kind_flags :: "u64 \<Rightarrow> u64" where
  "kind_flags flags = flags AND NOT (VM_SOFTDIRTY OR VM_LOCKED_MASK)"

definition kind :: "vm_area_struct \<Rightarrow> page_kind" where
  "kind v = \<lparr>pk_flags = kind_flags (vm_flags v), pk_file = vm_file v,
     pk_base = vm_pgoff v - drop_bit PAGE_SHIFT (vm_start v),
     pk_uffd = vm_userfaultfd_ctx v, pk_name = anon_name v\<rparr>"

definition mm_view :: "mm_struct \<Rightarrow> u64 \<Rightarrow> page_kind option" where
  "mm_view mm a = do { p \<leftarrow> vma_lookup mm a; v \<leftarrow> vmas mm p; Some (kind v) }"

definition covers :: "(vma_ptr \<rightharpoonup> vm_area_struct) \<Rightarrow> u64 \<Rightarrow> page_kind \<Rightarrow> bool" where
  "covers f a x \<longleftrightarrow> (\<exists>p v. f p = Some v \<and> vm_start v \<le> a \<and> a < vm_end v \<and> x = kind v)"

definition area_has :: "vm_area_struct \<Rightarrow> u64 \<Rightarrow> page_kind \<Rightarrow> bool" where
  "area_has v a x \<longleftrightarrow> vm_start v \<le> a \<and> a < vm_end v \<and> x = kind v"

lemma covers_update: "covers (f(p \<mapsto> v)) a x \<longleftrightarrow> area_has v a x \<or> covers (f(p := None)) a x"
  unfolding covers_def area_has_def [symmetric] by (auto split: if_splits)

lemma covers_remove: "f p = Some v \<Longrightarrow> covers f a x \<longleftrightarrow> area_has v a x \<or> covers (f(p := None)) a x"
  using covers_update [of f p v] by (simp add: fun_upd_idem)

lemma vma_lookup_iff:
  assumes inv: "mm_inv mm"
  shows "vma_lookup mm a = Some p \<longleftrightarrow> (\<exists>v. vmas mm p = Some v \<and> vm_start v \<le> a \<and> a < vm_end v)"
proof -
  have ok: "mt_ok (mm_mt mm)" and ent: "set (mm_mt mm) = entries (vmas mm)"
    using inv by (simp_all add: mm_inv_def)
  show ?thesis
    unfolding vma_lookup_def mt_walk_eq_Some [OF ok] ent by (force simp: entries_def)
qed

lemma mm_view_iff:
  assumes inv: "mm_inv mm"
  shows "mm_view mm a = Some x \<longleftrightarrow> covers (vmas mm) a x"
proof -
  have "mm_view mm a = Some x
      \<longleftrightarrow> (\<exists>p v. vma_lookup mm a = Some p \<and> vmas mm p = Some v \<and> x = kind v)"
    unfolding mm_view_def by (auto split: bind_splits)
  then show ?thesis
    unfolding vma_lookup_iff [OF inv] covers_def by fastforce
qed

lemma mm_view_None:
  "mm_inv mm \<Longrightarrow> mm_view mm a = None \<longleftrightarrow> (\<forall>x. \<not> covers (vmas mm) a x)"
  using mm_view_iff [of mm a] by (metis not_None_eq)

lemma mm_view_eqI:
  assumes "mm_inv mm" and "mm_inv mm'" and "\<And>x. covers (vmas mm') a x \<longleftrightarrow> covers (vmas mm) a x"
  shows "mm_view mm' a = mm_view mm a"
  using assms by (metis mm_view_iff not_None_eq)

lemma mm_view_log [simp]: "mm_view (log_calls cs mm) = mm_view mm"
  by (auto simp: mm_view_def vma_lookup_def log_calls_def)

lemma mm_inv_log [simp]: "mm_inv (log_calls cs mm) = mm_inv mm"
  by (simp add: mm_inv_def log_calls_def)

section \<open>Page arithmetic\<close>

lemma drop_page_diff:
  assumes "offset_in_page b = 0" and "b \<le> a"
  shows "drop_bit 12 (a - b) = drop_bit 12 a - drop_bit 12 (b :: u64)"
proof -
  obtain i where i: "unat b = 4096 * i"
    using assms(1) page_aligned_obtain by metis
  have le: "unat b \<le> unat a"
    using assms(2) by (simp add: word_le_nat_alt)
  then have "i \<le> unat a div 4096"
    using i by (simp add: less_eq_div_iff_mult_less_eq mult.commute)
  have "drop_bit 12 b \<le> drop_bit 12 a"
    unfolding word_le_nat_alt unat_drop_page using le by (rule div_le_mono)
  then have "unat (drop_bit 12 a - drop_bit 12 b) = unat a div 4096 - i"
    using i by (simp add: unat_sub unat_drop_page)
  moreover have "unat (drop_bit 12 (a - b)) = (unat a - 4096 * i) div 4096"
    using assms(2) i by (simp add: unat_drop_page unat_sub)
  moreover have "(unat a - 4096 * i) div 4096 = unat a div 4096 - i"
    using div_mult_self4 [of 4096 i "unat a - 4096 * i"] le i by simp
  ultimately show ?thesis
    by (simp only: word_unat_eq_iff)
qed

lemma kind_upper:
  assumes "offset_in_page (vm_start v) = 0" and "vm_start v \<le> addr"
  shows "kind (v\<lparr>vm_start := addr, vm_pgoff := vm_pgoff v + drop_bit 12 (addr - vm_start v)\<rparr>) = kind v"
  using drop_page_diff [OF assms] by (simp add: kind_def)

lemma vma_pages_diff:
  assumes "offset_in_page (vm_start v) = 0" and "vm_start v \<le> vm_end v"
  shows "vma_pages v = drop_bit 12 (vm_end v) - drop_bit 12 (vm_start v)"
  using drop_page_diff [OF assms] by (simp add: vma_pages_def)

section \<open>Mapped pages\<close>

text \<open>The number of mapped pages as the counters keep it, a 64-bit sum over the areas.\<close>

definition pages_of :: "(vma_ptr \<rightharpoonup> vm_area_struct) \<Rightarrow> u64" where
  "pages_of f = (\<Sum>p \<in> dom f. vma_pages (the (f p)))"

definition area_pages :: "vm_area_struct option \<Rightarrow> u64" where
  "area_pages x = (case x of None \<Rightarrow> 0 | Some v \<Rightarrow> vma_pages v)"

lemma area_pages_simps [simp]: "area_pages None = 0" "area_pages (Some v) = vma_pages v"
  by (simp_all add: area_pages_def)

lemma pages_of_remove: "finite (dom f) \<Longrightarrow> pages_of (f(p := None)) = pages_of f - area_pages (f p)"
proof -
  assume fin: "finite (dom f)"
  show ?thesis
  proof (cases "f p")
    case None
    then have "f(p := None) = f"
      by (simp add: fun_upd_idem)
    with None show ?thesis by simp
  next
    case (Some v)
    then have "pages_of f = vma_pages v + (\<Sum>q \<in> dom f - {p}. vma_pages (the (f q)))"
      unfolding pages_of_def using sum.remove [OF fin, of p "\<lambda>q. vma_pages (the (f q))"] by (simp add: domI)
    moreover have "pages_of (f(p := None)) = (\<Sum>q \<in> dom f - {p}. vma_pages (the (f q)))"
      unfolding pages_of_def by (rule sum.cong) auto
    ultimately show ?thesis
      using Some by simp
  qed
qed

lemma pages_of_update:
  "finite (dom f) \<Longrightarrow> pages_of (f(p \<mapsto> v)) = pages_of f - area_pages (f p) + vma_pages v"
proof -
  assume fin: "finite (dom f)"
  have "pages_of (f(p \<mapsto> v)) = vma_pages v + (\<Sum>q \<in> dom f - {p}. vma_pages (the ((f(p \<mapsto> v)) q)))"
    unfolding pages_of_def using fin sum.remove [of "dom (f(p \<mapsto> v))" p "\<lambda>q. vma_pages (the ((f(p \<mapsto> v)) q))"] by simp
  moreover have "(\<Sum>q \<in> dom f - {p}. vma_pages (the ((f(p \<mapsto> v)) q))) = pages_of (f(p := None))"
    unfolding pages_of_def by (rule sum.cong) auto
  ultimately show ?thesis
    using pages_of_remove [OF fin, of p] by simp
qed

lemma vma_pages_cong: "rng w = rng v \<Longrightarrow> vma_pages w = vma_pages v"
  by (simp add: vma_pages_def rng_def)

text \<open>An address space in order: the areas are consistent, and \<open>total_vm\<close> counts their pages.\<close>

definition mm_ok :: "mm_struct \<Rightarrow> bool" where
  "mm_ok mm \<longleftrightarrow> mm_inv mm \<and> total_vm mm = pages_of (vmas mm)"

lemma mm_okI: "mm_inv mm \<Longrightarrow> total_vm mm = pages_of (vmas mm) \<Longrightarrow> mm_ok mm"
  by (simp add: mm_ok_def)

lemma mm_ok_inv: "mm_ok mm \<Longrightarrow> mm_inv mm"
  by (simp add: mm_ok_def)

lemma mm_ok_log [simp]: "mm_ok (log_calls cs mm) = mm_ok mm"
  by (simp add: mm_ok_def) (simp add: log_calls_def)

text \<open>The same count, seen from the process: the mapped page addresses.\<close>

definition page_range :: "u64 \<Rightarrow> u64 \<Rightarrow> u64 set" where
  "page_range b c = {a. offset_in_page a = 0 \<and> b \<le> a \<and> a < c}"

definition mapped_pages :: "mm_struct \<Rightarrow> u64 set" where
  "mapped_pages mm = {a. offset_in_page a = 0 \<and> mm_view mm a \<noteq> None}"

lemma card_page_range:
  assumes "offset_in_page b = 0" and "offset_in_page c = 0"
  shows "card (page_range b c) = unat c div 4096 - unat b div 4096"
proof -
  obtain i j where i: "unat b = 4096 * i" and j: "unat c = 4096 * j" "j < 2 ^ 52"
    using assms page_aligned_obtain by metis
  have u: "unat (of_nat (4096 * n) :: u64) = 4096 * n" if "n < j" for n
  proof -
    have "4096 * n < 2 ^ 64"
      using that j(2) by simp
    then show ?thesis
      by (simp only: unsigned_of_nat) (simp add: take_bit_nat_eq_self)
  qed
  have inj: "inj_on (\<lambda>n. of_nat (4096 * n) :: u64) {i..<j}"
    unfolding inj_on_def word_unat_eq_iff using u by simp
  have "page_range b c = (\<lambda>n. of_nat (4096 * n)) ` {i..<j}"
  proof (rule set_eqI, rule iffI)
    fix a
    assume a: "a \<in> page_range b c"
    then obtain n where n: "unat a = 4096 * n"
      using page_aligned_obtain unfolding page_range_def by blast
    then have "n \<in> {i..<j}"
      using a i j by (simp add: page_range_def word_le_nat_alt word_less_nat_alt)
    moreover have "a = of_nat (4096 * n)"
      unfolding n [symmetric] by simp
    ultimately show "a \<in> (\<lambda>n. of_nat (4096 * n)) ` {i..<j}"
      by blast
  next
    fix a
    assume "a \<in> (\<lambda>n. of_nat (4096 * n) :: u64) ` {i..<j}"
    then obtain n where n: "i \<le> n" "n < j" "a = of_nat (4096 * n)"
      by auto
    then have "unat a = 4096 * n"
      using u by simp
    then show "a \<in> page_range b c"
      using n i j by (simp add: page_range_def word_le_nat_alt word_less_nat_alt page_aligned_iff)
  qed
  then show ?thesis
    using card_image [OF inj] i j by simp
qed

lemma mapped_pages_areas:
  assumes inv: "mm_inv mm"
  shows "mapped_pages mm = (\<Union>p \<in> dom (vmas mm). page_range (vm_start (the (vmas mm p))) (vm_end (the (vmas mm p))))"
proof -
  have "mm_view mm a \<noteq> None \<longleftrightarrow> (\<exists>p v. vmas mm p = Some v \<and> vm_start v \<le> a \<and> a < vm_end v)" for a
    unfolding mm_view_None [OF inv] covers_def by blast
  then show ?thesis
    unfolding mapped_pages_def page_range_def by (auto simp: dom_def) force
qed

text \<open>The counter is the number of mapped pages.\<close>

lemma pages_of_mapped:
  assumes inv: "mm_inv mm"
  shows "pages_of (vmas mm) = of_nat (card (mapped_pages mm))"
proof -
  let ?R = "\<lambda>p. page_range (vm_start (the (vmas mm p))) (vm_end (the (vmas mm p)))"
  have fin: "finite (dom (vmas mm))"
    by (rule mm_inv_finite [OF inv])
  have size: "of_nat (card (?R p)) = vma_pages (the (vmas mm p))" if p: "p \<in> dom (vmas mm)" for p
  proof -
    obtain v where v: "vmas mm p = Some v"
      using p by blast
    have al: "offset_in_page (vm_start v) = 0" "offset_in_page (vm_end v) = 0"
      using mm_inv_aligned [OF inv v] by blast+
    have "drop_bit 12 (vm_start v) \<le> drop_bit 12 (vm_end v)"
      unfolding word_le_nat_alt unat_drop_page using mm_inv_nonempty [OF inv v]
      by (simp add: div_le_mono word_less_nat_alt)
    then have "card (?R p) = unat (vma_pages v)"
      using card_page_range [OF al] vma_pages_diff [OF al(1)] mm_inv_nonempty [OF inv v] v
      by (simp add: unat_sub unat_drop_page)
    then show ?thesis
      using v by simp
  qed
  have "?R p \<inter> ?R q = {}" if pq: "p \<in> dom (vmas mm)" "q \<in> dom (vmas mm)" "p \<noteq> q" for p q
  proof -
    obtain v w where vw: "vmas mm p = Some v" "vmas mm q = Some w"
      using pq by blast
    show ?thesis
      using mm_inv_disjoint [OF inv vw pq(3)] vw by (auto simp: page_range_def)
  qed
  then have "card (mapped_pages mm) = (\<Sum>p \<in> dom (vmas mm). card (?R p))"
    unfolding mapped_pages_areas [OF inv] using fin by (intro card_UN_disjoint) auto
  then show ?thesis
    unfolding pages_of_def using size by simp
qed

lemma mm_ok_iff: "mm_ok mm \<longleftrightarrow> mm_inv mm \<and> total_vm mm = of_nat (card (mapped_pages mm))"
  unfolding mm_ok_def using pages_of_mapped by metis

lemma mm_ok_same_view:
  "mm_ok mm \<Longrightarrow> mm_inv mm' \<Longrightarrow> mm_view mm' = mm_view mm \<Longrightarrow> total_vm mm' = total_vm mm \<Longrightarrow> mm_ok mm'"
  unfolding mm_ok_iff mapped_pages_def by simp

text \<open>Two states that differ at most in their areas and in the counters kept about them.\<close>

definition fixed_fields :: "mm_struct \<Rightarrow> mm_struct" where
  "fixed_fields mm = mm\<lparr>mm_mt := [], vmas := Map.empty, map_count := 0, total_vm := 0, hiwater_vm := 0,
     data_vm := 0, exec_vm := 0, stack_vm := 0, locked_vm := 0, mm_calls := []\<rparr>"

definition only_counts :: "mm_struct \<Rightarrow> mm_struct \<Rightarrow> bool" where
  "only_counts mm mm' \<longleftrightarrow> fixed_fields mm' = fixed_fields mm"

lemma only_counts_refl [simp]: "only_counts mm mm"
  by (simp add: only_counts_def)

lemma only_counts_trans: "only_counts a b \<Longrightarrow> only_counts b c \<Longrightarrow> only_counts a c"
  by (simp add: only_counts_def)

lemma fixed_fields_updates [simp]:
  "fixed_fields (mm\<lparr>mm_mt := t\<rparr>) = fixed_fields mm" "fixed_fields (mm\<lparr>vmas := f\<rparr>) = fixed_fields mm"
  "fixed_fields (mm\<lparr>map_count := i\<rparr>) = fixed_fields mm" "fixed_fields (mm\<lparr>mm_calls := cs\<rparr>) = fixed_fields mm"
  "fixed_fields (mm\<lparr>total_vm := n\<rparr>) = fixed_fields mm" "fixed_fields (mm\<lparr>hiwater_vm := n\<rparr>) = fixed_fields mm"
  "fixed_fields (mm\<lparr>data_vm := n\<rparr>) = fixed_fields mm" "fixed_fields (mm\<lparr>exec_vm := n\<rparr>) = fixed_fields mm"
  "fixed_fields (mm\<lparr>stack_vm := n\<rparr>) = fixed_fields mm" "fixed_fields (mm\<lparr>locked_vm := n\<rparr>) = fixed_fields mm"
  by (simp_all add: fixed_fields_def)

lemma only_areas_counts: "only_areas mm mm' \<Longrightarrow> only_counts mm mm'"
proof -
  assume "only_areas mm mm'"
  then have "fixed_fields (other_fields mm') = fixed_fields (other_fields mm)"
    by (simp add: only_areas_def)
  then show ?thesis
    by (simp add: only_counts_def other_fields_def)
qed

lemma only_counts_fields:
  assumes "only_counts mm mm'"
  shows "def_flags mm' = def_flags mm" "mmap_base mm' = mmap_base mm" "start_brk mm' = start_brk mm"
    "brk mm' = brk mm" "end_data mm' = end_data mm" "start_data mm' = start_data mm"
  using arg_cong [OF assms [unfolded only_counts_def], of def_flags]
    arg_cong [OF assms [unfolded only_counts_def], of mmap_base]
    arg_cong [OF assms [unfolded only_counts_def], of start_brk]
    arg_cong [OF assms [unfolded only_counts_def], of brk]
    arg_cong [OF assms [unfolded only_counts_def], of end_data]
    arg_cong [OF assms [unfolded only_counts_def], of start_data]
  by (simp_all add: fixed_fields_def)

section \<open>Splitting an area changes nothing for the process\<close>

lemma splits_atE:
  assumes "splits_at mm p v addr new_below mm'"
  obtains new lower upper where "vmas mm new = None" "rng lower = (vm_start v, addr)" "rng upper = (addr, vm_end v)"
    "kind lower = kind v"
    "kind upper = kind (v\<lparr>vm_start := addr, vm_pgoff := vm_pgoff v + drop_bit 12 (addr - vm_start v)\<rparr>)"
    "vmas mm' = (if new_below then (vmas mm)(new \<mapsto> lower, p \<mapsto> upper) else (vmas mm)(new \<mapsto> upper, p \<mapsto> lower))"
    "vm_flags lower = vm_flags v" "vm_flags upper = vm_flags v"
proof -
  obtain new pol av ch where n: "vmas mm new = None" and m: "vmas mm' = (let
          shift = vm_pgoff v + drop_bit PAGE_SHIFT (addr - vm_start v);
          lower = v\<lparr>vm_end := addr\<rparr>;
          upper = v\<lparr>vm_start := addr, vm_pgoff := shift\<rparr>;
          fresh = (\<lambda>w. w\<lparr>vm_policy := pol, anon_vma := av, anon_vma_chain := ch\<rparr>)
      in (if new_below then (vmas mm)(new \<mapsto> fresh lower, p \<mapsto> upper)
                     else (vmas mm)(new \<mapsto> fresh upper, p \<mapsto> lower)))"
    using assms unfolding splits_at_def Let_def by blast
  let ?l = "v\<lparr>vm_end := addr\<rparr>"
  let ?u = "v\<lparr>vm_start := addr, vm_pgoff := vm_pgoff v + drop_bit PAGE_SHIFT (addr - vm_start v)\<rparr>"
  let ?f = "\<lambda>w. w\<lparr>vm_policy := pol, anon_vma := av, anon_vma_chain := ch\<rparr>"
  show thesis
    by (rule that [of new "if new_below then ?f ?l else ?l" "if new_below then ?u else ?f ?u"])
      (use n m in \<open>auto simp: rng_def kind_def Let_def\<close>)
qed

lemma split_covers:
  assumes inv: "mm_inv mm" and v: "vmas mm p = Some v" and s: "splits_at mm p v addr new_below mm'"
    and at: "vm_start v < addr" "addr < vm_end v" "offset_in_page addr = 0"
  shows "covers (vmas mm') a x \<longleftrightarrow> covers (vmas mm) a x"
proof -
  obtain new lower upper where n: "vmas mm new = None" and r: "rng lower = (vm_start v, addr)" "rng upper = (addr, vm_end v)"
    and kd: "kind lower = kind v"
    "kind upper = kind (v\<lparr>vm_start := addr, vm_pgoff := vm_pgoff v + drop_bit 12 (addr - vm_start v)\<rparr>)"
    and m: "vmas mm' = (if new_below then (vmas mm)(new \<mapsto> lower, p \<mapsto> upper) else (vmas mm)(new \<mapsto> upper, p \<mapsto> lower))"
    by (rule splits_atE [OF s]) (rule that)
  have ne: "new \<noteq> p"
    using n v by auto
  have "kind upper = kind v"
    unfolding kd using mm_inv_aligned [OF inv v] at by (intro kind_upper) auto
  then have parts: "area_has lower a x \<or> area_has upper a x \<longleftrightarrow> area_has v a x"
    using r at kd(1) by (cases "addr \<le> a") (auto simp: rng_def area_has_def)
  have "(vmas mm)(p := None, new := None) = (vmas mm)(p := None)"
    using n by auto
  then have "covers (vmas mm') a x
      \<longleftrightarrow> area_has lower a x \<or> area_has upper a x \<or> covers ((vmas mm)(p := None)) a x"
    unfolding m using ne by (auto simp: covers_update fun_upd_twist)
  then show ?thesis
    using parts covers_remove [of "vmas mm" p v a x] v by blast
qed

lemma split_pages:
  assumes inv: "mm_inv mm" and v: "vmas mm p = Some v" and s: "splits_at mm p v addr new_below mm'"
    and at: "vm_start v < addr" "addr < vm_end v" "offset_in_page addr = 0"
  shows "pages_of (vmas mm') = pages_of (vmas mm)"
proof -
  obtain new lower upper where n: "vmas mm new = None" and r: "rng lower = (vm_start v, addr)" "rng upper = (addr, vm_end v)"
    and m: "vmas mm' = (if new_below then (vmas mm)(new \<mapsto> lower, p \<mapsto> upper) else (vmas mm)(new \<mapsto> upper, p \<mapsto> lower))"
    by (rule splits_atE [OF s]) (rule that)
  have "vma_pages lower + vma_pages upper = vma_pages v"
    using vma_pages_diff [of lower] vma_pages_diff [of upper] vma_pages_diff [of v] mm_inv_aligned [OF inv v] at r
    by (simp add: rng_def)
  moreover have "new \<noteq> p"
    using n v by auto
  ultimately show ?thesis
    using n v mm_inv_finite [OF inv] unfolding m by (auto simp: pages_of_update algebra_simps)
qed

lemma split_ok:
  assumes ok: "mm_ok mm" and v: "vmas mm p = Some v" and fresh: "alloc_fresh env"
    and at: "vm_start v < addr" "addr < vm_end v" "offset_in_page addr = 0"
  shows "\<exists>r mm'. split_vma_nocheck env p addr new_below mm = Some (r, mm')
    \<and> mm_ok mm' \<and> mm_view mm' = mm_view mm \<and> only_areas mm mm'
    \<and> (if r = 0 then splits_at mm p v addr new_below mm' else \<exists>cs. mm' = log_calls cs mm)"
proof -
  obtain r mm' where s: "split_vma_nocheck env p addr new_below mm = Some (r, mm')"
      "if r = 0 then mm_inv mm' \<and> only_areas mm mm' \<and> splits_at mm p v addr new_below mm'
       else \<exists>cs. mm' = log_calls cs mm"
    using split_vma_spec [OF mm_ok_inv [OF ok] v fresh at] by blast
  show ?thesis
  proof (cases "r = 0")
    case True
    with s have m: "mm_inv mm'" "only_areas mm mm'" "splits_at mm p v addr new_below mm'"
      by simp_all
    have "mm_ok mm'"
      using split_pages [OF mm_ok_inv [OF ok] v m(3) at] m(1) only_areas_fields(1) [OF m(2)] ok
      by (simp add: mm_ok_def)
    moreover have "mm_view mm' = mm_view mm"
      using mm_view_eqI [OF mm_ok_inv [OF ok] m(1)] split_covers [OF mm_ok_inv [OF ok] v m(3) at] by blast
    ultimately show ?thesis
      using s(1) True m by auto
  next
    case False
    with s(2) obtain cs where mm': "mm' = log_calls cs mm" by auto
    then have "only_areas mm mm'"
      by (simp add: log_calls_def)
    with s(1) False ok mm' show ?thesis by auto
  qed
qed

end
