(* ===== verification/Vma_Merge.thy ===== *)
theory Vma_Merge
  imports Vma_View
begin

text \<open>
  Merging a range into the areas next to it. The range may be unmapped (a new mapping) or
  already mapped (a change of attributes); \<open>vma_merge\<close> distinguishes eight cases, which the
  definitions below follow.
\<close>

section \<open>When areas can be merged\<close>

definition has_close :: "mmap_env \<Rightarrow> vm_area_struct \<Rightarrow> bool" where
  "has_close env v = (case vm_ops v of None \<Rightarrow> False | Some ops \<Rightarrow> ops_close env ops)"

definition is_mergeable_vma ::
  "mmap_env \<Rightarrow> vm_area_struct \<Rightarrow> nat option \<Rightarrow> u64 \<Rightarrow> nat option \<Rightarrow> string option \<Rightarrow> bool \<Rightarrow> bool" where
  "is_mergeable_vma env v file flags uffd name may_remove_vma =
    (if (vm_flags v XOR flags) AND NOT VM_SOFTDIRTY \<noteq> 0 then False
     else if vm_file v \<noteq> file then False
     else if may_remove_vma \<and> has_close env v then False
     else if vm_userfaultfd_ctx v \<noteq> uffd then False
     else if anon_name v \<noteq> name then False
     else True)"

definition is_mergeable_anon_vma :: "nat option \<Rightarrow> nat option \<Rightarrow> vm_area_struct option \<Rightarrow> bool" where
  "is_mergeable_anon_vma anon_vma1 anon_vma2 vma =
    (if (anon_vma1 = None \<or> anon_vma2 = None)
        \<and> (case vma of None \<Rightarrow> True | Some v \<Rightarrow> length (anon_vma_chain v) = 1)
     then True else anon_vma1 = anon_vma2)"

definition can_vma_merge_before ::
  "mmap_env \<Rightarrow> vm_area_struct \<Rightarrow> u64 \<Rightarrow> nat option \<Rightarrow> nat option \<Rightarrow> u64 \<Rightarrow> nat option \<Rightarrow> string option \<Rightarrow> bool" where
  "can_vma_merge_before env v flags anon file pgoff uffd name \<longleftrightarrow>
     is_mergeable_vma env v file flags uffd name True
     \<and> is_mergeable_anon_vma anon (anon_vma v) (Some v) \<and> vm_pgoff v = pgoff"

definition can_vma_merge_after ::
  "mmap_env \<Rightarrow> vm_area_struct \<Rightarrow> u64 \<Rightarrow> nat option \<Rightarrow> nat option \<Rightarrow> u64 \<Rightarrow> nat option \<Rightarrow> string option \<Rightarrow> bool" where
  "can_vma_merge_after env v flags anon file pgoff uffd name \<longleftrightarrow>
     is_mergeable_vma env v file flags uffd name False
     \<and> is_mergeable_anon_vma anon (anon_vma v) (Some v) \<and> vm_pgoff v + vma_pages v = pgoff"

section \<open>The merge\<close>

text \<open>The local variables of \<open>vma_merge\<close> that its second half works from.\<close>

record merge_plan =
  mp_res :: vma_ptr
  mp_vma :: vma_ptr
  mp_start :: u64
  mp_end :: u64
  mp_pgoff :: u64
  mp_adjust :: "vma_ptr option"
  mp_adj_start :: u64 \<comment> \<open>a signed number\<close>
  mp_remove :: "vma_ptr option"
  mp_remove2 :: "vma_ptr option"

definition plain_plan :: "vma_ptr \<Rightarrow> u64 \<Rightarrow> u64 \<Rightarrow> u64 \<Rightarrow> merge_plan" where
  "plain_plan p start end pgoff = \<lparr>mp_res = p, mp_vma = p, mp_start = start, mp_end = end, mp_pgoff = pgoff,
     mp_adjust = None, mp_adj_start = 0, mp_remove = None, mp_remove2 = None\<rparr>"

text \<open>Status, duplicated area, plan and state.\<close>

type_synonym planned = "(int \<times> vma_ptr option \<times> merge_plan \<times> mm_struct) option"

text \<open>Cases 1 and 6: predecessor and successor both.\<close>

definition merge_both ::
  "mmap_env \<Rightarrow> vma_ptr \<Rightarrow> vma_ptr option \<Rightarrow> vma_ptr \<Rightarrow> mm_struct \<Rightarrow> planned" where
  "merge_both env p curr_vma n mm = do {
     pv \<leftarrow> vmas mm p;
     nv \<leftarrow> vmas mm n;
     let plan = plain_plan p (vm_start pv) (vm_end nv) (vm_pgoff pv);
     (err, dup, mm) \<leftarrow> dup_anon_vma env p n mm;
     case curr_vma of
       None \<Rightarrow> Some (err, dup, plan\<lparr>mp_remove := Some n\<rparr>, mm)
     | Some c \<Rightarrow> do {
         let plan = plan\<lparr>mp_remove := Some c, mp_remove2 := Some n\<rparr>;
         (err, dup, mm) \<leftarrow> (if anon_vma nv = None then dup_anon_vma env p c mm else Some (err, dup, mm));
         Some (err, dup, plan, mm) } }"

text \<open>Cases 2, 5 and 7: the predecessor only.\<close>

definition merge_into_prev ::
  "mmap_env \<Rightarrow> vma_ptr \<Rightarrow> vma_ptr option \<Rightarrow> u64 \<Rightarrow> mm_struct \<Rightarrow> planned" where
  "merge_into_prev env p curr_vma end mm = do {
     pv \<leftarrow> vmas mm p;
     let plan = plain_plan p (vm_start pv) end (vm_pgoff pv);
     case curr_vma of
       None \<Rightarrow> Some (0, None, plan, mm)
     | Some c \<Rightarrow> do {
         cv \<leftarrow> vmas mm c;
         let plan = (if end = vm_end cv then plan\<lparr>mp_remove := Some c\<rparr>
                     else plan\<lparr>mp_adjust := Some c, mp_adj_start := end - vm_start cv\<rparr>);
         if end = vm_end cv \<and> has_close env cv then Some (- EINVAL, None, plan, mm)
         else do {
           (err, dup, mm) \<leftarrow> dup_anon_vma env p c mm;
           Some (err, dup, plan, mm) } } }"

text \<open>Cases 3, 4 and 8: the successor only.\<close>

definition merge_into_next ::
  "mmap_env \<Rightarrow> vma_ptr option \<Rightarrow> vma_ptr option \<Rightarrow> vma_ptr \<Rightarrow> u64 \<Rightarrow> u64 \<Rightarrow> mm_struct \<Rightarrow> planned" where
  "merge_into_next env prev curr_vma n addr pglen mm = do {
     nv \<leftarrow> vmas mm n;
     overlap \<leftarrow> (case prev of None \<Rightarrow> Some None
       | Some p \<Rightarrow> do { pv \<leftarrow> vmas mm p; Some (if addr < vm_end pv then Some (p, pv) else None) });
     case overlap of
       Some (p, pv) \<Rightarrow> do {
         (err, dup, mm) \<leftarrow> dup_anon_vma env n p mm;
         Some (err, dup, (plain_plan p (vm_start pv) addr (vm_pgoff pv))
             \<lparr>mp_res := n, mp_adjust := Some n, mp_adj_start := - (vm_end pv - addr)\<rparr>, mm) }
     | None \<Rightarrow> do {
         let plan = plain_plan n addr (vm_end nv) (vm_pgoff nv - pglen);
         case curr_vma of
           None \<Rightarrow> Some (0, None, plan, mm)
         | Some c \<Rightarrow> do {
             cv \<leftarrow> vmas mm c;
             (err, dup, mm) \<leftarrow> dup_anon_vma env n c mm;
             Some (err, dup, plan\<lparr>mp_pgoff := vm_pgoff cv, mp_remove := Some c\<rparr>, mm) } } }"

definition merge_commit ::
  "mmap_env \<Rightarrow> merge_plan \<Rightarrow> vma_ptr option \<Rightarrow> mm_struct \<Rightarrow> (vma_ptr option \<times> mm_struct) option" where
  "merge_commit env plan anon_dup mm = do {
     v \<leftarrow> vmas mm (mp_vma plan);
     let vma_expanded = (mp_start plan < vm_start v \<or> mp_end plan > vm_end v);
     if prealloc_fails env mm
     then do {
       mm \<leftarrow> (case anon_dup of None \<Rightarrow> Some mm | Some d \<Rightarrow> unlink_anon_vmas env d mm);
       Some (None, mm) }
     else do {
       vp \<leftarrow> init_multi_vma_prep (mp_vma plan) (mp_adjust plan) (mp_remove plan) (mp_remove2 plan) mm;
       mm \<leftarrow> vma_prepare vp mm;
       v \<leftarrow> vmas mm (mp_vma plan);
       let mm = put_vma (mp_vma plan)
                  (v\<lparr>vm_start := mp_start plan, vm_end := mp_end plan, vm_pgoff := mp_pgoff plan\<rparr>) mm;
       mm \<leftarrow> (if vma_expanded then vma_iter_store (mp_vma plan) mm else Some mm);
       mm \<leftarrow> (case mp_adjust plan of
           None \<Rightarrow> Some mm
         | Some a \<Rightarrow> do {
             av \<leftarrow> vmas mm a;
             let mm = put_vma a (av\<lparr>vm_start := vm_start av + mp_adj_start plan,
                        vm_pgoff := vm_pgoff av + signed_drop_bit PAGE_SHIFT (mp_adj_start plan)\<rparr>) mm;
             if sint (mp_adj_start plan) < 0 then vma_iter_store a mm else Some mm });
       mm \<leftarrow> vma_complete vp mm;
       Some (Some (mp_res plan), mm) } }"

definition vma_merge ::
  "mmap_env \<Rightarrow> vma_ptr option \<Rightarrow> u64 \<Rightarrow> u64 \<Rightarrow> u64 \<Rightarrow> nat option \<Rightarrow> nat option \<Rightarrow> u64 \<Rightarrow> nat option
    \<Rightarrow> nat option \<Rightarrow> string option \<Rightarrow> mm_struct \<Rightarrow> (vma_ptr option \<times> mm_struct) option" where
  "vma_merge env prev addr end flags anon file pgoff policy uffd name mm =
    (let pglen = drop_bit PAGE_SHIFT (end - addr)
     in if has flags VM_SPECIAL then Some (None, mm)
     else do {
       prev_end \<leftarrow> (case prev of None \<Rightarrow> Some 0 | Some p \<Rightarrow> map_option vm_end (vmas mm p));
       let curr_vma = find_vma_intersection mm prev_end end;
       adjacent \<leftarrow> (case curr_vma of None \<Rightarrow> Some True
         | Some c \<Rightarrow> do { cv \<leftarrow> vmas mm c; Some (end = vm_end cv) });
       let next = (if adjacent then vma_lookup mm end else None);
       merge_prev \<leftarrow> (case prev of None \<Rightarrow> Some False
         | Some p \<Rightarrow> do { pv \<leftarrow> vmas mm p; Some (addr = vm_end pv \<and> mpol_equal env (vm_policy pv) policy
             \<and> can_vma_merge_after env pv flags anon file pgoff uffd name) });
       merge_next \<leftarrow> (case next of None \<Rightarrow> Some False
         | Some n \<Rightarrow> do { nv \<leftarrow> vmas mm n; Some (mpol_equal env policy (vm_policy nv)
             \<and> can_vma_merge_before env nv flags anon file (pgoff + pglen) uffd name) });
       if \<not> merge_prev \<and> \<not> merge_next then Some (None, mm)
       else do {
         both \<leftarrow> (case (prev, next) of
             (Some p, Some n) \<Rightarrow> do {
               pv \<leftarrow> vmas mm p; nv \<leftarrow> vmas mm n;
               Some (merge_prev \<and> merge_next \<and> is_mergeable_anon_vma (anon_vma pv) (anon_vma nv) None) }
           | _ \<Rightarrow> Some False);
         (err, anon_dup, plan, mm) \<leftarrow>
           (if both then do { p \<leftarrow> prev; n \<leftarrow> next; merge_both env p curr_vma n mm }
            else if merge_prev then do { p \<leftarrow> prev; merge_into_prev env p curr_vma end mm }
            else do { n \<leftarrow> next; merge_into_next env prev curr_vma n addr pglen mm });
         if err \<noteq> 0 then Some (None, mm) else merge_commit env plan anon_dup mm } })"

section \<open>Callers\<close>

text \<open>
  The result of \<open>vma_modify\<close> is the area on success (\<open>Inr\<close>) and the error otherwise.
\<close>

definition vma_modify ::
  "mmap_env \<Rightarrow> vma_ptr option \<Rightarrow> vma_ptr \<Rightarrow> u64 \<Rightarrow> u64 \<Rightarrow> u64 \<Rightarrow> nat option \<Rightarrow> nat option \<Rightarrow> string option
    \<Rightarrow> mm_struct \<Rightarrow> ((int + vma_ptr) \<times> mm_struct) option" where
  "vma_modify env prev vma start end flags policy uffd name mm = do {
     v \<leftarrow> vmas mm vma;
     let pgoff = vm_pgoff v + drop_bit PAGE_SHIFT (start - vm_start v);
     (merged, mm) \<leftarrow> vma_merge env prev start end flags (anon_vma v) (vm_file v) pgoff policy uffd name mm;
     case merged of
       Some m \<Rightarrow> Some (Inr m, mm)
     | None \<Rightarrow> do {
         v \<leftarrow> vmas mm vma;
         (err, mm) \<leftarrow> (if vm_start v < start then split_vma env vma start True mm else Some (0, mm));
         if err \<noteq> 0 then Some (Inl err, mm)
         else do {
           v \<leftarrow> vmas mm vma;
           (err, mm) \<leftarrow> (if vm_end v > end then split_vma env vma end False mm else Some (0, mm));
           Some (if err \<noteq> 0 then Inl err else Inr vma, mm) } } }"

definition vma_merge_new_vma ::
  "mmap_env \<Rightarrow> vma_ptr option \<Rightarrow> vm_area_struct \<Rightarrow> u64 \<Rightarrow> u64 \<Rightarrow> u64 \<Rightarrow> mm_struct
    \<Rightarrow> (vma_ptr option \<times> mm_struct) option" where
  "vma_merge_new_vma env prev v start end pgoff mm =
     vma_merge env prev start end (vm_flags v) (anon_vma v) (vm_file v) pgoff (vm_policy v)
       (vm_userfaultfd_ctx v) (anon_name v) mm"

definition vma_merge_extend ::
  "mmap_env \<Rightarrow> vma_ptr \<Rightarrow> u64 \<Rightarrow> mm_struct \<Rightarrow> (vma_ptr option \<times> mm_struct) option" where
  "vma_merge_extend env vma delta mm = do {
     v \<leftarrow> vmas mm vma;
     let pgoff = vm_pgoff v + vma_pages v;
     vma_merge env (Some vma) (vm_end v) (vm_end v + delta) (vm_flags v) (anon_vma v) (vm_file v) pgoff
       (vm_policy v) (vm_userfaultfd_ctx v) (anon_name v) mm }"

section \<open>Sharing the anonymous memory of a neighbour\<close>

definition anon_vma_compatible :: "mmap_env \<Rightarrow> vm_area_struct \<Rightarrow> vm_area_struct \<Rightarrow> bool" where
  "anon_vma_compatible env a b \<longleftrightarrow> vm_end a = vm_start b \<and> mpol_equal env (vm_policy a) (vm_policy b)
     \<and> vm_file a = vm_file b
     \<and> (vm_flags a XOR vm_flags b) AND NOT (VM_ACCESS_FLAGS OR VM_SOFTDIRTY) = 0
     \<and> vm_pgoff b = vm_pgoff a + drop_bit PAGE_SHIFT (vm_start b - vm_start a)"

definition reusable_anon_vma ::
  "mmap_env \<Rightarrow> vm_area_struct \<Rightarrow> vm_area_struct \<Rightarrow> vm_area_struct \<Rightarrow> nat option" where
  "reusable_anon_vma env old a b =
    (if anon_vma_compatible env a b \<and> anon_vma old \<noteq> None \<and> length (anon_vma_chain old) = 1
     then anon_vma old else None)"

definition find_mergeable_anon_vma :: "mmap_env \<Rightarrow> vma_ptr \<Rightarrow> mm_struct \<Rightarrow> nat option option" where
  "find_mergeable_anon_vma env p mm = do {
     v \<leftarrow> vmas mm p;
     r \<leftarrow> (case mt_walk (vm_end v) (mm_mt mm) of
         None \<Rightarrow> Some None
       | Some n \<Rightarrow> do { nv \<leftarrow> vmas mm n; Some (reusable_anon_vma env nv v nv) });
     case r of
       Some av \<Rightarrow> Some (Some av)
     | None \<Rightarrow> (case mt_prev (vm_start v) (mm_mt mm) of
           None \<Rightarrow> Some None
         | Some q \<Rightarrow> do { qv \<leftarrow> vmas mm q; Some (reusable_anon_vma env qv qv v) }) }"

end
