(* ===== verification/Vma_Merge_Proofs.thy ===== *)
theory Vma_Merge_Proofs
  imports Vma_Merge
begin

text \<open>
  Correctness of \<open>vma_merge\<close>: whenever it merges, the whole range has the requested
  attributes afterwards, every other address keeps its own, and the address space stays in
  order; whenever it does not, nothing has changed.
\<close>

section \<open>Attributes of areas that can be merged\<close>

definition request_kind :: "u64 \<Rightarrow> u64 \<Rightarrow> nat option \<Rightarrow> u64 \<Rightarrow> nat option \<Rightarrow> string option \<Rightarrow> page_kind" where
  "request_kind addr flags file pgoff uffd name = \<lparr>pk_flags = kind_flags flags, pk_file = file,
     pk_base = pgoff - drop_bit PAGE_SHIFT addr, pk_uffd = uffd, pk_name = name\<rparr>"

lemma masked_eq:
  fixes x y s t :: "'a::len word"
  assumes "(x XOR y) AND NOT s = 0"
  shows "x AND NOT (s OR t) = y AND NOT (s OR t)"
proof (rule bit_word_eqI)
  fix n
  assume n: "n < LENGTH('a)"
  have "bit ((x XOR y) AND NOT s) n = bit (0 :: 'a word) n"
    using assms by simp
  then have "\<not> bit s n \<Longrightarrow> bit x n = bit y n"
    using n by (simp add: bit_and_iff bit_xor_iff bit_not_iff)
  then show "bit (x AND NOT (s OR t)) n = bit (y AND NOT (s OR t)) n"
    using n by (auto simp: bit_and_iff bit_or_iff bit_not_iff)
qed

lemma kind_flags_eq: "(x XOR y) AND NOT VM_SOFTDIRTY = 0 \<Longrightarrow> kind_flags x = kind_flags y"
  unfolding kind_flags_def by (rule masked_eq)

lemma is_mergeable_vmaD:
  assumes "is_mergeable_vma env v file flags uffd name r"
  shows "kind_flags (vm_flags v) = kind_flags flags" "vm_file v = file" "vm_userfaultfd_ctx v = uffd"
    "anon_name v = name"
  using assms kind_flags_eq unfolding is_mergeable_vma_def by (auto split: if_splits)

lemma merge_after_kind:
  assumes "can_vma_merge_after env v flags anon file pgoff uffd name"
    and "offset_in_page (vm_start v) = 0" and "vm_start v \<le> vm_end v"
  shows "kind v = request_kind (vm_end v) flags file pgoff uffd name"
  using assms is_mergeable_vmaD [of env v "file" flags uffd name] vma_pages_diff [OF assms(2,3)]
  unfolding can_vma_merge_after_def kind_def request_kind_def by auto

lemma merge_before_kind:
  assumes "can_vma_merge_before env v flags anon file (pgoff + drop_bit 12 (vm_start v - addr)) uffd name"
    and "offset_in_page addr = 0" and "addr \<le> vm_start v"
  shows "kind v = request_kind addr flags file pgoff uffd name"
  using assms is_mergeable_vmaD [of env v "file" flags uffd name] drop_page_diff [OF assms(2,3)]
  unfolding can_vma_merge_before_def kind_def request_kind_def by auto

section \<open>States that differ in shared anonymous memory only\<close>

definition same_areas :: "mm_struct \<Rightarrow> mm_struct \<Rightarrow> bool" where
  "same_areas mm mm' \<longleftrightarrow> mm_mt mm' = mm_mt mm \<and> map_count mm' = map_count mm \<and> only_areas mm mm'
     \<and> (\<forall>q. rel_option same_area (vmas mm q) (vmas mm' q))"

lemma same_areas_refl [simp]: "same_areas mm mm"
  by (simp add: same_areas_def option.rel_refl)

lemma same_areas_trans: "same_areas a b \<Longrightarrow> same_areas b c \<Longrightarrow> same_areas a c"
proof -
  assume ab: "same_areas a b" and bc: "same_areas b c"
  have "rel_option same_area (vmas a q) (vmas c q)" for q
  proof -
    have "rel_option same_area (vmas a q) (vmas b q)" "rel_option same_area (vmas b q) (vmas c q)"
      using ab bc by (simp_all add: same_areas_def)
    then show ?thesis
      by (cases "vmas a q"; cases "vmas b q"; cases "vmas c q") (auto intro: same_area_trans)
  qed
  moreover have "only_areas a c"
    using ab bc by (auto simp: same_areas_def intro: only_areas_trans)
  ultimately show ?thesis
    using ab bc by (simp add: same_areas_def)
qed

lemma same_areas_Some:
  assumes "same_areas mm mm'" and "vmas mm q = Some v"
  obtains v' where "vmas mm' q = Some v'" "same_area v v'"
proof -
  have "rel_option same_area (vmas mm q) (vmas mm' q)"
    using assms(1) by (simp add: same_areas_def)
  then show thesis
    using assms(2) that by (cases "vmas mm' q") auto
qed

lemma same_areas_None: "same_areas mm mm' \<Longrightarrow> vmas mm' q = None \<longleftrightarrow> vmas mm q = None"
proof -
  assume "same_areas mm mm'"
  then have "rel_option same_area (vmas mm q) (vmas mm' q)"
    by (simp add: same_areas_def)
  then show ?thesis
    by (cases "vmas mm q"; cases "vmas mm' q") auto
qed

lemma same_areas_rng: "same_areas mm mm' \<Longrightarrow> map_option rng (vmas mm' q) = map_option rng (vmas mm q)"
  by (cases "vmas mm q") (auto simp: same_areas_None same_area_rng elim: same_areas_Some)

lemma same_areas_inv: "same_areas mm mm' \<Longrightarrow> mm_inv mm \<Longrightarrow> mm_inv mm'"
  by (rule mm_inv_same_rng [of mm]) (auto simp: same_areas_rng, auto simp: same_areas_def)

lemma same_area_kind: "same_area v w \<Longrightarrow> kind w = kind v"
  by (simp add: kind_def same_area_fields)

lemma same_areas_covers: "same_areas mm mm' \<Longrightarrow> covers (vmas mm') a x \<longleftrightarrow> covers (vmas mm) a x"
proof -
  assume s: "same_areas mm mm'"
  have "(\<exists>v. vmas mm' p = Some v \<and> area_has v a x) \<longleftrightarrow> (\<exists>v. vmas mm p = Some v \<and> area_has v a x)" for p
  proof (cases "vmas mm p")
    case None
    then show ?thesis
      using same_areas_None [OF s, of p] by simp
  next
    case (Some v)
    then obtain v' where "vmas mm' p = Some v'" "same_area v v'"
      using s same_areas_Some by metis
    then show ?thesis
      using Some by (simp add: area_has_def same_area_fields same_area_kind)
  qed
  then show ?thesis
    unfolding covers_def area_has_def by blast
qed

lemma same_areas_view:
  assumes "same_areas mm mm'" and "mm_inv mm"
  shows "mm_view mm' = mm_view mm"
  using mm_view_eqI [OF assms(2) same_areas_inv [OF assms]] same_areas_covers [OF assms(1)] by blast

lemma dup_anon_vma_same:
  assumes "vmas mm dst = Some d" and "vmas mm src = Some s"
  obtains ret dup mm' where "dup_anon_vma env dst src mm = Some (ret, dup, mm')" "same_areas mm mm'"
    "dup = None \<or> dup = Some dst"
proof -
  obtain ret dup d' where d: "dup_anon_vma env dst src mm = Some (ret, dup, mm\<lparr>vmas := (vmas mm)(dst \<mapsto> d')\<rparr>)"
      "same_area d d'" "dup = None \<or> dup = Some dst"
    using dup_anon_vma_Some [OF assms, of env] by blast
  have "same_areas mm (mm\<lparr>vmas := (vmas mm)(dst \<mapsto> d')\<rparr>)"
    using assms(1) d(2) by (simp add: same_areas_def option.rel_refl)
  with d show thesis
    using that by blast
qed

lemma unlink_anon_vmas_same:
  assumes "vmas mm p = Some v"
  obtains mm' where "unlink_anon_vmas env p mm = Some mm'" "same_areas mm mm'"
proof -
  obtain v' cs where u: "unlink_anon_vmas env p mm = Some (mm\<lparr>vmas := (vmas mm)(p \<mapsto> v'), mm_calls := cs\<rparr>)"
      "same_area v v'"
    using unlink_anon_vmas_Some [OF assms, of env] by blast
  moreover have "same_areas mm (mm\<lparr>vmas := (vmas mm)(p \<mapsto> v'), mm_calls := cs\<rparr>)"
    using assms u(2) by (simp add: same_areas_def option.rel_refl)
  ultimately show thesis
    using that by blast
qed

section \<open>Tree updates of a merge\<close>

text \<open>
  Storing \<open>p\<close> over a range, when every other area is left with what the range does not cover.
\<close>

lemma store_cuts:
  assumes f: "set t = entries f" and p: "g p = Some v" "rng v = (a, b)"
    and cut: "\<And>q w. f q = Some w \<Longrightarrow> mt_cut a b (vm_start w, vm_end w, q)
      = (if q = p then [] else case g q of None \<Rightarrow> [] | Some w' \<Rightarrow> [(vm_start w', vm_end w', q)])"
    and none: "\<And>q. q \<noteq> p \<Longrightarrow> f q = None \<Longrightarrow> g q = None"
  shows "set (mt_store a b p t) = entries g"
proof -
  have "x \<in> set (mt_store a b p t) \<longleftrightarrow> x \<in> entries g" for x
  proof (cases x)
    case (fields s e q)
    have "x \<in> set (mt_store a b p t) \<longleftrightarrow> x = (a, b, p)
        \<or> (\<exists>r w. f r = Some w \<and> x \<in> set (mt_cut a b (vm_start w, vm_end w, r)))"
      by (rule store_mem [OF f])
    also have "\<dots> \<longleftrightarrow> x = (a, b, p) \<or> (q \<noteq> p \<and> f q \<noteq> None \<and> (\<exists>w'. g q = Some w' \<and> x = (vm_start w', vm_end w', q)))"
    proof -
      have "x \<in> set (mt_cut a b (vm_start w, vm_end w, r))
          \<longleftrightarrow> r = q \<and> q \<noteq> p \<and> (\<exists>w'. g q = Some w' \<and> x = (vm_start w', vm_end w', q))" if "f r = Some w" for r w
        unfolding cut [OF that] fields by (cases "g r") auto
      then show ?thesis by blast
    qed
    also have "\<dots> \<longleftrightarrow> x \<in> entries g"
      using p none [of q] by (cases "q = p"; cases "f q") (auto simp: fields entries_iff rng_def)
    finally show ?thesis .
  qed
  then show ?thesis by blast
qed

text \<open>Moving the border between two adjacent areas.\<close>

lemma shift_cut:
  assumes t: "mt_ok t" "set t = entries f" and v: "f p = Some v" "f n = Some w" "p \<noteq> n"
    and adj: "vm_end v = vm_start w" and q: "f q = Some u" "q \<noteq> p" "q \<noteq> n"
    and ab: "a < b" "vm_start v \<le> a" "b \<le> vm_end w"
  shows "mt_cut a b (vm_start u, vm_end u, q) = [(vm_start u, vm_end u, q)]"
proof (rule mt_cut_disjoint [OF ab(1)])
  show "fst (vm_start u, vm_end u, q) < fst (snd (vm_start u, vm_end u, q))"
    using area_nonempty [OF t q(1)] by simp
  have "vm_end u \<le> vm_start v \<or> vm_end v \<le> vm_start u" "vm_end u \<le> vm_start w \<or> vm_end w \<le> vm_start u"
    using area_disjoint [OF t q(1) v(1)] area_disjoint [OF t q(1) v(2)] q by blast+
  then have "vm_end u \<le> vm_start v \<or> vm_end w \<le> vm_start u"
    using adj area_nonempty [OF t q(1)] by auto
  then show "fst (snd (vm_start u, vm_end u, q)) \<le> a \<or> b \<le> fst (vm_start u, vm_end u, q)"
    using ab by auto
qed

lemma shift_entries:
  assumes t: "mt_ok t" "set t = entries f" and v: "f p = Some v" "f n = Some w" "p \<noteq> n"
    and adj: "vm_end v = vm_start w"
    and g: "rng v' = (vm_start v, m)" "rng w' = (m, vm_end w)" and m: "vm_start v < m" "m < vm_end w"
    and t': "if vm_end v < m then t' = mt_store (vm_start v) m p t else m < vm_end v \<and> t' = mt_store m (vm_end w) n t"
  shows "mt_ok t'" and "set t' = entries (f(p \<mapsto> v', n \<mapsto> w'))"
proof -
  let ?g = "f(p \<mapsto> v', n \<mapsto> w')"
  have r: "vm_start v' = vm_start v" "vm_end v' = m" "vm_start w' = m" "vm_end w' = vm_end w"
    using g by (simp_all add: rng_def)
  have ne: "vm_start v < vm_end v" "vm_start w < vm_end w"
    using area_nonempty [OF t] v by blast+
  note cut = shift_cut [OF t v adj]
  show "mt_ok t'"
    using t' mt_ok_store [OF t(1)] m by (auto split: if_splits)
  show "set t' = entries ?g"
  proof (cases "vm_end v < m")
    case True
    have "set (mt_store (vm_start v) m p t) = entries ?g"
    proof (rule store_cuts [OF t(2)])
      fix q u
      assume q: "f q = Some u"
      show "mt_cut (vm_start v) m (vm_start u, vm_end u, q)
          = (if q = p then [] else case ?g q of None \<Rightarrow> [] | Some w' \<Rightarrow> [(vm_start w', vm_end w', q)])"
        using q cut [OF q, of "vm_start v" m] True m v r ne adj
        by (auto simp: mt_cut_def min_def max_def)
    qed (use v r g in auto)
    with t' True show ?thesis by simp
  next
    case False
    have "set (mt_store m (vm_end w) n t) = entries ?g"
    proof (rule store_cuts [OF t(2)])
      fix q u
      assume q: "f q = Some u"
      show "mt_cut m (vm_end w) (vm_start u, vm_end u, q)
          = (if q = n then [] else case ?g q of None \<Rightarrow> [] | Some w' \<Rightarrow> [(vm_start w', vm_end w', q)])"
        using q cut [OF q, of m "vm_end w"] False t' m v r ne adj
        by (auto simp: mt_cut_def min_def max_def)
    qed (use v r g in auto)
    with t' False show ?thesis by simp
  qed
qed

lemma mm_inv_shift:
  assumes inv: "mm_inv mm" and v: "vmas mm p = Some v" "vmas mm n = Some w" "p \<noteq> n"
    and adj: "vm_end v = vm_start w"
    and g: "rng v' = (vm_start v, m)" "rng w' = (m, vm_end w)" and m: "vm_start v < m" "m < vm_end w" "offset_in_page m = 0"
    and t': "if vm_end v < m then mm_mt mm' = mt_store (vm_start v) m p (mm_mt mm)
      else m < vm_end v \<and> mm_mt mm' = mt_store m (vm_end w) n (mm_mt mm)"
    and mm': "vmas mm' = (vmas mm)(p \<mapsto> v', n \<mapsto> w')" "map_count mm' = map_count mm"
  shows "mm_inv mm'"
proof -
  have t: "mt_ok (mm_mt mm)" "set (mm_mt mm) = entries (vmas mm)"
    using inv by (simp_all add: mm_inv_def)
  have "dom (vmas mm') = dom (vmas mm)"
    using v mm' by auto
  moreover have "aligned_areas (vmas mm')"
    using inv v g m(3) unfolding mm_inv_def aligned_areas_def mm'(1) rng_def by auto
  ultimately show ?thesis
    using shift_entries [OF t v adj g m(1,2) t'] inv mm' by (simp add: mm_inv_def)
qed

section \<open>The second half of the merge\<close>

definition committed ::
  "merge_plan \<Rightarrow> mm_struct \<Rightarrow> (vma_ptr \<rightharpoonup> vm_area_struct) \<Rightarrow> vma_ptr option \<Rightarrow> mm_struct \<Rightarrow> bool" where
  "committed plan mm f res mm' \<longleftrightarrow> (case res of None \<Rightarrow> same_areas mm mm'
     | Some m \<Rightarrow> m = mp_res plan \<and> mm_inv mm' \<and> only_areas mm mm' \<and> vmas mm' = f)"

lemma commit_nomem:
  assumes "vmas mm (mp_vma plan) = Some v" and "prealloc_fails env mm" and "\<And>d. dup = Some d \<Longrightarrow> vmas mm d \<noteq> None"
  shows "\<exists>res mm'. merge_commit env plan dup mm = Some (res, mm') \<and> committed plan mm f res mm'"
proof (cases dup)
  case None
  then show ?thesis
    using assms by (simp add: merge_commit_def committed_def)
next
  case (Some d)
  then obtain w where "vmas mm d = Some w"
    using assms(3) by blast
  then obtain mm' where "unlink_anon_vmas env d mm = Some mm'" "same_areas mm mm'"
    using unlink_anon_vmas_same by metis
  then show ?thesis
    using assms Some by (auto simp: merge_commit_def committed_def)
qed

lemma complete_removes:
  assumes "vp_insert vp = None" and "vp_remove vp = r" and "vp_remove2 vp = r2"
    and "r = None \<Longrightarrow> r2 = None" and "r2 = None \<or> r \<noteq> r2"
    and "set_option r \<union> set_option r2 \<subseteq> dom (vmas mm)"
  shows "steps_to mm (vma_complete vp mm) (mm_mt mm) (vmas mm |` (- (set_option r \<union> set_option r2)))
    (map_count mm - int (card (set_option r \<union> set_option r2)))"
proof (cases r)
  case None
  then show ?thesis
    using vma_complete_plain [of vp mm] assms by (simp add: restrict_map_def)
next
  case (Some x)
  then obtain v where v: "vmas mm x = Some v"
    using assms(6) by auto
  show ?thesis
  proof (cases r2)
    case None
    then show ?thesis
      using vma_complete_remove [of vp x mm v] assms(1-3) Some v
      by (simp add: restrict_complement_singleton_eq)
  next
    case r2: (Some y)
    then obtain w where w: "vmas mm y = Some w"
      using assms(6) by auto
    have xy: "x \<noteq> y"
      using assms(5) Some r2 by auto
    have "(vmas mm)(x := None, y := None) = vmas mm |` (- {x, y})"
      by (auto simp: restrict_map_def)
    then show ?thesis
      using vma_complete_remove2 [of vp x y mm v w] assms(1-3) Some r2 v w xy
      by (simp add: insert_commute)
  qed
qed

lemma commit_expand:
  assumes inv: "mm_inv mm" and v: "vmas mm p = Some v"
    and plan: "mp_vma plan = p" "mp_adjust plan = None" "mp_start plan = start" "mp_end plan = end'"
    and D: "D = set_option (mp_remove plan) \<union> set_option (mp_remove2 plan)" "p \<notin> D" "D \<subseteq> dom (vmas mm)"
      "mp_remove plan = None \<Longrightarrow> mp_remove2 plan = None" "mp_remove2 plan = None \<or> mp_remove plan \<noteq> mp_remove2 plan"
    and room: "start \<le> vm_start v" "vm_end v \<le> end'" "start < vm_start v \<or> vm_end v < end'"
    and al: "offset_in_page start = 0" "offset_in_page end' = 0"
    and inside: "\<And>q w. q \<in> D \<Longrightarrow> vmas mm q = Some w \<Longrightarrow> start \<le> vm_start w \<and> vm_end w \<le> end'"
    and outside: "\<And>q w. q \<notin> D \<Longrightarrow> q \<noteq> p \<Longrightarrow> vmas mm q = Some w \<Longrightarrow> vm_end w \<le> start \<or> end' \<le> vm_start w"
    and dup: "\<And>d. dup = Some d \<Longrightarrow> vmas mm d \<noteq> None"
  shows "\<exists>res mm'. merge_commit env plan dup mm = Some (res, mm') \<and> committed plan mm
    ((vmas mm |` (- D))(p \<mapsto> v\<lparr>vm_start := start, vm_end := end', vm_pgoff := mp_pgoff plan\<rparr>)) res mm'"
proof (cases "prealloc_fails env mm")
  case True
  then show ?thesis
    using commit_nomem [of mm plan v env dup] v plan(1) dup by simp
next
  case False
  let ?v' = "v\<lparr>vm_start := start, vm_end := end', vm_pgoff := mp_pgoff plan\<rparr>"
  obtain vp where vp: "init_multi_vma_prep p None (mp_remove plan) (mp_remove2 plan) mm = Some vp"
      "vp_insert vp = None" "vp_remove vp = mp_remove plan" "vp_remove2 vp = mp_remove2 plan"
    using init_multi_vma_prep_Some [OF v, of None "mp_remove plan" "mp_remove2 plan"] by auto
  obtain mm2 mm3 where st: "vma_prepare vp mm = Some mm2" "vmas mm2 p = Some v"
      "vma_iter_store p (put_vma p ?v' mm2) = Some mm3" "mm_mt mm3 = mt_store start end' p (mm_mt mm)"
      "vmas mm3 = (vmas mm)(p \<mapsto> ?v')" "map_count mm3 = map_count mm" "only_areas mm mm3"
    using expand_store [OF v _ refl, where vp = vp and start = start and hi = end' and pgoff = "mp_pgoff plan"]
      vp(2) by auto
  have "D \<subseteq> dom (vmas mm3)"
    using D(3) st(5) by auto
  then obtain mm4 where c: "vma_complete vp mm3 = Some mm4" "mm_mt mm4 = mm_mt mm3" "vmas mm4 = vmas mm3 |` (- D)"
      "map_count mm4 = map_count mm3 - int (card D)" "only_areas mm3 mm4"
    using complete_removes [OF vp(2-4) D(4,5), of mm3] D(1) by (auto elim: steps_toE)
  have f: "vmas mm4 = (vmas mm |` (- D))(p \<mapsto> ?v')"
    unfolding c st using D(2) by (auto simp: restrict_map_def)
  have "mm_inv mm4"
    by (rule mm_inv_expanded [OF inv v _ room(1,2) al D(2,3) inside outside _ f])
      (use c st in \<open>simp_all add: rng_def\<close>)
  moreover have "merge_commit env plan dup mm = Some (Some (mp_res plan), mm4)"
    using False v vp(1) st(1-3) c(1) plan room(3) by (simp add: merge_commit_def Let_def)
  ultimately show ?thesis
    using f only_areas_trans [OF st(7) c(5)] by (simp add: committed_def)
qed

lemma commit_shift:
  assumes inv: "mm_inv mm" and v: "vmas mm p = Some v" "vmas mm n = Some w" "p \<noteq> n"
    and adj: "vm_end v = vm_start w"
    and plan: "mp_vma plan = p" "mp_adjust plan = Some n" "mp_start plan = vm_start v" "mp_end plan = m"
      "mp_remove plan = None" "mp_remove2 plan = None" "mp_pgoff plan = vm_pgoff v"
    and m: "vm_start v < m" "m < vm_end w" "offset_in_page m = 0" "m \<noteq> vm_end v"
    and shift: "mp_adj_start plan = m - vm_start w" "sint (m - vm_start w) < 0 \<longleftrightarrow> m < vm_start w"
    and dup: "\<And>d. dup = Some d \<Longrightarrow> vmas mm d \<noteq> None"
  shows "\<exists>res mm'. merge_commit env plan dup mm = Some (res, mm') \<and> committed plan mm
    ((vmas mm)(p \<mapsto> v\<lparr>vm_end := m\<rparr>, n \<mapsto> w\<lparr>vm_start := m, vm_pgoff := vm_pgoff w + signed_drop_bit 12 (m - vm_start w)\<rparr>)) res mm'"
proof (cases "prealloc_fails env mm")
  case True
  then show ?thesis
    using commit_nomem [of mm plan v env dup] v plan(1) dup by simp
next
  case False
  let ?v' = "v\<lparr>vm_end := m\<rparr>"
  let ?w' = "w\<lparr>vm_start := m, vm_pgoff := vm_pgoff w + signed_drop_bit 12 (m - vm_start w)\<rparr>"
  obtain vp where vp: "init_multi_vma_prep p (Some n) None None mm = Some vp"
      "vp_insert vp = None" "vp_remove vp = None"
    using init_multi_vma_prep_Some [OF v(1), of "Some n" None None] v(2) by auto
  obtain mm2 where p: "vma_prepare vp mm = Some mm2" "mm_mt mm2 = mm_mt mm" "vmas mm2 = vmas mm"
      "map_count mm2 = map_count mm" "only_areas mm mm2"
    using vma_prepare_steps [of vp mm] vp(2) by (auto elim: steps_toE)
  define mm3 where "mm3 = (if vm_end v < m
    then mm2\<lparr>mm_mt := mt_store (vm_start v) m p (mm_mt mm2), vmas := (vmas mm2)(p \<mapsto> ?v', n \<mapsto> ?w')\<rparr>
    else mm2\<lparr>vmas := (vmas mm2)(p \<mapsto> ?v', n \<mapsto> ?w'), mm_mt := mt_store m (vm_end w) n (mm_mt mm2)\<rparr>)"
  obtain mm4 where c: "vma_complete vp mm3 = Some mm4" "mm_mt mm4 = mm_mt mm3" "vmas mm4 = vmas mm3"
      "map_count mm4 = map_count mm3" "only_areas mm3 mm4"
    using vma_complete_plain [of vp mm3] vp by (auto elim: steps_toE)
  have m3: "vmas mm3 = (vmas mm)(p \<mapsto> ?v', n \<mapsto> ?w')" "only_areas mm mm3"
    using p(3,5) by (simp_all add: mm3_def)
  have f: "vmas mm4 = (vmas mm)(p \<mapsto> ?v', n \<mapsto> ?w')" and only: "only_areas mm mm4"
    using c(3) m3(1) only_areas_trans [OF m3(2) c(5)] by simp_all
  have "mm_inv mm4"
    by (rule mm_inv_shift [OF inv v adj _ _ m(1-3) _ f])
      (use c p m(4) in \<open>auto simp: rng_def mm3_def split: if_splits\<close>)
  moreover have "merge_commit env plan dup mm = Some (Some (mp_res plan), mm4)"
    using False v vp(1) p(1,3) c(1) plan shift m adj
    by (auto simp: merge_commit_def Let_def vma_iter_store_def put_vma_def mm3_def fun_upd_twist split: if_splits)
  ultimately show ?thesis
    using f only by (simp add: committed_def)
qed

section \<open>What a merge achieves\<close>

definition merge_result :: "page_kind \<Rightarrow> u64 \<Rightarrow> u64 \<Rightarrow> mm_struct \<Rightarrow> vma_ptr option \<Rightarrow> mm_struct \<Rightarrow> bool" where
  "merge_result K addr end mm res mm' \<longleftrightarrow> (case res of None \<Rightarrow> same_areas mm mm'
     | Some m \<Rightarrow> mm_inv mm' \<and> only_areas mm mm'
         \<and> (\<forall>a. mm_view mm' a = (if addr \<le> a \<and> a < end then Some K else mm_view mm a))
         \<and> (\<exists>mv. vmas mm' m = Some mv \<and> vm_start mv \<le> addr \<and> end \<le> vm_end mv))"

lemma merge_result_same:
  assumes "same_areas mm mm1" and "mm_inv mm" and "merge_result K addr end mm1 res mm'"
  shows "merge_result K addr end mm res mm'"
proof (cases res)
  case None
  then show ?thesis
    using assms same_areas_trans by (auto simp: merge_result_def)
next
  case (Some m)
  have "only_areas mm mm1"
    using assms(1) by (simp add: same_areas_def)
  then show ?thesis
    using assms(3) Some same_areas_view [OF assms(1,2)] only_areas_trans by (auto simp: merge_result_def)
qed

lemma expanded_view:
  assumes inv: "mm_inv mm" "mm_inv mm'" and f: "vmas mm' = (vmas mm |` (- D))(p \<mapsto> v')"
    and v': "kind v' = K" "vm_start v' \<le> addr" "end \<le> vm_end v'"
    and inside: "\<And>q w. q \<in> insert p D \<Longrightarrow> vmas mm q = Some w \<Longrightarrow> vm_start v' \<le> vm_start w \<and> vm_end w \<le> vm_end v'"
    and cover: "\<And>a. vm_start v' \<le> a \<Longrightarrow> a < vm_end v' \<Longrightarrow> addr \<le> a \<and> a < end
      \<or> (\<exists>q \<in> insert p D. \<exists>w. vmas mm q = Some w \<and> vm_start w \<le> a \<and> a < vm_end w)"
    and kinds: "\<And>q w. q \<in> insert p D \<Longrightarrow> vmas mm q = Some w \<Longrightarrow> kind w = K \<or> (addr \<le> vm_start w \<and> vm_end w \<le> end)"
    and out: "\<And>q w. q \<notin> insert p D \<Longrightarrow> vmas mm q = Some w \<Longrightarrow> vm_end w \<le> addr \<or> end \<le> vm_start w"
  shows "mm_view mm' a = (if addr \<le> a \<and> a < end then Some K else mm_view mm a)"
proof -
  have split: "covers (vmas mm') a x \<longleftrightarrow> area_has v' a x
      \<or> (\<exists>q w. q \<notin> insert p D \<and> vmas mm q = Some w \<and> area_has w a x)" for x
    unfolding f covers_update unfolding covers_def area_has_def by (auto simp: restrict_map_def split: if_splits)
  have split0: "covers (vmas mm) a x \<longleftrightarrow> (\<exists>q w. q \<in> insert p D \<and> vmas mm q = Some w \<and> area_has w a x)
      \<or> (\<exists>q w. q \<notin> insert p D \<and> vmas mm q = Some w \<and> area_has w a x)" for x
    unfolding covers_def area_has_def by blast
  show ?thesis
  proof (cases "addr \<le> a \<and> a < end")
    case True
    then have "area_has v' a K"
      using v' by (auto simp: area_has_def)
    then show ?thesis
      using True split [of K] mm_view_iff [OF inv(2)] by simp
  next
    case False
    have "area_has v' a x \<longleftrightarrow> (\<exists>q w. q \<in> insert p D \<and> vmas mm q = Some w \<and> area_has w a x)" for x
    proof
      assume "area_has v' a x"
      then obtain q w where q: "q \<in> insert p D" "vmas mm q = Some w" "vm_start w \<le> a" "a < vm_end w" "x = K"
        using cover [of a] False v'(1) by (auto simp: area_has_def)
      then have "kind w = K"
        using kinds [OF q(1,2)] False by auto
      then show "\<exists>q w. q \<in> insert p D \<and> vmas mm q = Some w \<and> area_has w a x"
        using q unfolding area_has_def by blast
    next
      assume "\<exists>q w. q \<in> insert p D \<and> vmas mm q = Some w \<and> area_has w a x"
      then obtain q w where q: "q \<in> insert p D" "vmas mm q = Some w" "area_has w a x"
        by blast
      then have "x = K"
        using kinds [OF q(1,2)] False by (auto simp: area_has_def)
      then show "area_has v' a x"
        using q(3) inside [OF q(1,2)] v'(1) by (auto simp: area_has_def)
    qed
    then have "covers (vmas mm') a x \<longleftrightarrow> covers (vmas mm) a x" for x
      unfolding split split0 by blast
    then show ?thesis
      using mm_view_eqI [OF inv, of a] False by auto
  qed
qed

lemma commit_expand_result:
  assumes inv: "mm_inv mm" and v: "vmas mm p = Some v"
    and plan: "mp_vma plan = p" "mp_adjust plan = None" "mp_start plan = start" "mp_end plan = end'" "mp_res plan = p"
    and D: "D = set_option (mp_remove plan) \<union> set_option (mp_remove2 plan)" "p \<notin> D" "D \<subseteq> dom (vmas mm)"
      "mp_remove plan = None \<Longrightarrow> mp_remove2 plan = None" "mp_remove2 plan = None \<or> mp_remove plan \<noteq> mp_remove2 plan"
    and al: "offset_in_page start = 0" "offset_in_page end' = 0"
    and more: "start < vm_start v \<or> vm_end v < end'" and dup: "\<And>d. dup = Some d \<Longrightarrow> vmas mm d \<noteq> None"
    and K: "kind (v\<lparr>vm_start := start, vm_end := end', vm_pgoff := mp_pgoff plan\<rparr>) = K"
    and rg: "start \<le> addr" "end \<le> end'"
    and inside: "\<And>q w. q \<in> insert p D \<Longrightarrow> vmas mm q = Some w \<Longrightarrow> start \<le> vm_start w \<and> vm_end w \<le> end'"
    and cover: "\<And>a. start \<le> a \<Longrightarrow> a < end' \<Longrightarrow> addr \<le> a \<and> a < end
      \<or> (\<exists>q \<in> insert p D. \<exists>w. vmas mm q = Some w \<and> vm_start w \<le> a \<and> a < vm_end w)"
    and kinds: "\<And>q w. q \<in> insert p D \<Longrightarrow> vmas mm q = Some w \<Longrightarrow> kind w = K \<or> (addr \<le> vm_start w \<and> vm_end w \<le> end)"
    and out: "\<And>q w. q \<notin> insert p D \<Longrightarrow> vmas mm q = Some w \<Longrightarrow> vm_end w \<le> addr \<or> end \<le> vm_start w"
  shows "\<exists>res mm'. merge_commit env plan dup mm = Some (res, mm') \<and> merge_result K addr end mm res mm'"
proof -
  let ?v' = "v\<lparr>vm_start := start, vm_end := end', vm_pgoff := mp_pgoff plan\<rparr>"
  have outside: "vm_end w \<le> start \<or> end' \<le> vm_start w" if w: "q \<notin> D" "q \<noteq> p" "vmas mm q = Some w" for q w
  proof (rule ccontr)
    assume n: "\<not> (vm_end w \<le> start \<or> end' \<le> vm_start w)"
    have "start < end'"
      using inside [OF _ v] mm_inv_nonempty [OF inv v] by (auto intro: le_less_trans less_le_trans)
    then obtain a where in_w: "vm_start w \<le> a" "a < vm_end w" "start \<le> a" "a < end'"
      using n mm_inv_nonempty [OF inv w(3)] that [of "max start (vm_start w)"] by auto
    have "\<not> (addr \<le> a \<and> a < end)"
      using out [of q w] w in_w by auto
    then obtain r u where ru: "r \<in> insert p D" "vmas mm r = Some u" "vm_start u \<le> a" "a < vm_end u"
      using cover [OF in_w(3,4)] by blast
    then have "q \<noteq> r"
      using w(1,2) by auto
    from mm_inv_disjoint [OF inv w(3) ru(2) this] show False
      using in_w ru(3,4) by auto
  qed
  have room: "start \<le> vm_start v" "vm_end v \<le> end'"
    using inside [OF _ v] by simp_all
  have inside': "start \<le> vm_start w \<and> vm_end w \<le> end'" if "q \<in> D" "vmas mm q = Some w" for q w
    using inside [OF _ that(2)] that(1) by simp
  have "\<exists>res mm'. merge_commit env plan dup mm = Some (res, mm')
      \<and> committed plan mm ((vmas mm |` (- D))(p \<mapsto> ?v')) res mm'"
    by (rule commit_expand [OF inv v plan(1-4) D(1-3)]) (use D room more al inside' outside dup in blast)+
  then obtain res mm' where c: "merge_commit env plan dup mm = Some (res, mm')"
      "committed plan mm ((vmas mm |` (- D))(p \<mapsto> ?v')) res mm'"
    by blast
  show ?thesis
  proof (cases res)
    case None
    then show ?thesis
      using c by (auto simp: committed_def merge_result_def)
  next
    case (Some m)
    then have m: "m = p" "mm_inv mm'" "only_areas mm mm'" "vmas mm' = (vmas mm |` (- D))(p \<mapsto> ?v')"
      using c(2) plan(5) by (auto simp: committed_def)
    have "mm_view mm' a = (if addr \<le> a \<and> a < end then Some K else mm_view mm a)" for a
      by (rule expanded_view [OF inv m(2,4) K]) (use rg inside cover kinds out in auto)
    then show ?thesis
      using c(1) Some m rg by (auto simp: merge_result_def)
  qed
qed

text \<open>The signed shift that moves the border of an adjusted area.\<close>

lemma sint_diff:
  assumes "unat (m :: u64) < 2 ^ 63" and "unat (s :: u64) < 2 ^ 63"
  shows "sint (m - s) = int (unat m) - int (unat s)"
proof -
  have eq: "m - s = word_of_int (int (unat m) - int (unat s))"
    by simp
  have "int (unat m) < int (2 ^ 63)" "int (unat s) < int (2 ^ 63)"
    using assms by (simp_all only: of_nat_less_iff)
  then have "- (2 ^ 63) \<le> int (unat m) - int (unat s)" "int (unat m) - int (unat s) < 2 ^ 63"
    by (simp_all only: of_nat_power of_nat_numeral)
  then show ?thesis
    unfolding eq by (rule sint_of_int64)
qed

lemma shift_pages:
  assumes "offset_in_page m = 0" "offset_in_page s = 0" and lt: "unat m < 2 ^ 63" "unat s < 2 ^ 63"
  shows "signed_drop_bit 12 (m - s) = drop_bit 12 m - drop_bit 12 s"
    and "sint (m - s) < 0 \<longleftrightarrow> m < s"
proof -
  note d = sint_diff [OF lt]
  show "sint (m - s) < 0 \<longleftrightarrow> m < s"
    unfolding d by (simp add: word_less_def)
  obtain i j where ij: "unat m = 4096 * i" "unat s = 4096 * j"
    using assms(1,2) page_aligned_obtain by metis
  have "sint (signed_drop_bit 12 (m - s)) = sint (m - s) div 4096"
    by (simp add: sint_signed_drop_bit_eq drop_bit_eq_div)
  also have "sint (m - s) = 4096 * (int i - int j)"
    unfolding d ij by (simp add: algebra_simps)
  also have "\<dots> div 4096 = int i - int j"
    by (rule nonzero_mult_div_cancel_left) simp
  finally have "signed_drop_bit 12 (m - s) = word_of_int (int i - int j)"
    by (metis of_int_sint scast_id)
  moreover have "i = unat (drop_bit 12 m)" "j = unat (drop_bit 12 s)"
    using ij by (simp_all add: unat_drop_page)
  ultimately show "signed_drop_bit 12 (m - s) = drop_bit 12 m - drop_bit 12 s"
    by simp
qed

lemma shifted_view:
  assumes inv: "mm_inv mm" "mm_inv mm'" and v: "vmas mm p = Some v" "vmas mm n = Some w" "p \<noteq> n"
    and adj: "vm_end v = vm_start w" and f: "vmas mm' = (vmas mm)(p \<mapsto> v', n \<mapsto> w')"
    and r: "rng v' = (vm_start v, m)" "rng w' = (m, vm_end w)" and kd: "kind v' = kind v" "kind w' = kind w"
    and m: "vm_start v < m" "m < vm_end w"
  shows "mm_view mm' a = (if vm_start w \<le> a \<and> a < m then Some (kind v)
    else if m \<le> a \<and> a < vm_end v then Some (kind w) else mm_view mm a)"
proof -
  let ?rest = "\<lambda>x. covers ((vmas mm)(p := None, n := None)) a x"
  have new: "covers (vmas mm') a x \<longleftrightarrow> area_has v' a x \<or> area_has w' a x \<or> ?rest x" for x
    unfolding f using v(3) by (auto simp: covers_update fun_upd_twist)
  have old: "covers (vmas mm) a x \<longleftrightarrow> area_has v a x \<or> area_has w a x \<or> ?rest x" for x
    using covers_remove [of "vmas mm" p v a x] covers_remove [of "(vmas mm)(p := None)" n w a x] v by auto
  have rest: "\<not> ?rest x" if "vm_start v \<le> a" "a < vm_end w" for x
  proof
    assume "?rest x"
    then obtain q u where u: "vmas mm q = Some u" "q \<noteq> p" "q \<noteq> n" "vm_start u \<le> a" "a < vm_end u"
      unfolding covers_def by (auto split: if_splits)
    then show False
      using mm_inv_disjoint [OF inv(1) u(1) v(1)] mm_inv_disjoint [OF inv(1) u(1) v(2)] that adj by fastforce
  qed
  note ne = mm_inv_nonempty [OF inv(1) v(1)] mm_inv_nonempty [OF inv(1) v(2)]
  have "mm_view mm' a = Some x \<longleftrightarrow> (if vm_start w \<le> a \<and> a < m then x = kind v
      else if m \<le> a \<and> a < vm_end v then x = kind w else mm_view mm a = Some x)" for x
  proof (cases "vm_start v \<le> a \<and> a < vm_end w")
    case True
    then have "\<not> ?rest x"
      using rest by blast
    then show ?thesis
      unfolding mm_view_iff [OF inv(1)] mm_view_iff [OF inv(2)] new old
      using True r kd adj m ne by (auto simp: area_has_def rng_def)
  next
    case False
    then show ?thesis
      unfolding mm_view_iff [OF inv(1)] mm_view_iff [OF inv(2)] new old
      using r kd adj m ne by (auto simp: area_has_def rng_def)
  qed
  then show ?thesis
    by (intro opt_eqI) auto
qed

section \<open>The eight cases\<close>

definition area_at :: "mm_struct \<Rightarrow> vma_ptr \<Rightarrow> u64 \<Rightarrow> u64 \<Rightarrow> page_kind \<Rightarrow> bool" where
  "area_at mm p s e K \<longleftrightarrow> (\<exists>v. vmas mm p = Some v \<and> vm_start v = s \<and> vm_end v = e \<and> kind v = K)"

definition clear_but :: "vma_ptr set \<Rightarrow> u64 \<Rightarrow> u64 \<Rightarrow> mm_struct \<Rightarrow> bool" where
  "clear_but S addr end mm \<longleftrightarrow>
     (\<forall>q w. q \<notin> S \<longrightarrow> vmas mm q = Some w \<longrightarrow> vm_end w \<le> addr \<or> end \<le> vm_start w)"

lemma area_at_same: "same_areas mm mm' \<Longrightarrow> area_at mm p s e K \<Longrightarrow> area_at mm' p s e K"
proof -
  assume s: "same_areas mm mm'" and "area_at mm p s e K"
  then obtain v where v: "vmas mm p = Some v" "vm_start v = s" "vm_end v = e" "kind v = K"
    by (auto simp: area_at_def)
  obtain v' where "vmas mm' p = Some v'" "same_area v v'"
    using same_areas_Some [OF s v(1)] .
  with v show ?thesis
    by (simp add: area_at_def same_area_fields same_area_kind)
qed

lemma clear_but_same: "same_areas mm mm' \<Longrightarrow> clear_but S addr end mm \<Longrightarrow> clear_but S addr end mm'"
  unfolding clear_but_def
proof (intro allI impI)
  fix q w
  assume s: "same_areas mm mm'" and q: "q \<notin> S" "vmas mm' q = Some w"
    and c: "\<forall>q w. q \<notin> S \<longrightarrow> vmas mm q = Some w \<longrightarrow> vm_end w \<le> addr \<or> end \<le> vm_start w"
  then obtain v where v: "vmas mm q = Some v"
    using same_areas_None [OF s, of q] by auto
  then have "same_area v w"
    using same_areas_Some [OF s v] q(2) by auto
  then show "vm_end w \<le> addr \<or> end \<le> vm_start w"
    using c q(1) v by (auto simp: same_area_fields)
qed

lemma area_at_lt: "mm_inv mm \<Longrightarrow> area_at mm p s e K \<Longrightarrow> s < e"
  using mm_inv_nonempty by (auto simp: area_at_def)

lemma area_at_aligned: "mm_inv mm \<Longrightarrow> area_at mm p s e K \<Longrightarrow> offset_in_page s = 0 \<and> offset_in_page e = 0"
  using mm_inv_aligned by (auto simp: area_at_def)

lemma kind_move:
  "kind v = K \<Longrightarrow> pgoff - drop_bit 12 s = pk_base K \<Longrightarrow> kind (v\<lparr>vm_start := s, vm_end := e, vm_pgoff := pgoff\<rparr>) = K"
  by (auto simp: kind_def)

text \<open>
  Filling the range from one neighbour, over an area that spans it and the other neighbour if
  they are to go (cases 1, 2, 3, 6, 7 and 8).
\<close>

lemma commit_fill:
  assumes inv: "mm_inv mm" and rg: "addr < end" "offset_in_page addr = 0" "offset_in_page end = 0"
    and lo: "case lo of None \<Rightarrow> S = addr | Some q \<Rightarrow> area_at mm q S addr K"
    and mid: "\<And>q. mid = Some q \<Longrightarrow> \<exists>k. area_at mm q addr end k"
    and hi: "case hi of None \<Rightarrow> E = end | Some q \<Rightarrow> area_at mm q end E K"
    and p: "lo = Some p \<and> D = set_option mid \<union> set_option hi \<or> lo = None \<and> hi = Some p \<and> D = set_option mid"
    and out: "clear_but (insert p D) addr end mm"
    and plan: "plan = (plain_plan p S E pgoff)\<lparr>mp_remove := r, mp_remove2 := r2\<rparr>"
    and D: "D = set_option r \<union> set_option r2" "r = None \<Longrightarrow> r2 = None" "r2 = None \<or> r \<noteq> r2"
    and base: "pgoff - drop_bit 12 S = pk_base K" and dup: "\<And>d. dup = Some d \<Longrightarrow> vmas mm d \<noteq> None"
  shows "\<exists>res mm'. merge_commit env plan dup mm = Some (res, mm') \<and> merge_result K addr end mm res mm'"
proof -
  have SE: "S \<le> addr" "end \<le> E" "offset_in_page S = 0" "offset_in_page E = 0"
    using lo hi rg area_at_lt [OF inv, THEN less_imp_le] area_at_aligned [OF inv] by (auto split: option.splits)
  have each: "area_at mm q S addr K \<or> area_at mm q end E K \<or> (\<exists>k. area_at mm q addr end k)" if "q \<in> insert p D" for q
    using that p lo mid hi by (auto split: option.splits)
  obtain v where v: "vmas mm p = Some v" "kind v = K" "vm_start v = S \<and> vm_end v = addr \<and> lo = Some p
      \<or> vm_start v = end \<and> vm_end v = E \<and> lo = None"
    using p lo hi by (auto simp: area_at_def)
  have "p \<notin> D"
    using p mid hi v rg mm_inv_nonempty [OF inv v(1)] SE by (auto simp: area_at_def)
  moreover have "D \<subseteq> dom (vmas mm)"
    using each unfolding area_at_def by blast
  moreover have "S < vm_start v \<or> vm_end v < E"
    using v(3) rg(1) SE by auto
  moreover have "S \<le> vm_start w \<and> vm_end w \<le> E" if "q \<in> insert p D" "vmas mm q = Some w" for q w
    using each [OF that(1)] that(2) SE rg(1) by (auto simp: area_at_def)
  moreover have "kind w = K \<or> (addr \<le> vm_start w \<and> vm_end w \<le> end)" if "q \<in> insert p D" "vmas mm q = Some w" for q w
    using each [OF that(1)] that(2) by (auto simp: area_at_def)
  moreover have "addr \<le> a \<and> a < end
      \<or> (\<exists>q \<in> insert p D. \<exists>w. vmas mm q = Some w \<and> vm_start w \<le> a \<and> a < vm_end w)" if "S \<le> a" "a < E" for a
  proof (cases "a < addr")
    case True
    then show ?thesis
      using that lo p by (cases lo) (auto simp: area_at_def)
  next
    case False
    then show ?thesis
      using that hi p by (cases hi) (auto simp: area_at_def)
  qed
  moreover have "vm_end w \<le> addr \<or> end \<le> vm_start w" if "q \<notin> insert p D" "vmas mm q = Some w" for q w
    using out that by (auto simp: clear_but_def)
  ultimately show ?thesis
    using kind_move [OF v(2) base, of E] dup SE D
    by (intro commit_expand_result [OF inv v(1), where D = D and start = S and end' = E])
      (simp_all add: plan plain_plan_def)
qed

text \<open>Moving the border between the range's area and a neighbour (cases 4 and 5).\<close>

lemma commit_slide:
  assumes inv: "mm_inv mm" and p: "area_at mm p s b Kp" and n: "area_at mm n b e Kn"
    and m: "s < m" "m < e" "m \<noteq> b" "offset_in_page m = 0" "unat m < 2 ^ 63" "unat b < 2 ^ 63"
    and plan: "plan = (plain_plan p s m pgoff)\<lparr>mp_res := q, mp_adjust := Some n, mp_adj_start := m - b\<rparr>"
    and base: "\<And>v. vmas mm p = Some v \<Longrightarrow> vm_pgoff v = pgoff"
    and alt: "b < m \<and> q = p \<and> K = Kp \<and> addr = b \<and> end = m \<or> m < b \<and> q = n \<and> K = Kn \<and> addr = m \<and> end = b"
    and dup: "\<And>d. dup = Some d \<Longrightarrow> vmas mm d \<noteq> None"
  shows "\<exists>res mm'. merge_commit env plan dup mm = Some (res, mm') \<and> merge_result K addr end mm res mm'"
proof -
  obtain v w where v: "vmas mm p = Some v" "vm_start v = s" "vm_end v = b" "kind v = Kp"
    and w: "vmas mm n = Some w" "vm_start w = b" "vm_end w = e" "kind w = Kn"
    using p n by (auto simp: area_at_def)
  have "p \<noteq> n"
    using v w area_at_lt [OF inv p] by auto
  let ?v' = "v\<lparr>vm_end := m\<rparr>"
  let ?w' = "w\<lparr>vm_start := m, vm_pgoff := vm_pgoff w + signed_drop_bit 12 (m - vm_start w)\<rparr>"
  note sh = shift_pages [OF m(4) _ m(5,6)] area_at_aligned [OF inv n]
  have "\<exists>res mm'. merge_commit env plan dup mm = Some (res, mm') \<and> committed plan mm
    ((vmas mm)(p \<mapsto> ?v', n \<mapsto> ?w')) res mm'"
    by (rule commit_shift [OF inv v(1) w(1) \<open>p \<noteq> n\<close>])
      (use v w m sh base dup in \<open>simp_all add: plan plain_plan_def\<close>)
  then obtain res mm' where c: "merge_commit env plan dup mm = Some (res, mm')"
      "committed plan mm ((vmas mm)(p \<mapsto> ?v', n \<mapsto> ?w')) res mm'"
    by blast
  show ?thesis
  proof (cases res)
    case None
    then show ?thesis
      using c by (auto simp: committed_def merge_result_def)
  next
    case (Some x)
    then have x: "x = q" "mm_inv mm'" "only_areas mm mm'" "vmas mm' = (vmas mm)(p \<mapsto> ?v', n \<mapsto> ?w')"
      using c(2) plan by (auto simp: committed_def)
    have kd: "kind ?v' = kind v" "kind ?w' = kind w"
      using sh w by (simp_all add: kind_def)
    have "mm_view mm' a = (if addr \<le> a \<and> a < end then Some K else mm_view mm a)" for a
      using shifted_view [OF inv x(2) v(1) w(1) \<open>p \<noteq> n\<close> _ x(4) _ _ kd] v w m alt by (auto simp: rng_def)
    moreover have "\<exists>mv. vmas mm' q = Some mv \<and> vm_start mv \<le> addr \<and> end \<le> vm_end mv"
      using alt v w m \<open>p \<noteq> n\<close> area_at_lt [OF inv p] area_at_lt [OF inv n] unfolding x(4)
      by (auto intro: less_imp_le)
    ultimately show ?thesis
      using c(1) Some x by (auto simp: merge_result_def)
  qed
qed

section \<open>From the plan to the result\<close>

definition planned_ok :: "mmap_env \<Rightarrow> page_kind \<Rightarrow> u64 \<Rightarrow> u64 \<Rightarrow> mm_struct \<Rightarrow> planned \<Rightarrow> bool" where
  "planned_ok env K addr end mm r \<longleftrightarrow> (\<exists>err dup plan mm1. r = Some (err, dup, plan, mm1) \<and> same_areas mm mm1
     \<and> (err = 0 \<longrightarrow> (\<exists>res mm'. merge_commit env plan dup mm1 = Some (res, mm') \<and> merge_result K addr end mm res mm')))"

lemma planned_plain:
  assumes "err = 0 \<Longrightarrow> \<exists>res mm'. merge_commit env plan None mm = Some (res, mm') \<and> merge_result K addr end mm res mm'"
  shows "planned_ok env K addr end mm (Some (err, None, plan, mm))"
  using assms by (auto simp: planned_ok_def)

lemma planned_dup:
  assumes inv: "mm_inv mm" and d: "vmas mm d = Some dv" "vmas mm s = Some sv"
    and commit: "\<And>mm1 dup. same_areas mm mm1 \<Longrightarrow> mm_inv mm1 \<Longrightarrow> (\<And>x. dup = Some x \<Longrightarrow> vmas mm1 x \<noteq> None) \<Longrightarrow>
      \<exists>res mm'. merge_commit env plan dup mm1 = Some (res, mm') \<and> merge_result K addr end mm1 res mm'"
  shows "planned_ok env K addr end mm
    (do { (err, dup, mm) \<leftarrow> dup_anon_vma env d s mm; Some (err, dup, plan, mm) })"
proof -
  obtain err dup mm1 where du: "dup_anon_vma env d s mm = Some (err, dup, mm1)" "same_areas mm mm1"
      "dup = None \<or> dup = Some d"
    by (rule dup_anon_vma_same [OF d])
  have "vmas mm1 x \<noteq> None" if "dup = Some x" for x
    using du(3) that same_areas_None [OF du(2), of d] d(1) by auto
  then obtain res mm' where "merge_commit env plan dup mm1 = Some (res, mm')" "merge_result K addr end mm1 res mm'"
    using commit [OF du(2) same_areas_inv [OF du(2) inv]] by blast
  then show ?thesis
    using du merge_result_same [OF du(2) inv] by (auto simp: planned_ok_def)
qed

text \<open>
  What the caller of \<open>vma_merge\<close> guarantees: \<open>prev\<close> starts below the range, and an area that
  the range touches besides starts with it and contains it.
\<close>

definition prev_end_of :: "vma_ptr option \<Rightarrow> mm_struct \<Rightarrow> u64" where
  "prev_end_of prev mm = (case prev of None \<Rightarrow> 0
     | Some p \<Rightarrow> (case vmas mm p of None \<Rightarrow> 0 | Some v \<Rightarrow> vm_end v))"

definition merge_pre :: "vma_ptr option \<Rightarrow> u64 \<Rightarrow> u64 \<Rightarrow> u64 \<Rightarrow> mm_struct \<Rightarrow> bool" where
  "merge_pre prev addr end pgoff mm \<longleftrightarrow> addr < end \<and> offset_in_page addr = 0 \<and> offset_in_page end = 0
     \<and> unat end < 2 ^ 63
     \<and> (\<forall>p. prev = Some p \<longrightarrow> (\<exists>v. vmas mm p = Some v \<and> vm_start v < addr
          \<and> (addr < vm_end v \<longrightarrow> end \<le> vm_end v \<and> pgoff = vm_pgoff v + drop_bit PAGE_SHIFT (addr - vm_start v))))
     \<and> (\<forall>q w. vmas mm q = Some w \<longrightarrow> prev_end_of prev mm < vm_end w \<longrightarrow> vm_start w < end \<longrightarrow>
          vm_start w = addr \<and> end \<le> vm_end w \<and> vm_pgoff w = pgoff)"

lemma merge_preD:
  assumes "merge_pre prev addr end pgoff mm"
  shows "addr < end" "offset_in_page addr = 0" "offset_in_page end = 0" "unat end < 2 ^ 63"
    and "\<And>p. prev = Some p \<Longrightarrow> (\<exists>v. vmas mm p = Some v \<and> vm_start v < addr
          \<and> (addr < vm_end v \<longrightarrow> end \<le> vm_end v \<and> pgoff = vm_pgoff v + drop_bit 12 (addr - vm_start v)))"
    and "\<And>q w. vmas mm q = Some w \<Longrightarrow> prev_end_of prev mm < vm_end w \<Longrightarrow> vm_start w < end \<Longrightarrow>
          vm_start w = addr \<and> end \<le> vm_end w \<and> vm_pgoff w = pgoff"
  using assms unfolding merge_pre_def by blast+

lemma curr_Some:
  assumes inv: "mm_inv mm" and pre: "merge_pre prev addr end pgoff mm"
    and c: "find_vma_intersection mm (prev_end_of prev mm) end = Some c"
  obtains cv where "vmas mm c = Some cv" "vm_start cv = addr" "end \<le> vm_end cv" "vm_pgoff cv = pgoff"
    "prev_end_of prev mm < vm_end cv"
proof -
  have f: "mt_find (prev_end_of prev mm) end (mm_mt mm) = Some c"
    using c by (simp add: find_vma_intersection_def split: if_splits)
  obtain s e where se: "(s, e, c) \<in> set (mm_mt mm)" "prev_end_of prev mm < e" "s < end"
    using inv mt_find_SomeE [OF _ f] unfolding mm_inv_def by metis
  obtain cv where "vmas mm c = Some cv" "vm_start cv = s" "vm_end cv = e"
    using mm_inv_area [OF inv se(1)] .
  then show thesis
    using that merge_preD(6) [OF pre, of c cv] se by auto
qed

lemma curr_None:
  assumes inv: "mm_inv mm" and c: "find_vma_intersection mm lo end = None" and w: "vmas mm q = Some w"
  shows "end \<le> lo \<or> vm_end w \<le> lo \<or> end \<le> vm_start w"
  using c mm_inv_mem [OF inv w] unfolding find_vma_intersection_def
  by (fastforce simp: mt_find_None split: if_splits)

text \<open>No other area meets the range.\<close>

lemma merge_clear:
  assumes inv: "mm_inv mm" and pre: "merge_pre prev addr end pgoff mm"
  shows "clear_but (set_option prev \<union> set_option (find_vma_intersection mm (prev_end_of prev mm) end)) addr end mm"
  unfolding clear_but_def
proof (intro allI impI)
  let ?c = "find_vma_intersection mm (prev_end_of prev mm) end"
  fix q w
  assume q: "q \<notin> set_option prev \<union> set_option ?c" and w: "vmas mm q = Some w"
  note d = merge_preD [OF pre]
  show "vm_end w \<le> addr \<or> end \<le> vm_start w"
  proof (cases "prev_end_of prev mm < vm_end w \<and> vm_start w < end")
    case True
    then have ws: "vm_start w = addr" "end \<le> vm_end w"
      using d(6) [OF w] by auto
    show ?thesis
    proof (cases ?c)
      case None
      then have "end \<le> prev_end_of prev mm"
        using curr_None [OF inv None w] True by auto
      then obtain p v where p: "prev = Some p" "vmas mm p = Some v" "end \<le> vm_end v" "vm_start v < addr"
        using d(1) d(5) unfolding prev_end_of_def by (fastforce split: option.splits)
      then show ?thesis
        using mm_inv_disjoint [OF inv w p(2)] q ws d(1) by auto
    next
      case (Some c)
      obtain cv where cv: "vmas mm c = Some cv" "vm_start cv = addr" "end \<le> vm_end cv"
        by (rule curr_Some [OF inv pre Some])
      then show ?thesis
        using mm_inv_disjoint [OF inv w cv(1)] q ws d(1) Some by auto
    qed
  next
    case False
    then consider "end \<le> vm_start w" | "vm_end w \<le> prev_end_of prev mm" "vm_start w < end"
      by force
    then show ?thesis
    proof cases
      case 2
      have "vm_start w < vm_end w"
        by (rule mm_inv_nonempty [OF inv w])
      then obtain p v where p: "prev = Some p" "vmas mm p = Some v" "vm_end w \<le> vm_end v" "vm_start v < addr"
          "addr < vm_end v \<longrightarrow> end \<le> vm_end v"
        using 2(1) d(5) unfolding prev_end_of_def by (fastforce split: option.splits)
      then show ?thesis
        using mm_inv_disjoint [OF inv w p(2)] q 2 by fastforce
    qed simp
  qed
qed

lemma planned_ok_same:
  assumes "same_areas mm mm1" and "mm_inv mm" and "planned_ok env K addr end mm1 r"
  shows "planned_ok env K addr end mm r"
  using assms(3) same_areas_trans [OF assms(1)] merge_result_same [OF assms(1,2)]
  unfolding planned_ok_def by blast

text \<open>The neighbours that are found mergeable have the attributes of the request.\<close>

lemma merge_prev_area:
  assumes inv: "mm_inv mm" and p: "vmas mm p = Some v" and addr: "addr = vm_end v"
    and can: "can_vma_merge_after env v flags anon file pgoff uffd name"
  shows "area_at mm p (vm_start v) addr (request_kind addr flags file pgoff uffd name)"
  using merge_after_kind [OF can] mm_inv_aligned [OF inv p] mm_inv_nonempty [OF inv p] p addr
  by (auto simp: area_at_def)

lemma merge_next_area:
  assumes inv: "mm_inv mm" and pre: "merge_pre prev addr end pgoff mm"
    and c_def: "c = find_vma_intersection mm (prev_end_of prev mm) end"
    and adj: "\<And>x xv. c = Some x \<Longrightarrow> vmas mm x = Some xv \<Longrightarrow> vm_end xv = end"
    and n: "vma_lookup mm end = Some n" "vmas mm n = Some v"
    and can: "can_vma_merge_before env v flags anon file (pgoff + drop_bit 12 (end - addr)) uffd name"
  shows "area_at mm n end (vm_end v) (request_kind addr flags file pgoff uffd name)"
    and "n \<notin> set_option prev \<union> set_option c"
proof -
  note d = merge_preD [OF pre]
  have rg: "vm_start v \<le> end" "end < vm_end v"
    using vma_lookup_iff [OF inv] n by auto
  have not_prev: "prev \<noteq> Some n"
  proof
    assume "prev = Some n"
    then have s: "vm_start v < addr" "pgoff = vm_pgoff v + drop_bit 12 (addr - vm_start v)"
      using d(1) d(5) [of n] n(2) rg by auto
    have al: "offset_in_page (vm_start v) = 0"
      using mm_inv_aligned [OF inv n(2)] by simp
    have "drop_bit 12 (addr - vm_start v) + drop_bit 12 (end - addr) = 0"
      using can s(2) by (simp add: can_vma_merge_before_def)
    then have "drop_bit 12 end = drop_bit 12 (vm_start v)"
      using drop_page_diff [OF al, of addr] drop_page_diff [OF d(2), of "end"] s(1) d(1) by simp
    then have "unat end div 4096 = unat (vm_start v) div 4096"
      by (metis unat_drop_page)
    then have "end = vm_start v"
      using al d(3) by (metis page_aligned_iff word_unat_eq_iff mult_div_mod_eq)
    then show False
      using s(1) d(1) by simp
  qed
  have not_curr: "c \<noteq> Some n"
    using adj n(2) rg(2) by fastforce
  show notin: "n \<notin> set_option prev \<union> set_option c"
    using not_prev not_curr by auto
  then have "vm_end v \<le> addr \<or> end \<le> vm_start v"
    using merge_clear [OF inv pre] n(2) c_def unfolding clear_but_def by blast
  then have "vm_start v = end"
    using rg d(1) by auto
  then show "area_at mm n end (vm_end v) (request_kind addr flags file pgoff uffd name)"
    using merge_before_kind [of env v flags anon "file" pgoff addr uffd name] can n(2) d(1,2)
    by (auto simp: area_at_def)
qed

lemma base_of: "area_at mm p s e K \<Longrightarrow> vmas mm p = Some v \<Longrightarrow> vm_pgoff v - drop_bit 12 s = pk_base K"
  by (auto simp: area_at_def kind_def)

lemma merge_both_ok:
  assumes inv: "mm_inv mm" and rg: "addr < end" "offset_in_page addr = 0" "offset_in_page end = 0"
    and p: "area_at mm p s addr K" and n: "area_at mm n end e K"
    and c: "\<And>q. c = Some q \<Longrightarrow> \<exists>k. area_at mm q addr end k"
    and out: "clear_but (insert p (set_option c)) addr end mm"
  shows "planned_ok env K addr end mm (merge_both env p c n mm)"
proof -
  obtain pv nv where pv: "vmas mm p = Some pv" "vm_start pv = s" and nv: "vmas mm n = Some nv" "vm_end nv = e"
    using p n by (auto simp: area_at_def)
  let ?plan = "\<lambda>r r2. (plain_plan p s e (vm_pgoff pv))\<lparr>mp_remove := r, mp_remove2 := r2\<rparr>"
  let ?D = "set_option c \<union> {n}"
  have out': "clear_but (insert p ?D) addr end mm"
    using out by (auto simp: clear_but_def)
  have commit: "\<exists>res mm'. merge_commit env (?plan r r2) dup mm1 = Some (res, mm') \<and> merge_result K addr end mm1 res mm'"
    if s: "same_areas mm mm1" "mm_inv mm1" and du: "\<And>x. dup = Some x \<Longrightarrow> vmas mm1 x \<noteq> None"
      and D: "?D = set_option r \<union> set_option r2" "r = None \<Longrightarrow> r2 = None" "r2 = None \<or> r \<noteq> r2" for mm1 dup r r2
  proof (rule commit_fill [OF s(2) rg, where lo = "Some p" and mid = c and hi = "Some n", OF _ _ _ _ _ refl D])
    show "\<And>q. c = Some q \<Longrightarrow> \<exists>k. area_at mm1 q addr end k"
      using c area_at_same [OF s(1)] by blast
  qed (use area_at_same [OF s(1) p] area_at_same [OF s(1) n] clear_but_same [OF s(1) out'] base_of [OF p pv(1)] du in auto)
  show ?thesis
  proof (cases c)
    case None
    have "planned_ok env K addr end mm
        (do { (err, dup, mm) \<leftarrow> dup_anon_vma env p n mm; Some (err, dup, ?plan (Some n) None, mm) })"
      by (rule planned_dup [OF inv pv(1) nv(1)]) (rule commit; auto simp: None)
    then show ?thesis
      using None pv nv by (simp add: merge_both_def Let_def plain_plan_def)
  next
    case (Some q)
    obtain cv where cv: "vmas mm q = Some cv" "vm_start cv = addr"
      using c [OF Some] by (auto simp: area_at_def)
    have "q \<noteq> n"
      using c [OF Some] n rg(1) by (auto simp: area_at_def)
    obtain err dup mm1 where du: "dup_anon_vma env p n mm = Some (err, dup, mm1)" "same_areas mm mm1"
        "dup = None \<or> dup = Some p"
      by (rule dup_anon_vma_same [OF pv(1) nv(1)])
    note inv1 = same_areas_inv [OF du(2) inv]
    have r: "merge_both env p c n mm = do { (err, dup, mm) \<leftarrow> (if anon_vma nv = None
        then dup_anon_vma env p q mm1 else Some (err, dup, mm1)); Some (err, dup, ?plan (Some q) (Some n), mm) }"
      using Some pv nv du(1) by (simp add: merge_both_def Let_def plain_plan_def)
    have two: "\<exists>res mm'. merge_commit env (?plan (Some q) (Some n)) dup mm2 = Some (res, mm')
        \<and> merge_result K addr end mm2 res mm'"
      if "same_areas mm mm2" "mm_inv mm2" "\<And>x. dup = Some x \<Longrightarrow> vmas mm2 x \<noteq> None" for mm2 dup
      by (rule commit [OF that(1,2)]) (use that(3) Some \<open>q \<noteq> n\<close> in auto)
    have exist: "vmas mm1 x \<noteq> None" if "dup = Some x" for x
      using du(3) that same_areas_None [OF du(2), of p] pv(1) by auto
    show ?thesis
    proof (cases "anon_vma nv = None")
      case True
      obtain pv1 cv1 where "vmas mm1 p = Some pv1" "vmas mm1 q = Some cv1"
        using same_areas_Some [OF du(2) pv(1)] same_areas_Some [OF du(2) cv(1)] by metis
      then have "planned_ok env K addr end mm1
          (do { (err, dup, mm) \<leftarrow> dup_anon_vma env p q mm1; Some (err, dup, ?plan (Some q) (Some n), mm) })"
        by (rule planned_dup [OF inv1]) (rule two; use same_areas_trans [OF du(2)] in blast)
      then show ?thesis
        unfolding r using True planned_ok_same [OF du(2) inv] by simp
    next
      case False
      obtain res mm' where "merge_commit env (?plan (Some q) (Some n)) dup mm1 = Some (res, mm')"
          "merge_result K addr end mm res mm'"
        using two [OF du(2) inv1, of dup] exist merge_result_same [OF du(2) inv] by blast
      then show ?thesis
        unfolding r using False du(2) by (auto simp: planned_ok_def)
    qed
  qed
qed

end
