(* ===== verification/Vma_Merge_Spec.thy ===== *)
theory Vma_Merge_Spec
  imports Vma_Merge_Proofs
begin

text \<open>
  The eight cases of \<open>vma_merge\<close> put together: which neighbour takes the range, what its plan
  does to the address space, and the contract of the whole function.
\<close>

lemma same_areas_pgoff:
  assumes "same_areas mm mm1" and "vmas mm p = Some pv" and "vmas mm1 p = Some v"
  shows "vm_pgoff v = vm_pgoff pv"
proof -
  obtain v' where "vmas mm1 p = Some v'" "same_area pv v'"
    using same_areas_Some [OF assms(1,2)] .
  with assms(3) show ?thesis
    by (simp add: same_area_fields)
qed

lemma merge_into_prev_ok:
  assumes inv: "mm_inv mm" and pre: "addr < end" "offset_in_page addr = 0" "offset_in_page end = 0" "unat end < 2 ^ 63"
    and p: "area_at mm p s addr K"
    and c: "\<And>q. c = Some q \<Longrightarrow> \<exists>e k. area_at mm q addr e k \<and> end \<le> e"
    and out: "clear_but (insert p (set_option c)) addr end mm"
  shows "planned_ok env K addr end mm (merge_into_prev env p c end mm)"
proof -
  obtain pv where pv: "vmas mm p = Some pv" "vm_start pv = s"
    using p by (auto simp: area_at_def)
  let ?plan = "plain_plan p s end (vm_pgoff pv)"
  have fill: "\<exists>res mm'. merge_commit env (?plan\<lparr>mp_remove := c\<rparr>) dup mm1 = Some (res, mm')
      \<and> merge_result K addr end mm1 res mm'"
    if s: "same_areas mm mm1" "mm_inv mm1" and du: "\<And>x. dup = Some x \<Longrightarrow> vmas mm1 x \<noteq> None"
      and mid: "\<And>q. c = Some q \<Longrightarrow> \<exists>k. area_at mm q addr end k" for mm1 dup
  proof (rule commit_fill [OF s(2) pre(1-3), where lo = "Some p" and mid = c and hi = None and r = c and ?r2.0 = None,
        where D = "set_option c"])
    show "\<And>q. c = Some q \<Longrightarrow> \<exists>k. area_at mm1 q addr end k"
      using mid area_at_same [OF s(1)] by blast
  qed (use area_at_same [OF s(1) p] clear_but_same [OF s(1) out] base_of [OF p pv(1)] pv du in
      \<open>auto simp: plain_plan_def\<close>)
  show ?thesis
  proof (cases c)
    case None
    then show ?thesis
      using fill [of mm None] inv pv planned_plain [of 0 env "?plan\<lparr>mp_remove := c\<rparr>" mm]
      by (simp add: merge_into_prev_def plain_plan_def)
  next
    case (Some q)
    obtain e k cv where cv: "area_at mm q addr e k" "end \<le> e" "vmas mm q = Some cv" "vm_end cv = e" "vm_start cv = addr"
      using c [OF Some] by (auto simp: area_at_def)
    show ?thesis
    proof (cases "end = e")
      case True
      have "planned_ok env K addr end mm
          (do { (err, dup, mm) \<leftarrow> dup_anon_vma env p q mm; Some (err, dup, ?plan\<lparr>mp_remove := c\<rparr>, mm) })"
        by (rule planned_dup [OF inv pv(1) cv(3)], rule fill) (use Some True cv(1) in auto)
      then show ?thesis
        using Some pv cv True by (auto simp: merge_into_prev_def Let_def intro: planned_plain)
    next
      case False
      let ?shift = "?plan\<lparr>mp_res := p, mp_adjust := Some q, mp_adj_start := end - addr\<rparr>"
      have small: "unat addr < 2 ^ 63"
        using pre(1,4) by (simp add: word_less_nat_alt)
      have lt: "s < end" "end < e" "end \<noteq> addr"
        using area_at_lt [OF inv p] pre(1) False cv(2) by auto
      have "planned_ok env K addr end mm
          (do { (err, dup, mm) \<leftarrow> dup_anon_vma env p q mm; Some (err, dup, ?shift, mm) })"
      proof (rule planned_dup [OF inv pv(1) cv(3)])
        fix mm1 dup
        assume s: "same_areas mm mm1" "mm_inv mm1" and du: "\<And>x. dup = Some x \<Longrightarrow> vmas mm1 x \<noteq> None"
        show "\<exists>res mm'. merge_commit env ?shift dup mm1 = Some (res, mm') \<and> merge_result K addr end mm1 res mm'"
          by (rule commit_slide [OF s(2) area_at_same [OF s(1) p] area_at_same [OF s(1) cv(1)] lt pre(3,4) small refl
                same_areas_pgoff [OF s(1) pv(1)] _ du])
            (use pre(1) in simp_all)
      qed
      then show ?thesis
        using Some pv cv False by (simp add: merge_into_prev_def Let_def plain_plan_def)
    qed
  qed
qed

lemma base_moved:
  assumes "g - drop_bit 12 hi = B" and "lo \<le> hi" and "offset_in_page lo = 0"
  shows "g - drop_bit 12 (hi - lo) - drop_bit 12 lo = (B :: u64)"
  using assms drop_page_diff [OF assms(3,2)] by simp

text \<open>The successor takes the range over, which the predecessor does not reach into (cases 3 and 8).\<close>

lemma merge_into_next_fill:
  assumes inv: "mm_inv mm" and rg: "addr < end" "offset_in_page addr = 0" "offset_in_page end = 0"
    and n: "area_at mm n end e K" and c: "\<And>q. c = Some q \<Longrightarrow> \<exists>k. area_at mm q addr end k"
    and cb: "\<And>q cv. c = Some q \<Longrightarrow> vmas mm q = Some cv \<Longrightarrow> vm_pgoff cv - drop_bit 12 addr = pk_base K"
    and prev: "\<And>p. prev = Some p \<Longrightarrow> \<exists>pv. vmas mm p = Some pv \<and> vm_end pv \<le> addr"
    and out: "clear_but (insert n (set_option c)) addr end mm"
  shows "planned_ok env K addr end mm (merge_into_next env prev c n addr (drop_bit 12 (end - addr)) mm)"
proof -
  obtain nv where nv: "vmas mm n = Some nv" "vm_end nv = e"
    using n by (auto simp: area_at_def)
  have no: "(case prev of None \<Rightarrow> Some None
      | Some p \<Rightarrow> do { pv \<leftarrow> vmas mm p; Some (if addr < vm_end pv then Some (p, pv) else None) }) = Some None"
    using prev by (cases prev) auto
  have fill: "\<exists>res mm'. merge_commit env ((plain_plan n addr e g)\<lparr>mp_remove := c\<rparr>) dup mm1 = Some (res, mm')
      \<and> merge_result K addr end mm1 res mm'"
    if s: "same_areas mm mm1" "mm_inv mm1" and du: "\<And>x. dup = Some x \<Longrightarrow> vmas mm1 x \<noteq> None"
      and g: "g - drop_bit 12 addr = pk_base K" for mm1 dup g
  proof (rule commit_fill [OF s(2) rg, where lo = None and mid = c and hi = "Some n" and r = c and ?r2.0 = None,
        where D = "set_option c"])
    show "\<And>q. c = Some q \<Longrightarrow> \<exists>k. area_at mm1 q addr end k"
      using c area_at_same [OF s(1)] by blast
  qed (use area_at_same [OF s(1) n] clear_but_same [OF s(1) out] g du in \<open>auto simp: plain_plan_def\<close>)
  show ?thesis
  proof (cases c)
    case None
    let ?g = "vm_pgoff nv - drop_bit 12 (end - addr)"
    have g: "?g - drop_bit 12 addr = pk_base K"
      by (rule base_moved [OF base_of [OF n nv(1)] less_imp_le [OF rg(1)] rg(2)])
    have "planned_ok env K addr end mm (Some (0, None, (plain_plan n addr e ?g)\<lparr>mp_remove := c\<rparr>, mm))"
      by (rule planned_plain) (rule fill [OF same_areas_refl inv _ g], simp)
    then show ?thesis
      using None nv no by (simp add: merge_into_next_def plain_plan_def)
  next
    case (Some q)
    obtain cv where cv: "vmas mm q = Some cv"
      using c [OF Some] by (auto simp: area_at_def)
    have "planned_ok env K addr end mm (do { (err, dup, mm) \<leftarrow> dup_anon_vma env n q mm;
        Some (err, dup, (plain_plan n addr e (vm_pgoff cv))\<lparr>mp_remove := c\<rparr>, mm) })"
      by (rule planned_dup [OF inv nv(1) cv], rule fill) (use cb [OF Some cv] in auto)
    then show ?thesis
      using Some nv no cv by (simp add: merge_into_next_def plain_plan_def Let_def)
  qed
qed

text \<open>The successor takes over the tail of the predecessor (case 4).\<close>

lemma merge_into_next_slide:
  assumes inv: "mm_inv mm" and rg: "addr < end" "offset_in_page addr = 0" "offset_in_page end = 0" "unat end < 2 ^ 63"
    and n: "area_at mm n end e K" and p: "area_at mm p s end k" "s < addr"
  shows "planned_ok env K addr end mm (merge_into_next env (Some p) c n addr pglen mm)"
proof -
  obtain nv pv where nv: "vmas mm n = Some nv" "vm_end nv = e" and pv: "vmas mm p = Some pv" "vm_start pv = s" "vm_end pv = end"
    using n p by (auto simp: area_at_def)
  have small: "unat addr < 2 ^ 63"
    using rg(1,4) by (simp add: word_less_nat_alt)
  have lt: "addr < e" "addr \<noteq> end"
    using area_at_lt [OF inv n] rg(1) by auto
  let ?plan = "(plain_plan p s addr (vm_pgoff pv))\<lparr>mp_res := n, mp_adjust := Some n, mp_adj_start := addr - end\<rparr>"
  have "planned_ok env K addr end mm (do { (err, dup, mm) \<leftarrow> dup_anon_vma env n p mm; Some (err, dup, ?plan, mm) })"
  proof (rule planned_dup [OF inv nv(1) pv(1)])
    fix mm1 dup
    assume s: "same_areas mm mm1" "mm_inv mm1" and du: "\<And>x. dup = Some x \<Longrightarrow> vmas mm1 x \<noteq> None"
    show "\<exists>res mm'. merge_commit env ?plan dup mm1 = Some (res, mm') \<and> merge_result K addr end mm1 res mm'"
      by (rule commit_slide [OF s(2) area_at_same [OF s(1) p(1)] area_at_same [OF s(1) n] p(2) lt rg(2) small rg(4) refl
            same_areas_pgoff [OF s(1) pv(1)] _ du])
        (use rg(1) in simp_all)
  qed
  then show ?thesis
    using nv pv rg(1) by (simp add: merge_into_next_def plain_plan_def)
qed

section \<open>The merge as a whole\<close>

lemma planned_run:
  assumes "planned_ok env K addr end mm r"
  shows "\<exists>res mm'. (do { (err, dup, plan, mm1) \<leftarrow> r; if err \<noteq> 0 then Some (None, mm1) else merge_commit env plan dup mm1 })
      = Some (res, mm') \<and> merge_result K addr end mm res mm'"
proof -
  have "same_areas mm mm1 \<Longrightarrow> merge_result K addr end mm None mm1" for mm1
    by (simp add: merge_result_def)
  then show ?thesis
    using assms unfolding planned_ok_def by (auto split: if_splits)
qed

text \<open>The area that the range touches besides the predecessor.\<close>

lemma curr_area:
  assumes inv: "mm_inv mm" and pre: "merge_pre prev addr end pgoff mm"
    and c: "find_vma_intersection mm (prev_end_of prev mm) end = Some q"
  shows "\<exists>e k. area_at mm q addr e k \<and> end \<le> e" "\<exists>cv. vmas mm q = Some cv"
    "vmas mm q = Some cv \<Longrightarrow> vm_start cv = addr \<and> vm_pgoff cv = pgoff"
proof -
  obtain x where x: "vmas mm q = Some x" "vm_start x = addr" "end \<le> vm_end x" "vm_pgoff x = pgoff"
    by (rule curr_Some [OF inv pre c])
  then show "\<exists>e k. area_at mm q addr e k \<and> end \<le> e" "\<exists>cv. vmas mm q = Some cv"
    "vmas mm q = Some cv \<Longrightarrow> vm_start cv = addr \<and> vm_pgoff cv = pgoff"
    by (auto simp: area_at_def)
qed

lemma merge_next_ok:
  assumes inv: "mm_inv mm" and pre: "merge_pre prev addr end pgoff mm"
    and c: "c = find_vma_intersection mm (prev_end_of prev mm) end"
    and adj: "\<And>x xv. c = Some x \<Longrightarrow> vmas mm x = Some xv \<Longrightarrow> vm_end xv = end"
    and n: "area_at mm n end e K" "n \<notin> set_option prev \<union> set_option c"
    and base: "pgoff - drop_bit 12 addr = pk_base K"
  shows "planned_ok env K addr end mm (merge_into_next env prev c n addr (drop_bit 12 (end - addr)) mm)"
proof -
  note d = merge_preD [OF pre]
  have mid: "\<exists>k. area_at mm q addr end k" if "c = Some q" for q
    using curr_area(2,3) [OF inv pre, of q] adj that c by (auto simp: area_at_def)
  show ?thesis
  proof (cases "\<exists>p pv. prev = Some p \<and> vmas mm p = Some pv \<and> addr < vm_end pv")
    case True
    then obtain p pv where p: "prev = Some p" "vmas mm p = Some pv" "addr < vm_end pv" by blast
    then have s: "vm_start pv < addr" "end \<le> vm_end pv"
      using d(5) [OF p(1)] by auto
    obtain nv where nv: "vmas mm n = Some nv" "vm_start nv = end"
      using n(1) by (auto simp: area_at_def)
    have "p \<noteq> n" using n(2) p(1) by auto
    then have "vm_end pv \<le> end"
      using mm_inv_disjoint [OF inv p(2) nv(1)] mm_inv_nonempty [OF inv nv(1)] nv(2) s(1) d(1) by auto
    then have "area_at mm p (vm_start pv) end (kind pv)"
      using p(2) s(2) by (auto simp: area_at_def)
    then show ?thesis
      unfolding p(1) by (rule merge_into_next_slide [OF inv d(1-4) n(1) _ s(1)])
  next
    case False
    have pv: "\<exists>pv. vmas mm p = Some pv \<and> vm_end pv \<le> addr" if "prev = Some p" for p
      using d(5) [OF that] False that by (auto simp: not_less)
    have out: "clear_but (insert n (set_option c)) addr end mm"
      unfolding clear_but_def
    proof (intro allI impI)
      fix q w
      assume q: "q \<notin> insert n (set_option c)" and w: "vmas mm q = Some w"
      show "vm_end w \<le> addr \<or> end \<le> vm_start w"
      proof (cases "prev = Some q")
        case True
        with pv w show ?thesis by auto
      next
        case False
        with q have "q \<notin> set_option prev \<union> set_option c" by auto
        with merge_clear [OF inv pre] w show ?thesis
          unfolding c [symmetric] clear_but_def by blast
      qed
    qed
    show ?thesis
      by (rule merge_into_next_fill [OF inv d(1-3) n(1) mid _ pv out])
        (use curr_area(3) [OF inv pre] base c in auto)
  qed
qed

text \<open>The two decisions: whether the predecessor, and whether the successor can take the range.\<close>

lemma adjacent_decision:
  assumes inv: "mm_inv mm" and pre: "merge_pre prev addr end pgoff mm"
    and c: "c = find_vma_intersection mm (prev_end_of prev mm) end"
  obtains adj where "(case c of None \<Rightarrow> Some True | Some x \<Rightarrow> do { cv \<leftarrow> vmas mm x; Some (end = vm_end cv) }) = Some adj"
    "\<forall>x xv. adj \<longrightarrow> c = Some x \<longrightarrow> vmas mm x = Some xv \<longrightarrow> vm_end xv = end"
proof (cases c)
  case (Some x)
  then obtain cv where cv: "vmas mm x = Some cv"
    using curr_area(2) [OF inv pre] c by auto
  show thesis
    by (rule that [of "end = vm_end cv"]) (use cv Some in auto)
qed (use that [of True] in simp)

lemma prev_decision:
  assumes inv: "mm_inv mm" and pre: "merge_pre prev addr end pgoff mm"
  obtains mp where "(case prev of None \<Rightarrow> Some False
      | Some p \<Rightarrow> do { pv \<leftarrow> vmas mm p; Some (addr = vm_end pv \<and> mpol_equal env (vm_policy pv) policy
          \<and> can_vma_merge_after env pv flags anon file pgoff uffd name) }) = Some mp"
    "mp \<longrightarrow> (\<exists>p v. prev = Some p \<and> vmas mm p = Some v
        \<and> area_at mm p (vm_start v) addr (request_kind addr flags file pgoff uffd name))"
proof (cases prev)
  case (Some p)
  then obtain v where v: "vmas mm p = Some v"
    using merge_preD(5) [OF pre] by blast
  show thesis
    by (rule that [of "addr = vm_end v \<and> mpol_equal env (vm_policy v) policy
        \<and> can_vma_merge_after env v flags anon file pgoff uffd name"])
      (use Some v merge_prev_area [OF inv v] in auto)
qed (use that [of False] in simp)

lemma next_decision:
  assumes inv: "mm_inv mm" and pre: "merge_pre prev addr end pgoff mm"
    and c: "c = find_vma_intersection mm (prev_end_of prev mm) end"
    and adj: "\<And>x xv. adj \<Longrightarrow> c = Some x \<Longrightarrow> vmas mm x = Some xv \<Longrightarrow> vm_end xv = end"
  obtains mn where "(case if adj then vma_lookup mm end else None of None \<Rightarrow> Some False
      | Some n \<Rightarrow> do { nv \<leftarrow> vmas mm n; Some (mpol_equal env policy (vm_policy nv)
          \<and> can_vma_merge_before env nv flags anon file (pgoff + drop_bit 12 (end - addr)) uffd name) }) = Some mn"
    "mn \<longrightarrow> adj \<and> (\<exists>n v. vma_lookup mm end = Some n \<and> vmas mm n = Some v
        \<and> area_at mm n end (vm_end v) (request_kind addr flags file pgoff uffd name) \<and> n \<notin> set_option prev \<union> set_option c)"
proof (cases "if adj then vma_lookup mm end else None")
  case (Some n)
  then have look: "adj" "vma_lookup mm end = Some n"
    by (simp_all split: if_splits)
  then obtain v where v: "vmas mm n = Some v"
    using vma_lookup_iff [OF inv] by blast
  show thesis
    by (rule that [of "mpol_equal env policy (vm_policy v)
        \<and> can_vma_merge_before env v flags anon file (pgoff + drop_bit 12 (end - addr)) uffd name"])
      (use look v merge_next_area [OF inv pre c _ look(2) v] adj in auto)
qed (use that [of False] in simp)

text \<open>Whichever case applies, its plan does what the request asks.\<close>

lemma merge_plan_ok:
  assumes inv: "mm_inv mm" and pre: "merge_pre prev addr end pgoff mm"
    and c: "c = find_vma_intersection mm (prev_end_of prev mm) end"
    and adj: "\<And>x xv. adj \<Longrightarrow> c = Some x \<Longrightarrow> vmas mm x = Some xv \<Longrightarrow> vm_end xv = end"
    and K: "pgoff - drop_bit 12 addr = pk_base K"
    and mp: "mp \<Longrightarrow> \<exists>p v. prev = Some p \<and> vmas mm p = Some v \<and> area_at mm p (vm_start v) addr K"
    and mn: "mn \<Longrightarrow> adj \<and> (\<exists>n v. nxt = Some n \<and> vmas mm n = Some v \<and> area_at mm n end (vm_end v) K
        \<and> n \<notin> set_option prev \<union> set_option c)"
    and b: "b \<Longrightarrow> mp \<and> mn" and some: "mp \<or> mn"
  shows "planned_ok env K addr end mm
      (if b then do { p \<leftarrow> prev; n \<leftarrow> nxt; merge_both env p c n mm }
       else if mp then do { p \<leftarrow> prev; merge_into_prev env p c end mm }
       else do { n \<leftarrow> nxt; merge_into_next env prev c n addr (drop_bit 12 (end - addr)) mm })"
proof -
  note d = merge_preD [OF pre]
  have cur: "\<exists>e k. area_at mm q addr e k \<and> end \<le> e" if "c = Some q" for q
    by (rule curr_area(1) [OF inv pre]) (use that c in simp)
  have mid: "\<exists>k. area_at mm q addr end k" if "c = Some q" adj for q
    using cur [OF that(1)] adj [OF that(2,1)] by (auto simp: area_at_def)
  have out: "clear_but (set_option prev \<union> set_option c) addr end mm"
    unfolding c by (rule merge_clear [OF inv pre])
  consider (both) b | (prev) "\<not> b" mp | (nxt) "\<not> b" "\<not> mp" mn
    using some by blast
  then show ?thesis
  proof cases
    case both
    obtain p s where p: "prev = Some p" "area_at mm p s addr K"
      using both b mp by blast
    obtain n e where n: "nxt = Some n" "area_at mm n end e K" adj
      using both b mn by blast
    have "planned_ok env K addr end mm (merge_both env p c n mm)"
      by (rule merge_both_ok [OF inv d(1-3) p(2) n(2)]) (use mid n(3) out p(1) in auto)
    with both p n show ?thesis by simp
  next
    case prev
    obtain p s where p: "prev = Some p" "area_at mm p s addr K"
      using prev mp by blast
    have "planned_ok env K addr end mm (merge_into_prev env p c end mm)"
      by (rule merge_into_prev_ok [OF inv d(1-4) p(2)]) (use cur out p(1) in auto)
    with prev p show ?thesis by simp
  next
    case nxt
    obtain n e where n: "nxt = Some n" "area_at mm n end e K" "n \<notin> set_option prev \<union> set_option c" adj
      using nxt mn by blast
    have "planned_ok env K addr end mm (merge_into_next env prev c n addr (drop_bit 12 (end - addr)) mm)"
      by (rule merge_next_ok [OF inv pre c _ n(2,3) K]) (use adj n(4) in blast)
    with nxt n show ?thesis by simp
  qed
qed

text \<open>
  \<open>vma_merge\<close> returns. If it merges, the whole range has the attributes asked for, every other
  address has those it had and the tree is in order; if not, no area has changed.
\<close>

lemma vma_merge_spec:
  assumes inv: "mm_inv mm" and pre: "merge_pre prev addr end pgoff mm"
  shows "\<exists>res mm'. vma_merge env prev addr end flags anon file pgoff policy uffd name mm = Some (res, mm')
    \<and> merge_result (request_kind addr flags file pgoff uffd name) addr end mm res mm'"
proof -
  let ?K = "request_kind addr flags file pgoff uffd name" and ?c = "find_vma_intersection mm (prev_end_of prev mm) end"
  note d = merge_preD [OF pre]
  have pe: "(case prev of None \<Rightarrow> Some 0 | Some p \<Rightarrow> map_option vm_end (vmas mm p)) = Some (prev_end_of prev mm)"
    using d(5) by (cases prev) (auto simp: prev_end_of_def)
  obtain adj where adj: "(case ?c of None \<Rightarrow> Some True | Some x \<Rightarrow> do { cv \<leftarrow> vmas mm x; Some (end = vm_end cv) }) = Some adj"
    "\<forall>x xv. adj \<longrightarrow> ?c = Some x \<longrightarrow> vmas mm x = Some xv \<longrightarrow> vm_end xv = end"
    by (rule adjacent_decision [OF inv pre refl])
  let ?next = "if adj then vma_lookup mm end else None"
  obtain mp where mp: "(case prev of None \<Rightarrow> Some False
      | Some p \<Rightarrow> do { pv \<leftarrow> vmas mm p; Some (addr = vm_end pv \<and> mpol_equal env (vm_policy pv) policy
          \<and> can_vma_merge_after env pv flags anon file pgoff uffd name) }) = Some mp"
    "mp \<longrightarrow> (\<exists>p v. prev = Some p \<and> vmas mm p = Some v \<and> area_at mm p (vm_start v) addr ?K)"
    by (rule prev_decision [OF inv pre])
  obtain mn where mn: "(case ?next of None \<Rightarrow> Some False
      | Some n \<Rightarrow> do { nv \<leftarrow> vmas mm n; Some (mpol_equal env policy (vm_policy nv)
          \<and> can_vma_merge_before env nv flags anon file (pgoff + drop_bit 12 (end - addr)) uffd name) }) = Some mn"
    "mn \<longrightarrow> adj \<and> (\<exists>n v. vma_lookup mm end = Some n \<and> vmas mm n = Some v \<and> area_at mm n end (vm_end v) ?K
        \<and> n \<notin> set_option prev \<union> set_option ?c)"
    by (rule next_decision [OF inv pre refl adj(2) [rule_format]])
  have special: ?thesis if "has flags VM_SPECIAL"
    using that by (simp add: vma_merge_def merge_result_def)
  have neither: ?thesis if "\<not> has flags VM_SPECIAL" "\<not> mp" "\<not> mn"
    using that by (simp add: vma_merge_def pe adj(1) mp(1) mn(1) Let_def merge_result_def)
  have plan: "\<exists>r. planned_ok env ?K addr end mm r \<and> vma_merge env prev addr end flags anon file pgoff policy uffd name mm
      = do { (err, dup, plan, mm1) \<leftarrow> r; if err \<noteq> 0 then Some (None, mm1) else merge_commit env plan dup mm1 }"
    if "\<not> has flags VM_SPECIAL" "mp \<or> mn"
  proof -
    let ?both = "case (prev, ?next) of (Some p, Some n) \<Rightarrow> do { pv \<leftarrow> vmas mm p; nv \<leftarrow> vmas mm n;
        Some (mp \<and> mn \<and> is_mergeable_anon_vma (anon_vma pv) (anon_vma nv) None) } | _ \<Rightarrow> Some False"
    obtain b where b: "?both = Some b" "b \<Longrightarrow> mp \<and> mn"
    proof -
      have "\<exists>pv. vmas mm p = Some pv" if "prev = Some p" for p using d(5) that by blast
      moreover have "\<exists>nv. vmas mm n = Some nv" if "vma_lookup mm end = Some n" for n
        using vma_lookup_iff [OF inv] that by blast
      ultimately have "\<exists>b. ?both = Some b \<and> (b \<longrightarrow> mp \<and> mn)"
        by (cases prev; cases ?next) (auto split: if_splits)
      then show thesis using that by blast
    qed
    have base: "pgoff - drop_bit 12 addr = pk_base ?K" by (simp add: request_kind_def)
    have go: "(\<not> mp \<and> \<not> mn) = False" using that(2) by blast
    let ?r = "if b then do { p \<leftarrow> prev; n \<leftarrow> ?next; merge_both env p ?c n mm }
       else if mp then do { p \<leftarrow> prev; merge_into_prev env p ?c end mm }
       else do { n \<leftarrow> ?next; merge_into_next env prev ?c n addr (drop_bit 12 (end - addr)) mm }"
    have "planned_ok env ?K addr end mm ?r"
      by (rule merge_plan_ok [where adj = adj and mp = mp and mn = mn, OF inv pre refl _ base _ _ _ that(2)])
        (use adj(2) mp(2) mn(2) b(2) in auto)
    moreover have "vma_merge env prev addr end flags anon file pgoff policy uffd name mm
        = do { (err, dup, plan, mm1) \<leftarrow> ?r; if err \<noteq> 0 then Some (None, mm1) else merge_commit env plan dup mm1 }"
      by (simp only: vma_merge_def Let_def that(1) pe adj(1) mp(1) mn(1) b(1) go bind.simps if_False)
    ultimately show ?thesis by blast
  qed
  have ?thesis if "\<not> has flags VM_SPECIAL" "mp \<or> mn"
  proof -
    from plan [OF that] obtain r where r: "planned_ok env ?K addr end mm r"
      "vma_merge env prev addr end flags anon file pgoff policy uffd name mm
        = do { (err, dup, plan, mm1) \<leftarrow> r; if err \<noteq> 0 then Some (None, mm1) else merge_commit env plan dup mm1 }"
      by blast
    show ?thesis
      unfolding r(2) by (rule planned_run [OF r(1)])
  qed
  then show ?thesis
    using special neither by blast
qed



definition two_pages :: mm_struct where
  "two_pages = empty_mm\<lparr>mm_mt := [(0x1000, 0x2000, 1), (0x3000, 0x4000, 2)],
     vmas := [1 \<mapsto> plain_vma 0x1000 0x2000 0x73, 2 \<mapsto> plain_vma 0x3000 0x4000 0x73], map_count := 2, total_vm := 2\<rparr>"

lemma two_pages_areas: "vmas two_pages q = Some w \<longleftrightarrow>
    q = 1 \<and> w = plain_vma 0x1000 0x2000 0x73 \<or> q = 2 \<and> w = plain_vma 0x3000 0x4000 0x73"
  by (auto simp: two_pages_def)

lemma two_pages_ok: "mm_inv two_pages"
  unfolding mm_inv_def
proof (intro conjI)
  show "mt_ok (mm_mt two_pages)"
    by (simp add: two_pages_def mt_ok_def)
  show "set (mm_mt two_pages) = entries (vmas two_pages)"
    unfolding entries_def two_pages_areas by (force simp: two_pages_def plain_vma_def)
  show "map_count two_pages = int (card (dom (vmas two_pages)))"
    by (simp add: two_pages_def)
  show "aligned_areas (vmas two_pages)"
    unfolding aligned_areas_def two_pages_areas by (auto simp: plain_vma_def page_aligned_iff)
qed

lemma two_pages_gap: "merge_pre (Some 1) 0x2000 0x3000 2 two_pages"
proof -
  have "prev_end_of (Some 1) two_pages = 0x2000"
    by (simp add: prev_end_of_def two_pages_def plain_vma_def)
  then show ?thesis
    unfolding merge_pre_def two_pages_areas by (auto simp: plain_vma_def page_aligned_iff)
qed


end
