(* ===== verification/Munmap.thy ===== *)
theory Munmap
  imports Vma_View
begin

text \<open>
  Removing mappings: \<open>munmap\<close> and the functions below it. A range is removed in three steps:
  areas that reach over its ends are split, the areas inside are collected, and then the tree,
  the counters and the areas themselves are updated. Everything that can fail comes before
  the first change that the process could see.
\<close>

section \<open>Definitions\<close>

text \<open>
  The collecting loop of \<open>do_vmi_align_munmap\<close>. Its result is the status, the areas collected
  so far in order, the number of their locked pages, and the state. The iterator moves from an
  area to the first one at or after its end. \<open>n\<close> bounds the number of rounds.
\<close>

fun munmap_gather ::
  "nat \<Rightarrow> mmap_env \<Rightarrow> u64 \<Rightarrow> u64 \<Rightarrow> bool \<Rightarrow> vma_ptr \<Rightarrow> vma_ptr list \<Rightarrow> u64 \<Rightarrow> mm_struct
    \<Rightarrow> (int \<times> vma_ptr list \<times> u64 \<times> mm_struct) option" where
  "munmap_gather 0 env start end uf next detached locked_pages mm = None"
| "munmap_gather (Suc n) env start end uf next detached locked_pages mm = do {
     v \<leftarrow> vmas mm next;
     (error, mm) \<leftarrow> (if vm_end v > end then split_vma_nocheck env next end False mm else Some (0, mm));
     if error \<noteq> 0 then Some (error, detached, locked_pages, mm)
     else if detach_store env mm detached \<noteq> 0
     then Some (detach_store env mm detached, detached, locked_pages, mm)
     else do {
       v \<leftarrow> vmas mm next;
       let locked_pages = (if has (vm_flags v) VM_LOCKED then locked_pages + vma_pages v else locked_pages);
       let detached = detached @ [next];
       let error = (if uf then userfaultfd_unmap_prep env mm next start end else 0);
       if error \<noteq> 0 then Some (error, detached, locked_pages, mm)
       else (case mt_find (vm_end v) end (mm_mt mm) of
          None \<Rightarrow> Some (0, detached, locked_pages, mm)
        | Some next' \<Rightarrow> munmap_gather n env start end uf next' detached locked_pages mm) } }"

definition unmap_region ::
  "vma_ptr option \<Rightarrow> vma_ptr option \<Rightarrow> u64 \<Rightarrow> u64 \<Rightarrow> mm_struct \<Rightarrow> mm_struct option" where
  "unmap_region prev next start end mm = do {
     floor \<leftarrow> (case prev of None \<Rightarrow> Some 0 | Some p \<Rightarrow> map_option vm_end (vmas mm p));
     ceiling \<leftarrow> (case next of None \<Rightarrow> Some 0 | Some p \<Rightarrow> map_option vm_start (vmas mm p));
     Some (log_calls [UnmapVmas start end, FreePgtables floor ceiling] mm) }"

text \<open>The loop of \<open>remove_mt\<close> over the collected areas, with the pages to give back.\<close>

fun remove_mt_areas :: "mmap_env \<Rightarrow> vma_ptr list \<Rightarrow> u64 \<Rightarrow> mm_struct \<Rightarrow> (u64 \<times> mm_struct) option" where
  "remove_mt_areas env [] nr_accounted mm = Some (nr_accounted, mm)"
| "remove_mt_areas env (p # ps) nr_accounted mm = do {
     v \<leftarrow> vmas mm p;
     let nr_accounted = (if has (vm_flags v) VM_ACCOUNT then nr_accounted + vma_pages v else nr_accounted);
     let mm = vm_stat_account env (vm_flags v) (- vma_pages v) mm;
     mm \<leftarrow> remove_vma env p mm;
     remove_mt_areas env ps nr_accounted mm }"

definition remove_mt :: "mmap_env \<Rightarrow> vma_ptr list \<Rightarrow> mm_struct \<Rightarrow> mm_struct option" where
  "remove_mt env ps mm = do {
     let mm = mm\<lparr>hiwater_vm := max (hiwater_vm mm) (total_vm mm)\<rparr>;
     (nr_accounted, mm) \<leftarrow> remove_mt_areas env ps 0 mm;
     Some (log_calls [VmUnacctMemory nr_accounted] mm) }"

text \<open>From the point of no return on; the tree has been cleared.\<close>

definition munmap_commit ::
  "mmap_env \<Rightarrow> u64 \<Rightarrow> u64 \<Rightarrow> vma_ptr list \<Rightarrow> u64 \<Rightarrow> mm_struct \<Rightarrow> mm_struct option" where
  "munmap_commit env start end detached locked_pages mm = do {
     let mm = mm\<lparr>locked_vm := locked_vm mm - locked_pages, map_count := map_count mm - int (length detached)\<rparr>;
     mm \<leftarrow> unmap_region (mt_prev start (mm_mt mm)) (mt_find_from end (mm_mt mm)) start end mm;
     remove_mt env detached mm }"

text \<open>Collecting and removing, once no area reaches over \<open>start\<close>.\<close>

definition munmap_from ::
  "mmap_env \<Rightarrow> vma_ptr \<Rightarrow> u64 \<Rightarrow> u64 \<Rightarrow> bool \<Rightarrow> mm_struct \<Rightarrow> (int \<times> mm_struct) option" where
  "munmap_from env vma start end uf mm = do {
     (error, detached, locked_pages, mm) \<leftarrow> munmap_gather (length (mm_mt mm)) env start end uf vma [] 0 mm;
     if error \<noteq> 0 then Some (error, mm)
     else if clear_gfp env mm \<noteq> 0 then Some (clear_gfp env mm, mm)
     else do {
       mm \<leftarrow> munmap_commit env start end detached locked_pages (vma_iter_clear start end mm);
       Some (0, mm) } }"

definition do_vmi_align_munmap ::
  "mmap_env \<Rightarrow> vma_ptr \<Rightarrow> u64 \<Rightarrow> u64 \<Rightarrow> bool \<Rightarrow> mm_struct \<Rightarrow> (int \<times> mm_struct) option" where
  "do_vmi_align_munmap env vma start end uf mm = do {
     v \<leftarrow> vmas mm vma;
     (error, mm) \<leftarrow>
       (if start > vm_start v
        then (if end < vm_end v \<and> map_count mm \<ge> sysctl_max_map_count env then Some (- ENOMEM, mm)
              else split_vma_nocheck env vma start True mm)
        else Some (0, mm));
     if error \<noteq> 0 then Some (error, mm) else munmap_from env vma start end uf mm }"

text \<open>\<open>arch_unmap\<close> does nothing on x86.\<close>

definition do_vmi_munmap ::
  "mmap_env \<Rightarrow> u64 \<Rightarrow> u64 \<Rightarrow> bool \<Rightarrow> mm_struct \<Rightarrow> (int \<times> mm_struct) option" where
  "do_vmi_munmap env start len uf mm =
    (if offset_in_page start \<noteq> 0 \<or> start > task_size env \<or> len > task_size env - start
     then Some (- EINVAL, mm)
     else
       (let end = start + PAGE_ALIGN len
        in if end = start then Some (- EINVAL, mm)
           else (case mt_find start end (mm_mt mm) of
                   None \<Rightarrow> Some (0, mm)
                 | Some vma \<Rightarrow> do_vmi_align_munmap env vma start end uf mm)))"

definition do_munmap ::
  "mmap_env \<Rightarrow> u64 \<Rightarrow> u64 \<Rightarrow> bool \<Rightarrow> mm_struct \<Rightarrow> (int \<times> mm_struct) option" where
  "do_munmap env start len uf mm = do_vmi_munmap env start len uf mm"

text \<open>\<open>__vm_munmap\<close>\<close>

definition vm_munmap_locked :: "mmap_env \<Rightarrow> u64 \<Rightarrow> u64 \<Rightarrow> mm_struct \<Rightarrow> (int \<times> mm_struct) option" where
  "vm_munmap_locked env start len mm =
    (if lock_killed env mm then Some (- EINTR, mm) else do_vmi_munmap env start len True mm)"

definition vm_munmap :: "mmap_env \<Rightarrow> u64 \<Rightarrow> u64 \<Rightarrow> mm_struct \<Rightarrow> (int \<times> mm_struct) option" where
  "vm_munmap env start len mm = vm_munmap_locked env start len mm"

definition munmap :: "mmap_env \<Rightarrow> u64 \<Rightarrow> u64 \<Rightarrow> mm_struct \<Rightarrow> (int \<times> mm_struct) option" where
  "munmap env addr len mm = vm_munmap_locked env (untagged_addr env addr) len mm"

section \<open>Giving areas back\<close>

lemma vm_stat_account_fields [simp]:
  "total_vm (vm_stat_account env fl n mm) = total_vm mm + n"
  "vmas (vm_stat_account env fl n mm) = vmas mm" "mm_mt (vm_stat_account env fl n mm) = mm_mt mm"
  "map_count (vm_stat_account env fl n mm) = map_count mm"
  "fixed_fields (vm_stat_account env fl n mm) = fixed_fields mm"
  by (simp_all add: vm_stat_account_def Let_def)

lemma fixed_fields_log [simp]: "fixed_fields (log_calls cs mm) = fixed_fields mm"
  by (simp add: log_calls_def)

lemma fixed_fields_free [simp]: "fixed_fields (vm_area_free p mm) = fixed_fields mm"
  by (simp add: vm_area_free_def)

lemma log_calls_log [simp]: "log_calls b (log_calls a mm) = log_calls (a @ b) mm"
  by (simp add: log_calls_def)

lemma free_log: "vm_area_free p (log_calls cs mm) = log_calls cs (vm_area_free p mm)"
  by (simp add: log_calls_def vm_area_free_def)

lemma remove_vma_Some:
  assumes "vmas mm p = Some v"
  shows "\<exists>cs. remove_vma env p mm = Some (log_calls cs (vm_area_free p mm))"
  using assms by (auto simp: remove_vma_def Let_def free_log split: option.splits)

lemma remove_mt_areas_spec:
  assumes "distinct ps" and "set ps \<subseteq> dom (vmas mm)" and "finite (dom (vmas mm))"
  shows "\<exists>acc mm'. remove_mt_areas env ps n mm = Some (acc, mm') \<and> vmas mm' = vmas mm |` (- set ps)
    \<and> mm_mt mm' = mm_mt mm \<and> map_count mm' = map_count mm
    \<and> total_vm mm' - pages_of (vmas mm') = total_vm mm - pages_of (vmas mm)
    \<and> fixed_fields mm' = fixed_fields mm"
  using assms
proof (induction ps arbitrary: n mm)
  case Nil
  then show ?case by simp
next
  case (Cons p ps)
  then obtain v where v: "vmas mm p = Some v" by auto
  define acc where "acc = (if has (vm_flags v) VM_ACCOUNT then n + vma_pages v else n)"
  let ?mm1 = "vm_stat_account env (vm_flags v) (- vma_pages v) mm"
  obtain cs where cs: "remove_vma env p ?mm1 = Some (log_calls cs (vm_area_free p ?mm1))"
    using remove_vma_Some [of ?mm1 p v env] v by auto
  let ?mm2 = "log_calls cs (vm_area_free p ?mm1)"
  have f: "vmas ?mm2 = (vmas mm)(p := None)" "mm_mt ?mm2 = mm_mt mm" "map_count ?mm2 = map_count mm"
      "total_vm ?mm2 = total_vm mm - vma_pages v"
    by (simp_all add: mm_state)
  have pre: "distinct ps" "set ps \<subseteq> dom (vmas ?mm2)" "finite (dom (vmas ?mm2))"
    unfolding f using Cons.prems by auto
  obtain acc' mm' where r: "remove_mt_areas env ps acc ?mm2 = Some (acc', mm')"
      "vmas mm' = vmas ?mm2 |` (- set ps)" "mm_mt mm' = mm_mt ?mm2" "map_count mm' = map_count ?mm2"
      "total_vm mm' - pages_of (vmas mm') = total_vm ?mm2 - pages_of (vmas ?mm2)"
      "fixed_fields mm' = fixed_fields ?mm2"
    using Cons.IH [OF pre, of acc] by blast
  have "remove_mt_areas env (p # ps) n mm = Some (acc', mm')"
    using v cs r(1) by (simp add: acc_def)
  moreover have "vmas mm' = vmas mm |` (- set (p # ps))"
    unfolding r(2) f by (auto simp: restrict_map_def)
  moreover have "total_vm mm' - pages_of (vmas mm') = total_vm mm - pages_of (vmas mm)"
    unfolding r(5) f using pages_of_remove [OF Cons.prems(3), of p] v by simp
  ultimately show ?case
    using r f by auto
qed

lemma remove_mt_spec:
  assumes "distinct ps" and "set ps \<subseteq> dom (vmas mm)" and "finite (dom (vmas mm))"
  shows "\<exists>mm'. remove_mt env ps mm = Some mm' \<and> vmas mm' = vmas mm |` (- set ps)
    \<and> mm_mt mm' = mm_mt mm \<and> map_count mm' = map_count mm
    \<and> total_vm mm' - pages_of (vmas mm') = total_vm mm - pages_of (vmas mm)
    \<and> fixed_fields mm' = fixed_fields mm"
  using remove_mt_areas_spec [of ps "mm\<lparr>hiwater_vm := max (hiwater_vm mm) (total_vm mm)\<rparr>" env 0] assms
  by (auto simp: remove_mt_def log_calls_def)

section \<open>Collecting areas\<close>

text \<open>No area reaches over an address; the areas inside a range.\<close>

definition clean_at :: "u64 \<Rightarrow> (vma_ptr \<rightharpoonup> vm_area_struct) \<Rightarrow> bool" where
  "clean_at a f \<longleftrightarrow> (\<forall>q w. f q = Some w \<longrightarrow> vm_end w \<le> a \<or> a \<le> vm_start w)"

definition within :: "u64 \<Rightarrow> u64 \<Rightarrow> (vma_ptr \<rightharpoonup> vm_area_struct) \<Rightarrow> vma_ptr set" where
  "within a b f = {q. \<exists>w. f q = Some w \<and> a \<le> vm_start w \<and> vm_end w \<le> b}"

lemma within_next:
  assumes inv: "mm_inv mm" and v: "vmas mm p = Some v" "start \<le> vm_start v"
  shows "within start (vm_end v) (vmas mm) = insert p (within start (vm_start v) (vmas mm))"
    and "p \<notin> within start (vm_start v) (vmas mm)"
proof -
  have ne: "vm_start v < vm_end v"
    by (rule mm_inv_nonempty [OF inv v(1)])
  then show "p \<notin> within start (vm_start v) (vmas mm)"
    using v(1) by (auto simp: within_def)
  have "q = p \<or> vm_end w \<le> vm_start v" if "vmas mm q = Some w" "vm_end w \<le> vm_end v" for q w
    using mm_inv_disjoint [OF inv that(1) v(1)] mm_inv_nonempty [OF inv that(1)] that(2) by force
  then show "within start (vm_end v) (vmas mm) = insert p (within start (vm_start v) (vmas mm))"
    unfolding within_def using v ne by (auto intro: less_imp_le order_trans)
qed

lemma within_last:
  assumes inv: "mm_inv mm" and v: "vmas mm p = Some v" "vm_end v \<le> end"
    and none: "mt_find (vm_end v) end (mm_mt mm) = None"
  shows "clean_at end (vmas mm)" and "within start end (vmas mm) = within start (vm_end v) (vmas mm)"
proof -
  have out: "vm_end w \<le> vm_end v \<or> end \<le> vm_start w" if "vmas mm q = Some w" for q w
    using none mm_inv_mem [OF inv that] unfolding mt_find_None by fastforce
  then show "clean_at end (vmas mm)"
    unfolding clean_at_def using v(2) by (meson order_trans)
  have "vm_end w \<le> end \<longleftrightarrow> vm_end w \<le> vm_end v" if "vmas mm q = Some w" for q w
    using out [OF that] mm_inv_nonempty [OF inv that] v(2) by (meson leD order_trans less_le_trans)
  then show "within start end (vmas mm) = within start (vm_end v) (vmas mm)"
    unfolding within_def by auto
qed

lemma within_more:
  assumes inv: "mm_inv mm" and v: "vmas mm p = Some v"
    and nxt: "mt_find (vm_end v) end (mm_mt mm) = Some p'"
  obtains v' where "vmas mm p' = Some v'" "vm_end v \<le> vm_start v'" "vm_start v' < end"
    "within start (vm_start v') (vmas mm) = within start (vm_end v) (vmas mm)"
    "length (filter (\<lambda>x. vm_start v' \<le> fst x) (mm_mt mm)) < length (filter (\<lambda>x. vm_start v \<le> fst x) (mm_mt mm))"
proof -
  have ok: "mt_ok (mm_mt mm)"
    using inv by (simp add: mm_inv_def)
  obtain s e where se: "(s, e, p') \<in> set (mm_mt mm)" "vm_end v < e" "s < end"
    and first: "\<And>y. y \<in> set (mm_mt mm) \<Longrightarrow> vm_end v < fst (snd y) \<Longrightarrow> y = (s, e, p') \<or> e \<le> fst y"
    using mt_find_SomeE [OF ok nxt] by metis
  obtain v' where v': "vmas mm p' = Some v'" "vm_start v' = s" "vm_end v' = e"
    using mm_inv_area [OF inv se(1)] by metis
  have ne: "vm_start v < vm_end v" "vm_start v' < vm_end v'"
    using mm_inv_nonempty [OF inv] v v'(1) by blast+
  have "p' \<noteq> p"
    using v v' se(2) by auto
  then have lo: "vm_end v \<le> vm_start v'"
    using mm_inv_disjoint [OF inv v v'(1)] ne v' se(2) by fastforce
  have "vm_end w \<le> vm_end v" if w: "vmas mm q = Some w" "vm_end w \<le> vm_start v'" for q w
  proof (rule ccontr)
    assume "\<not> vm_end w \<le> vm_end v"
    then have "vm_start w = s \<or> e \<le> vm_start w"
      using first [OF mm_inv_mem [OF inv w(1)]] by auto
    then show False
      using w(2) ne v' mm_inv_nonempty [OF inv w(1)] by auto
  qed
  then have same: "within start (vm_start v') (vmas mm) = within start (vm_end v) (vmas mm)"
    unfolding within_def using lo by (auto intro: order_trans)
  have "length (filter (\<lambda>x. vm_start v' \<le> fst x) (mm_mt mm)) < length (filter (\<lambda>x. vm_start v \<le> fst x) (mm_mt mm))"
  proof (rule length_filter_less_filter [OF mm_inv_mem [OF inv v]])
    show "vm_start v' \<le> fst x \<Longrightarrow> vm_start v \<le> fst x" for x :: mt_entry
      using lo ne by auto
  qed (use lo ne in auto)
  with v'(1) lo se(3) v'(2) same show thesis
    using that by blast
qed

text \<open>What the loop knows at the top of a round, about the area \<open>v\<close> it looks at.\<close>

definition gather_inv :: "u64 \<Rightarrow> u64 \<Rightarrow> vm_area_struct \<Rightarrow> vma_ptr list \<Rightarrow> mm_struct \<Rightarrow> bool" where
  "gather_inv start end v detached mm \<longleftrightarrow> distinct detached \<and> start \<le> vm_start v \<and> vm_start v < end
     \<and> set detached = within start (vm_start v) (vmas mm) \<and> clean_at start (vmas mm)"

definition gathered :: "u64 \<Rightarrow> u64 \<Rightarrow> vma_ptr list \<Rightarrow> mm_struct \<Rightarrow> bool" where
  "gathered start end ds mm \<longleftrightarrow> distinct ds \<and> set ds = within start end (vmas mm)
     \<and> clean_at start (vmas mm) \<and> clean_at end (vmas mm)"

lemma gather_split:
  assumes inv: "mm_inv mm" "mm_inv mm'" and v: "vmas mm p = Some v" and s: "splits_at mm p v end False mm'"
    and at: "vm_start v < end" "end < vm_end v" and g: "gather_inv start end v ds mm"
  obtains v' where "vmas mm' p = Some v'" "vm_end v' = end" "vm_start v' = vm_start v"
    "gather_inv start end v' ds mm'" "mt_find end end (mm_mt mm') = None"
proof -
  obtain new lower upper where n: "vmas mm new = None"
    and r: "rng lower = (vm_start v, end)" "rng upper = (end, vm_end v)"
    and m: "vmas mm' = (vmas mm)(new \<mapsto> upper, p \<mapsto> lower)"
    by (rule splits_atE [OF s]) (use that in simp)
  have low: "vm_start lower = vm_start v" "vm_end lower = end" "vm_start upper = end" "vm_end upper = vm_end v"
    using r by (simp_all add: rng_def)
  have ne: "new \<noteq> p"
    using n v by auto
  have g': "distinct ds" "start \<le> vm_start v" "set ds = within start (vm_start v) (vmas mm)" "clean_at start (vmas mm)"
    using g by (simp_all add: gather_inv_def)
  have "within start (vm_start v) (vmas mm') = within start (vm_start v) (vmas mm)"
    unfolding within_def m using n v at low by (auto dest: leD)
  moreover have "clean_at start (vmas mm')"
    using g'(4) g'(2) at low unfolding clean_at_def m by (auto intro: order_trans less_imp_le)
  ultimately have "gather_inv start end lower ds mm'"
    using g' at low by (simp add: gather_inv_def)
  moreover have "mt_find end end (mm_mt mm') = None"
    unfolding mt_find_None
  proof safe
    fix s e q
    assume x: "(s, e, q) \<in> set (mm_mt mm')" "end < fst (snd (s, e, q))" "fst (s, e, q) < end"
    then obtain w where w: "vmas mm' q = Some w" "vm_start w = s" "vm_end w = e"
      using mm_inv_area [OF inv(2)] by metis
    have p: "vmas mm' p = Some lower"
      by (simp add: m)
    have "q \<noteq> p"
      using w x p low by auto
    then show False
      using mm_inv_disjoint [OF inv(2) w(1) p] w x low mm_inv_nonempty [OF inv(2) p] by fastforce
  qed
  ultimately show thesis
    using that [of lower] low by (simp add: m)
qed

lemma gather_done:
  assumes inv: "mm_inv mm" and v: "vmas mm p = Some v" "vm_end v \<le> end" and g: "gather_inv start end v ds mm"
    and none: "mt_find (vm_end v) end (mm_mt mm) = None"
  shows "gathered start end (ds @ [p]) mm"
  using within_last [OF inv v none] within_next [OF inv v(1), of start] g
  by (simp add: gather_inv_def gathered_def)

lemma gather_more:
  assumes inv: "mm_inv mm" and v: "vmas mm p = Some v" and g: "gather_inv start end v ds mm"
    and nxt: "mt_find (vm_end v) end (mm_mt mm) = Some p'"
  obtains v' where "vmas mm p' = Some v'" "gather_inv start end v' (ds @ [p]) mm"
    "length (filter (\<lambda>x. vm_start v' \<le> fst x) (mm_mt mm)) < length (filter (\<lambda>x. vm_start v \<le> fst x) (mm_mt mm))"
proof -
  obtain v' where v': "vmas mm p' = Some v'" "vm_end v \<le> vm_start v'" "vm_start v' < end"
    "within start (vm_start v') (vmas mm) = within start (vm_end v) (vmas mm)"
    "length (filter (\<lambda>x. vm_start v' \<le> fst x) (mm_mt mm)) < length (filter (\<lambda>x. vm_start v \<le> fst x) (mm_mt mm))"
    by (rule within_more [OF inv v nxt])
  have "start \<le> vm_start v'"
    using g mm_inv_nonempty [OF inv v] v'(2) unfolding gather_inv_def by (meson less_imp_le order_trans)
  then have "gather_inv start end v' (ds @ [p]) mm"
    using g v' within_next [OF inv v, of start] by (simp add: gather_inv_def)
  with v'(1,5) show thesis
    using that by blast
qed

text \<open>The loop ends, keeps what the process sees, and on success has collected the range.\<close>

lemma munmap_gather_spec:
  assumes "mm_ok mm" and "alloc_fresh env" and "offset_in_page end = 0"
    and "vmas mm p = Some v" and "gather_inv start end v ds mm"
    and "length (filter (\<lambda>x. vm_start v \<le> fst x) (mm_mt mm)) \<le> n" and "0 < n"
  shows "\<exists>r ds' l' mm'. munmap_gather n env start end uf p ds l mm = Some (r, ds', l', mm')
    \<and> mm_ok mm' \<and> mm_view mm' = mm_view mm \<and> only_areas mm mm' \<and> (r = 0 \<longrightarrow> gathered start end ds' mm')"
  using assms
proof (induction n arbitrary: mm p v ds l)
  case 0
  then show ?case by simp
next
  case (Suc n)
  note inv = mm_ok_inv [OF Suc.prems(1)]
  have lt: "vm_start v < end"
    using Suc.prems(5) by (simp add: gather_inv_def)
  show ?case
  proof (cases "end < vm_end v")
    case True
    obtain r mm1 where s: "split_vma_nocheck env p end False mm = Some (r, mm1)" "mm_ok mm1"
        "mm_view mm1 = mm_view mm" "only_areas mm mm1" "r = 0 \<Longrightarrow> splits_at mm p v end False mm1"
      using split_ok [OF Suc.prems(1,4,2) lt True Suc.prems(3)] by metis
    show ?thesis
    proof (cases "r = 0")
      case False
      then show ?thesis
        using s True Suc.prems(4) by simp
    next
      case z: True
      obtain v' where v': "vmas mm1 p = Some v'" "vm_end v' = end" "gather_inv start end v' ds mm1"
          "mt_find end end (mm_mt mm1) = None"
        using gather_split [OF inv mm_ok_inv [OF s(2)] Suc.prems(4) s(5) [OF z] lt True Suc.prems(5)] by metis
      have "gathered start end (ds @ [p]) mm1"
        using gather_done [OF mm_ok_inv [OF s(2)] v'(1) _ v'(3)] v'(2,4) by simp
      then show ?thesis
        using s v' True z Suc.prems(4) by (simp add: Let_def)
    qed
  next
    case False
    show ?thesis
    proof (cases "mt_find (vm_end v) end (mm_mt mm)")
      case None
      then have "gathered start end (ds @ [p]) mm"
        using gather_done [OF inv Suc.prems(4) _ Suc.prems(5) None] False by simp
      then show ?thesis
        using Suc.prems(1,4) False None by (simp add: Let_def)
    next
      case (Some p')
      obtain v' where v': "vmas mm p' = Some v'" "gather_inv start end v' (ds @ [p]) mm"
          "length (filter (\<lambda>x. vm_start v' \<le> fst x) (mm_mt mm)) < length (filter (\<lambda>x. vm_start v \<le> fst x) (mm_mt mm))"
        by (rule gather_more [OF inv Suc.prems(4,5) Some])
      have "0 < length (filter (\<lambda>x. vm_start v' \<le> fst x) (mm_mt mm))"
        using mm_inv_mem [OF inv v'(1)] by (force simp: filter_empty_conv)
      then have n: "length (filter (\<lambda>x. vm_start v' \<le> fst x) (mm_mt mm)) \<le> n" "0 < n"
        using v'(3) Suc.prems(6) by linarith+
      show ?thesis
        using Suc.IH [OF Suc.prems(1-3) v'(1,2) n, of "if has (vm_flags v) VM_LOCKED then l + vma_pages v else l"]
          Suc.prems(1,4) False Some by (simp add: Let_def)
    qed
  qed
qed

section \<open>Removing the collected areas\<close>

lemma gathered_outside:
  assumes "gathered start end ds mm" and "vmas mm q = Some w" and "q \<notin> set ds"
  shows "vm_end w \<le> start \<or> end \<le> vm_start w"
  using assms by (auto simp: gathered_def within_def clean_at_def)

lemma gathered_inside:
  assumes "gathered start end ds mm" and "vmas mm q = Some w" and "q \<in> set ds"
  shows "start \<le> vm_start w \<and> vm_end w \<le> end"
  using assms by (auto simp: gathered_def within_def)

lemma gathered_dom: "gathered start end ds mm \<Longrightarrow> set ds \<subseteq> dom (vmas mm)"
  by (auto simp: gathered_def within_def)

lemma removed_inv:
  assumes inv: "mm_inv mm" and g: "gathered start end ds mm" and lt: "start < end"
    and mm': "mm_mt mm' = mt_erase start end (mm_mt mm)" "vmas mm' = vmas mm |` (- set ds)"
      "map_count mm' = map_count mm - int (length ds)"
  shows "mm_inv mm'"
proof -
  have t: "mt_ok (mm_mt mm)" "set (mm_mt mm) = entries (vmas mm)"
    using inv by (simp_all add: mm_inv_def)
  have "mt_ok (mm_mt mm')"
    unfolding mm' by (rule mt_ok_erase [OF t(1) lt])
  moreover have "set (mm_mt mm') = entries (vmas mm')"
    unfolding mm' using gathered_outside [OF g] gathered_inside [OF g]
    by (intro erase_entries(2) [OF t lt]) (auto simp: restrict_map_def split: if_splits)
  moreover have "card (dom (vmas mm')) = card (dom (vmas mm)) - length ds"
    using card_Diff_subset [OF _ gathered_dom [OF g]] distinct_card [of ds] g
    by (simp add: mm' Diff_eq gathered_def)
  moreover have "length ds \<le> card (dom (vmas mm))"
    using card_mono [OF mm_inv_finite [OF inv] gathered_dom [OF g]] distinct_card [of ds] g
    by (simp add: gathered_def)
  moreover have "aligned_areas (vmas mm')"
    using inv by (auto simp: mm_inv_def aligned_areas_def mm' restrict_map_def)
  ultimately show ?thesis
    using inv mm'(3) by (simp add: mm_inv_def)
qed

lemma removed_view:
  assumes inv: "mm_inv mm" "mm_inv mm'" and g: "gathered start end ds mm"
    and mm': "vmas mm' = vmas mm |` (- set ds)"
  shows "mm_view mm' a = (if start \<le> a \<and> a < end then None else mm_view mm a)"
proof -
  have "covers (vmas mm') a x \<longleftrightarrow> \<not> (start \<le> a \<and> a < end) \<and> covers (vmas mm) a x" for x
  proof
    assume "covers (vmas mm') a x"
    then obtain q w where w: "vmas mm q = Some w" "q \<notin> set ds" "vm_start w \<le> a" "a < vm_end w" "x = kind w"
      unfolding covers_def mm' by (auto simp: restrict_map_def split: if_splits)
    then show "\<not> (start \<le> a \<and> a < end) \<and> covers (vmas mm) a x"
      using gathered_outside [OF g w(1,2)] unfolding covers_def by fastforce
  next
    assume a: "\<not> (start \<le> a \<and> a < end) \<and> covers (vmas mm) a x"
    then obtain q w where w: "vmas mm q = Some w" "vm_start w \<le> a" "a < vm_end w" "x = kind w"
      unfolding covers_def by blast
    then have "q \<notin> set ds"
      using gathered_inside [OF g w(1)] a by (meson order_trans less_le_trans)
    then show "covers (vmas mm') a x"
      unfolding covers_def mm' using w by (auto simp: restrict_map_def)
  qed
  then show ?thesis
    using mm_view_iff [OF inv(1), of a] mm_view_iff [OF inv(2), of a] by (metis not_None_eq)
qed

lemma unmap_region_Some:
  assumes "\<And>p. prev = Some p \<Longrightarrow> p \<in> dom (vmas mm)" and "\<And>p. next = Some p \<Longrightarrow> p \<in> dom (vmas mm)"
  shows "\<exists>cs. unmap_region prev next start end mm = Some (log_calls cs mm)"
  using assms by (cases prev; cases "next") (auto simp: unmap_region_def dom_def)

lemma munmap_commit_spec:
  assumes ok: "mm_ok mm" and g: "gathered start end ds mm" and lt: "start < end"
  shows "\<exists>mm'. munmap_commit env start end ds l (vma_iter_clear start end mm) = Some mm' \<and> mm_ok mm'
    \<and> only_counts mm mm' \<and> (\<forall>a. mm_view mm' a = (if start \<le> a \<and> a < end then None else mm_view mm a))"
proof -
  note inv = mm_ok_inv [OF ok]
  let ?t = "mt_erase start end (mm_mt mm)"
  let ?mm1 = "mm\<lparr>mm_mt := ?t, locked_vm := locked_vm mm - l, map_count := map_count mm - int (length ds)\<rparr>"
  have eq: "(vma_iter_clear start end mm)\<lparr>locked_vm := locked_vm (vma_iter_clear start end mm) - l,
      map_count := map_count (vma_iter_clear start end mm) - int (length ds)\<rparr> = ?mm1"
    by (simp add: vma_iter_clear_def)
  have "mt_ok ?t"
    using mt_ok_erase [OF _ lt] inv by (simp add: mm_inv_def)
  have tree: "p \<in> dom (vmas mm)" if p: "(s, e, p) \<in> set ?t" for s e p
  proof -
    obtain r w where "vmas mm r = Some w" "(s, e, p) \<in> set (mt_cut start end (vm_start w, vm_end w, r))"
      using p erase_mem [of "mm_mt mm" "vmas mm"] inv unfolding mm_inv_def by blast
    then show ?thesis
      using mt_cut_within [of "(s, e, p)"] by fastforce
  qed
  have "p \<in> dom (vmas ?mm1)" if "mt_prev start ?t = Some p" for p
    using mt_prev_SomeE [OF \<open>mt_ok ?t\<close> that] tree by simp metis
  moreover have "p \<in> dom (vmas ?mm1)" if "mt_find_from end ?t = Some p" for p
    using mt_find_from_SomeE [OF \<open>mt_ok ?t\<close> that] tree by simp metis
  ultimately obtain cs where cs: "unmap_region (mt_prev start ?t) (mt_find_from end ?t) start end ?mm1
      = Some (log_calls cs ?mm1)"
    using unmap_region_Some by metis
  let ?mm2 = "log_calls cs ?mm1"
  have f: "vmas ?mm2 = vmas mm" "mm_mt ?mm2 = ?t" "map_count ?mm2 = map_count mm - int (length ds)"
      "total_vm ?mm2 = total_vm mm" "fixed_fields ?mm2 = fixed_fields mm"
    by (simp_all add: log_calls_def)
  obtain mm' where r: "remove_mt env ds ?mm2 = Some mm'" "vmas mm' = vmas ?mm2 |` (- set ds)"
      "mm_mt mm' = mm_mt ?mm2" "map_count mm' = map_count ?mm2"
      "total_vm mm' - pages_of (vmas mm') = total_vm ?mm2 - pages_of (vmas ?mm2)"
      "fixed_fields mm' = fixed_fields ?mm2"
    using remove_mt_spec [of ds ?mm2 env] g gathered_dom [OF g] mm_inv_finite [OF inv]
    unfolding f gathered_def by blast
  have inv': "mm_inv mm'"
    using removed_inv [OF inv g lt] r(2-4) f by simp
  moreover have "total_vm mm' = pages_of (vmas mm')"
    using r(5) ok f by (simp add: mm_ok_def)
  moreover have "munmap_commit env start end ds l (vma_iter_clear start end mm) = Some mm'"
    unfolding munmap_commit_def Let_def eq using cs r(1) by simp
  ultimately show ?thesis
    using removed_view [OF inv inv' g] r(2,6) f by (simp add: mm_ok_def only_counts_def)
qed

section \<open>The whole operation\<close>

text \<open>
  What a removal of \<open>[start, end)\<close> may do: it succeeds and the range is unmapped, or it fails and
  the process sees no difference; in both cases the address space is in order.
\<close>

definition unmaps :: "u64 \<Rightarrow> u64 \<Rightarrow> mm_struct \<Rightarrow> int \<Rightarrow> mm_struct \<Rightarrow> bool" where
  "unmaps start end mm r mm' \<longleftrightarrow> mm_ok mm' \<and> only_counts mm mm'
     \<and> (\<forall>a. mm_view mm' a = (if r = 0 \<and> start \<le> a \<and> a < end then None else mm_view mm a))"

lemma unmaps_refl: "mm_ok mm \<Longrightarrow> r \<noteq> 0 \<Longrightarrow> unmaps start end mm r mm"
  by (simp add: unmaps_def)

lemma first_gather:
  assumes inv: "mm_inv mm" and v: "vmas mm p = Some v" and lo: "start \<le> vm_start v" "vm_start v < end"
    and first: "\<And>q w. vmas mm q = Some w \<Longrightarrow> start < vm_end w \<Longrightarrow> q = p \<or> vm_end v \<le> vm_start w"
  shows "gather_inv start end v [] mm"
proof -
  have ne: "vm_start v < vm_end v"
    by (rule mm_inv_nonempty [OF inv v])
  have after: "vm_start v \<le> vm_start w" if "vmas mm q = Some w" "start < vm_end w" for q w
    using first [OF that] v that(1) ne by auto
  have "q \<notin> within start (vm_start v) (vmas mm)" for q
  proof
    assume "q \<in> within start (vm_start v) (vmas mm)"
    then obtain w where w: "vmas mm q = Some w" "start \<le> vm_start w" "vm_end w \<le> vm_start v"
      by (auto simp: within_def)
    then show False
      using after [OF w(1)] mm_inv_nonempty [OF inv w(1)] by (meson leD le_less_trans less_le_trans)
  qed
  moreover have "clean_at start (vmas mm)"
    unfolding clean_at_def using after lo(1) by (meson not_le order_trans)
  ultimately show ?thesis
    using lo by (auto simp: gather_inv_def)
qed

lemma split_start_gather:
  assumes inv: "mm_inv mm" "mm_inv mm'" and v: "vmas mm p = Some v" and s: "splits_at mm p v start True mm'"
    and lt: "start < end"
  obtains v' where "vmas mm' p = Some v'" "gather_inv start end v' [] mm'"
proof -
  obtain new lower upper where r: "rng upper = (start, vm_end v)"
    and m: "vmas mm' = (vmas mm)(new \<mapsto> lower, p \<mapsto> upper)"
    by (rule splits_atE [OF s]) (use that in simp)
  have up: "vmas mm' p = Some upper" "vm_start upper = start"
    using r m by (simp_all add: rng_def)
  have "q = p \<or> vm_end upper \<le> vm_start w" if "vmas mm' q = Some w" "start < vm_end w" for q w
    using mm_inv_disjoint [OF inv(2) that(1) up(1)] that(2) up(2) by (auto dest: leD)
  then have "gather_inv start end upper [] mm'"
    using up lt by (intro first_gather [OF inv(2) up(1)]) auto
  with up(1) show thesis
    using that by blast
qed

lemma munmap_from_spec:
  assumes ok: "mm_ok mm" and fresh: "alloc_fresh env" and al: "offset_in_page end = 0" and lt: "start < end"
    and v: "vmas mm p = Some v" and g: "gather_inv start end v [] mm"
  shows "\<exists>r mm'. munmap_from env p start end uf mm = Some (r, mm') \<and> unmaps start end mm r mm'"
proof -
  have n: "0 < length (mm_mt mm)"
    using mm_inv_mem [OF mm_ok_inv [OF ok] v] by auto
  obtain r ds l mm1 where r: "munmap_gather (length (mm_mt mm)) env start end uf p [] 0 mm = Some (r, ds, l, mm1)"
      "mm_ok mm1" "mm_view mm1 = mm_view mm" "only_areas mm mm1" "r = 0 \<Longrightarrow> gathered start end ds mm1"
    using munmap_gather_spec [OF ok fresh al v g length_filter_le n] by blast
  show ?thesis
  proof (cases "r = 0 \<and> clear_gfp env mm1 = 0")
    case True
    obtain mm2 where c: "munmap_commit env start end ds l (vma_iter_clear start end mm1) = Some mm2" "mm_ok mm2"
        "only_counts mm1 mm2" "\<forall>a. mm_view mm2 a = (if start \<le> a \<and> a < end then None else mm_view mm1 a)"
      using munmap_commit_spec [OF r(2) r(5) lt] True by blast
    then have "unmaps start end mm 0 mm2"
      using r(3) only_counts_trans [OF only_areas_counts [OF r(4)] c(3)] by (simp add: unmaps_def)
    then show ?thesis
      using True r(1) c(1) by (simp add: munmap_from_def)
  next
    case False
    then show ?thesis
      using r only_areas_counts [OF r(4)] by (auto simp: unmaps_def munmap_from_def)
  qed
qed

lemma unmaps_trans:
  "mm_view mm1 = mm_view mm \<Longrightarrow> only_areas mm mm1 \<Longrightarrow> unmaps start end mm1 r mm' \<Longrightarrow> unmaps start end mm r mm'"
  using only_counts_trans [OF only_areas_counts] by (simp add: unmaps_def)

lemma do_vmi_align_munmap_spec:
  assumes ok: "mm_ok mm" and fresh: "alloc_fresh env"
    and al: "offset_in_page start = 0" "offset_in_page end = 0" and lt: "start < end"
    and find: "mt_find start end (mm_mt mm) = Some p"
  shows "\<exists>r mm'. do_vmi_align_munmap env p start end uf mm = Some (r, mm') \<and> unmaps start end mm r mm'"
proof -
  note inv = mm_ok_inv [OF ok]
  obtain s e where se: "(s, e, p) \<in> set (mm_mt mm)" "start < e" "s < end"
    and fst: "\<And>y. y \<in> set (mm_mt mm) \<Longrightarrow> start < fst (snd y) \<Longrightarrow> y = (s, e, p) \<or> e \<le> fst y"
    using inv mt_find_SomeE [OF _ find] unfolding mm_inv_def by metis
  obtain v where v: "vmas mm p = Some v" "vm_start v = s" "vm_end v = e"
    using mm_inv_area [OF inv se(1)] by metis
  have first: "q = p \<or> vm_end v \<le> vm_start w" if "vmas mm q = Some w" "start < vm_end w" for q w
    using fst [OF mm_inv_mem [OF inv that(1)]] that(2) v(3) by auto
  consider "start \<le> vm_start v"
    | "vm_start v < start" "end < vm_end v \<and> map_count mm \<ge> sysctl_max_map_count env"
    | "vm_start v < start" "\<not> (end < vm_end v \<and> map_count mm \<ge> sysctl_max_map_count env)"
    by force
  then show ?thesis
  proof cases
    case 1
    then have "gather_inv start end v [] mm"
      using first se(3) v(2) by (intro first_gather [OF inv v(1)]) auto
    then show ?thesis
      using munmap_from_spec [OF ok fresh al(2) lt v(1)] v(1) leD [OF 1] by (simp add: do_vmi_align_munmap_def)
  next
    case 2
    then show ?thesis
      using v(1) unmaps_refl [OF ok] by (simp add: do_vmi_align_munmap_def)
  next
    case 3
    obtain r mm1 where s: "split_vma_nocheck env p start True mm = Some (r, mm1)" "mm_ok mm1"
        "mm_view mm1 = mm_view mm" "only_areas mm mm1" "r = 0 \<Longrightarrow> splits_at mm p v start True mm1"
      using split_ok [OF ok v(1) fresh 3(1) _ al(1)] se(2) v(3) by metis
    show ?thesis
    proof (cases "r = 0")
      case False
      then show ?thesis
        using 3 v(1) s only_areas_counts [OF s(4)] by (auto simp: do_vmi_align_munmap_def unmaps_def)
    next
      case True
      obtain v' where "vmas mm1 p = Some v'" "gather_inv start end v' [] mm1"
        using split_start_gather [OF inv mm_ok_inv [OF s(2)] v(1) s(5) [OF True] lt] .
      then obtain r' mm' where "munmap_from env p start end uf mm1 = Some (r', mm')" "unmaps start end mm r' mm'"
        using munmap_from_spec [OF s(2) fresh al(2) lt] unmaps_trans [OF s(3,4)] by blast
      then show ?thesis
        using 3 v(1) s(1) True by (auto simp: do_vmi_align_munmap_def)
    qed
  qed
qed

lemma munmap_range:
  assumes al: "offset_in_page start = 0" "offset_in_page T = 0" and le: "start \<le> T" "len \<le> T - start"
  shows "start + PAGE_ALIGN len = start \<or> start < start + PAGE_ALIGN len"
    and "unat (start + PAGE_ALIGN len) = unat start + unat (PAGE_ALIGN len)"
    and "offset_in_page (start + PAGE_ALIGN len) = 0" and "start + PAGE_ALIGN len \<le> T"
proof -
  obtain i j where i: "unat start = 4096 * i" and j: "unat T = 4096 * j" "j < 2 ^ 52"
    using al page_aligned_obtain by metis
  have "unat len \<le> 4096 * j - 4096 * i"
    using le i j by (simp add: word_le_nat_alt unat_sub)
  then have len: "unat len \<le> 4096 * (j - i)"
    by (simp add: diff_mult_distrib2)
  have ij: "i \<le> j"
    using le(1) i j by (simp add: word_le_nat_alt)
  have big: "4096 * j + 4096 \<le> 2 ^ 64"
    using j(2) by simp
  have fits: "unat len + 4095 < 2 ^ 64"
    using len big by (simp add: diff_mult_distrib2)
  have pa: "unat (PAGE_ALIGN len) = 4096 * ((unat len + 4095) div 4096)"
    using unat_PAGE_ALIGN [OF fits] by simp
  have "(unat len + 4095) div 4096 < Suc (j - i)"
    using len by (intro less_mult_imp_div_less) simp
  then have pl: "unat (PAGE_ALIGN len) + 4096 * i \<le> 4096 * j"
    using pa ij by linarith
  then show sum: "unat (start + PAGE_ALIGN len) = unat start + unat (PAGE_ALIGN len)"
    using i big by (intro unat_add_fits) simp
  then show "start + PAGE_ALIGN len = start \<or> start < start + PAGE_ALIGN len"
    by (metis le_add1 order_le_less word_le_nat_alt)
  show "offset_in_page (start + PAGE_ALIGN len) = 0"
    unfolding page_aligned_iff sum i pa by simp
  show "start + PAGE_ALIGN len \<le> T"
    unfolding word_le_nat_alt sum using pl i j by simp
qed

lemma do_vmi_munmap_spec:
  assumes ok: "mm_ok mm" and fresh: "alloc_fresh env" and T: "offset_in_page (task_size env) = 0"
  shows "\<exists>r mm'. do_vmi_munmap env start len uf mm = Some (r, mm') \<and> unmaps start (start + PAGE_ALIGN len) mm r mm'"
proof (cases "offset_in_page start \<noteq> 0 \<or> start > task_size env \<or> len > task_size env - start
    \<or> start + PAGE_ALIGN len = start")
  case True
  then show ?thesis
    using unmaps_refl [OF ok] by (auto simp: do_vmi_munmap_def Let_def)
next
  case False
  then have g: "offset_in_page start = 0" "start \<le> task_size env" "len \<le> task_size env - start"
    by auto
  note r = munmap_range [OF g(1) T g(2,3)]
  have lt: "start < start + PAGE_ALIGN len"
    using r(1) False by blast
  show ?thesis
  proof (cases "mt_find start (start + PAGE_ALIGN len) (mm_mt mm)")
    case None
    have "mm_view mm a = None" if "start \<le> a" "a < start + PAGE_ALIGN len" for a
      using None that unfolding mm_view_def vma_lookup_def mt_find_None
      by (auto simp: bind_eq_None_conv mt_walk_eq_None dest: le_less_trans)
    then show ?thesis
      using None False ok by (auto simp: do_vmi_munmap_def Let_def unmaps_def)
  next
    case (Some p)
    then show ?thesis
      using do_vmi_align_munmap_spec [OF ok fresh g(1) r(3) lt Some] False
      by (simp add: do_vmi_munmap_def Let_def)
  qed
qed


text \<open>A three-page area from which the middle page is removed.\<close>

definition three_pages :: mm_struct where
  "three_pages = empty_mm\<lparr>mm_mt := [(0x1000, 0x4000, 1)], vmas := [1 \<mapsto> plain_vma 0x1000 0x4000 0x73],
     map_count := 1, total_vm := 3\<rparr>"

lemma three_pages_ok: "mm_ok three_pages"
proof (rule mm_okI)
  show "mm_inv three_pages"
    by (auto simp: mm_inv_def three_pages_def empty_mm_def mt_ok_def entries_def plain_vma_def aligned_areas_def
        offset_in_page_def)
  show "total_vm three_pages = pages_of (vmas three_pages)"
    by (simp add: three_pages_def pages_of_def empty_mm_def vma_pages_def plain_vma_def)
qed

lemma plain_env_fresh: "alloc_fresh plain_env"
  unfolding alloc_fresh_def plain_env_def by (auto dest!: find_SomeD split: if_splits)


end
