(* ===== verification/Vma_Add.thy ===== *)
theory Vma_Add
  imports Munmap Vma_Merge_Proofs
begin

text \<open>
  What adding a mapped range to an address space does to its view and its counters, whether a
  new area is inserted or an existing one grows.
\<close>

lemma page_count:
  assumes "offset_in_page a = 0" and "offset_in_page b = 0" and "a \<le> b"
  shows "of_nat (card (page_range a b)) = drop_bit 12 (b - a)"
proof -
  have "drop_bit 12 a \<le> drop_bit 12 b"
    unfolding word_le_nat_alt unat_drop_page using assms(3) by (simp add: div_le_mono word_le_nat_alt)
  then have "card (page_range a b) = unat (drop_bit 12 b - drop_bit 12 a)"
    using card_page_range [OF assms(1,2)] by (simp add: unat_sub unat_drop_page)
  then show ?thesis
    using drop_page_diff [OF assms(1,3)] by simp
qed

lemma added_ok:
  assumes ok: "mm_ok mm" and inv: "mm_inv mm'"
    and view: "\<And>x. mm_view mm' x = (if a \<le> x \<and> x < b then Some K else mm_view mm x)"
    and free: "\<And>x. a \<le> x \<Longrightarrow> x < b \<Longrightarrow> mm_view mm x = None"
    and al: "offset_in_page a = 0" "offset_in_page b = 0" "a \<le> b"
    and total: "total_vm mm' = total_vm mm + drop_bit 12 (b - a)"
  shows "mm_ok mm'"
proof -
  have "mapped_pages mm' = mapped_pages mm \<union> page_range a b"
    unfolding mapped_pages_def page_range_def view by auto
  moreover have "mapped_pages mm \<inter> page_range a b = {}"
    using free by (auto simp: mapped_pages_def page_range_def)
  ultimately have "card (mapped_pages mm') = card (mapped_pages mm) + card (page_range a b)"
    by (simp add: card_Un_disjoint)
  then show ?thesis
    using ok inv page_count [OF al] by (simp add: mm_ok_iff total)
qed

lemma free_range:
  assumes inv: "mm_inv mm" and out: "\<And>q w. vmas mm q = Some w \<Longrightarrow> vm_end w \<le> a \<or> b \<le> vm_start w"
    and x: "a \<le> x" "x < b"
  shows "mm_view mm x = None"
  unfolding mm_view_None [OF inv] covers_def
proof (intro allI notI, elim exE conjE)
  fix y q w
  assume "vmas mm q = Some w" "vm_start w \<le> x" "x < vm_end w"
  with out [of q w] x show False by auto
qed

lemma inserted_view:
  assumes inv: "mm_inv mm" "mm_inv mm'" and f: "vmas mm' = (vmas mm)(p \<mapsto> v)" and new: "vmas mm p = None"
    and out: "\<And>q w. vmas mm q = Some w \<Longrightarrow> vm_end w \<le> vm_start v \<or> vm_end v \<le> vm_start w"
  shows "mm_view mm' x = (if vm_start v \<le> x \<and> x < vm_end v then Some (kind v) else mm_view mm x)"
proof (cases "vm_start v \<le> x \<and> x < vm_end v")
  case True
  then have "covers (vmas mm') x (kind v)"
    unfolding f covers_update area_has_def by blast
  with True show ?thesis
    unfolding mm_view_iff [OF inv(2), symmetric] by simp
next
  case False
  have "mm_view mm' x = mm_view mm x"
    by (rule mm_view_eqI [OF inv])
      (use False new in \<open>auto simp: f covers_update area_has_def fun_upd_idem\<close>)
  then show ?thesis
    unfolding if_not_P [OF False] .
qed

text \<open>A change of an area that keeps its range and its kind.\<close>

lemma retouched:
  assumes inv: "mm_inv mm" and v: "vmas mm p = Some v" and same: "rng v' = rng v" "kind v' = kind v"
    and mm': "mm_mt mm' = mm_mt mm" "map_count mm' = map_count mm" "vmas mm' = (vmas mm)(p \<mapsto> v')"
  shows "mm_inv mm'" "mm_view mm' = mm_view mm"
proof -
  show inv': "mm_inv mm'"
    by (rule mm_inv_same_rng [OF inv mm'(1,2)]) (simp add: mm'(3) v same)
  have "area_has v' a y \<longleftrightarrow> area_has v a y" for a y
    using same by (simp add: area_has_def rng_def)
  then have "covers (vmas mm') a y \<longleftrightarrow> covers (vmas mm) a y" for a y
    unfolding mm'(3) covers_update covers_remove [of "vmas mm" p v, OF v] by simp
  then show "mm_view mm' = mm_view mm"
    using mm_view_eqI [OF inv inv'] by blast
qed

lemma kind_softdirty [simp]: "kind (v\<lparr>vm_flags := vm_flags v OR VM_SOFTDIRTY\<rparr>) = kind v"
proof -
  have "(x OR VM_SOFTDIRTY) AND NOT (VM_SOFTDIRTY OR y) = x AND NOT (VM_SOFTDIRTY OR y)" for x y :: u64
    by (rule bit_word_eqI) (auto simp: bit_simps)
  then show ?thesis
    by (simp add: kind_def kind_flags_def)
qed

lemma rng_flags [simp]: "rng (v\<lparr>vm_flags := f\<rparr>) = rng v"
  by (simp add: rng_def)

text \<open>
  The promise of an operation that adds the range from \<open>a\<close> to \<open>b\<close> with attributes \<open>K\<close>: on
  success the range is mapped and counted, otherwise nothing is mapped or unmapped.
\<close>

definition adds :: "page_kind \<Rightarrow> u64 \<Rightarrow> u64 \<Rightarrow> mm_struct \<Rightarrow> int \<Rightarrow> mm_struct \<Rightarrow> bool" where
  "adds K a b mm r mm' \<longleftrightarrow> mm_ok mm' \<and> only_counts mm mm'
     \<and> (\<forall>x. mm_view mm' x = (if r = 0 \<and> a \<le> x \<and> x < b then Some K else mm_view mm x))
     \<and> total_vm mm' = (if r = 0 then total_vm mm + drop_bit PAGE_SHIFT (b - a) else total_vm mm)"

lemma adds_none: "mm_ok mm \<Longrightarrow> r \<noteq> 0 \<Longrightarrow> adds K a b mm r (log_calls cs mm)"
  by (auto simp: adds_def only_counts_def log_calls_def mm_ok_def mm_inv_def mm_view_def vma_lookup_def)

text \<open>The number of mapped pages, in bytes, fits in a machine word.\<close>

lemma card_mapped:
  assumes inv: "mm_inv mm"
  shows "card (mapped_pages mm) < 2 ^ 52"
proof -
  have last: "offset_in_page (- 4096) = 0" "offset_in_page 0 = 0"
    by (simp_all add: page_aligned_iff)
  have "a < - 4096" if "a \<in> mapped_pages mm" for a
  proof -
    obtain q w where w: "vmas mm q = Some w" "a < vm_end w"
      using \<open>a \<in> mapped_pages mm\<close> unfolding mapped_pages_def mm_view_None [OF inv] covers_def by blast
    obtain i where "unat (vm_end w) = 4096 * i" "i < 2 ^ 52"
      using mm_inv_aligned [OF inv w(1)] page_aligned_obtain by metis
    then have "vm_end w \<le> - 4096" by (simp add: word_le_nat_alt)
    with w(2) show ?thesis by simp
  qed
  then have "mapped_pages mm \<subseteq> page_range 0 (- 4096)"
    by (auto simp: mapped_pages_def page_range_def)
  then have "card (mapped_pages mm) \<le> card (page_range 0 (- 4096))"
    by (simp add: card_mono)
  also have "\<dots> = 2 ^ 52 - 1"
    by (simp add: card_page_range [OF last(2,1)])
  finally show ?thesis by simp
qed

lemma mapped_bytes:
  assumes ok: "mm_ok mm"
  shows "unat (push_bit PAGE_SHIFT (total_vm mm)) = 4096 * unat (total_vm mm)"
proof -
  have "unat (total_vm mm) < 2 ^ 52"
    using ok card_mapped [of mm] by (simp add: mm_ok_iff unsigned_of_nat take_bit_nat_eq_self)
  then show ?thesis
    by (simp add: push_bit_eq_mult unat_word_ariths)
qed

end
