(* ===== verification/Address_Search.thy ===== *)
theory Address_Search
  imports Vma_View
begin

text \<open>
  Choosing the address of a new mapping: \<open>get_unmapped_area\<close>, which asks one of the address
  searches and checks the answer, and the small checks on hints and locked memory.
\<close>

abbreviation (input) MAP_SHARED :: u64 where "MAP_SHARED \<equiv> 0x1"
abbreviation (input) MAP_FIXED :: u64 where "MAP_FIXED \<equiv> 0x10"

section \<open>Checks\<close>

definition round_hint_to_min :: "mmap_env \<Rightarrow> u64 \<Rightarrow> u64" where
  "round_hint_to_min env hint =
    (let hint = hint AND PAGE_MASK
     in if hint \<noteq> 0 \<and> hint < mmap_min_addr env then PAGE_ALIGN (mmap_min_addr env) else hint)"

definition mlock_future_ok :: "mmap_env \<Rightarrow> mm_struct \<Rightarrow> u64 \<Rightarrow> u64 \<Rightarrow> bool" where
  "mlock_future_ok env mm flags bytes =
    (if \<not> has flags VM_LOCKED \<or> capable_ipc_lock env then True
     else
       let locked_pages = drop_bit PAGE_SHIFT bytes + locked_vm mm;
           limit_pages = drop_bit PAGE_SHIFT (rlimit_memlock env)
       in locked_pages \<le> limit_pages)"

section \<open>The address of a mapping\<close>

definition pick_search :: "mmap_env \<Rightarrow> nat option \<Rightarrow> u64 \<Rightarrow> area_search" where
  "pick_search env file flags = (case file of
     Some f \<Rightarrow> (case file_get_area env f of Some g \<Rightarrow> g | None \<Rightarrow> mm_get_area env)
   | None \<Rightarrow>
       if has flags MAP_SHARED then shmem_get_area env
       else (case thp_get_area env of Some g \<Rightarrow> g | None \<Rightarrow> mm_get_area env))"

definition get_unmapped_area ::
  "mmap_env \<Rightarrow> nat option \<Rightarrow> u64 \<Rightarrow> u64 \<Rightarrow> u64 \<Rightarrow> u64 \<Rightarrow> mm_struct \<Rightarrow> u64" where
  "get_unmapped_area env file addr len pgoff flags mm =
    (let error = arch_mmap_check env addr len flags
     in if error \<noteq> 0 then error
        else if len > task_size env then err_value ENOMEM
        else
          let pgoff = (if file = None then 0 else pgoff);
              addr = pick_search env file flags file addr len pgoff flags mm
          in if IS_ERR_VALUE addr then addr
             else if addr > task_size env - len then err_value ENOMEM
             else if offset_in_page addr \<noteq> 0 then err_value EINVAL
             else
               let error = security_mmap_addr env addr
               in if error \<noteq> 0 then err_value (- error) else addr)"

text \<open>What the architecture and the security hook may answer: nothing, or an error.\<close>

definition area_law :: "mmap_env \<Rightarrow> bool" where
  "area_law env \<longleftrightarrow> (\<forall>a l f. arch_mmap_check env a l f = 0 \<or> IS_ERR_VALUE (arch_mmap_check env a l f))
     \<and> (\<forall>a. -4095 \<le> security_mmap_addr env a \<and> security_mmap_addr env a \<le> 0)"

text \<open>With \<open>MAP_FIXED\<close>, every search gives the address asked for or an error.\<close>

definition fixed_law :: "mmap_env \<Rightarrow> bool" where
  "fixed_law env \<longleftrightarrow> (\<forall>file a l p f mm. has f MAP_FIXED \<longrightarrow>
     pick_search env file f file a l p f mm = a \<or> IS_ERR_VALUE (pick_search env file f file a l p f mm))"

lemma get_unmapped_area_ok:
  assumes law: "area_law env" and ok: "\<not> IS_ERR_VALUE (get_unmapped_area env file addr len pgoff flags mm)"
  shows "get_unmapped_area env file addr len pgoff flags mm
      = pick_search env file flags file addr len (if file = None then 0 else pgoff) flags mm
    \<and> offset_in_page (get_unmapped_area env file addr len pgoff flags mm) = 0
    \<and> len \<le> task_size env \<and> get_unmapped_area env file addr len pgoff flags mm \<le> task_size env - len"
proof -
  define a where "a = pick_search env file flags file addr len (if file = None then 0 else pgoff) flags mm"
  define e where "e = arch_mmap_check env addr len flags"
  define s where "s = security_mmap_addr env a"
  have arch: "e \<noteq> 0 \<Longrightarrow> IS_ERR_VALUE e" and "-4095 \<le> s" "s \<le> 0"
    using law unfolding area_law_def e_def s_def by blast+
  then have sec: "s \<noteq> 0 \<Longrightarrow> IS_ERR_VALUE (err_value (- s))"
    by (intro IS_ERR_VALUE_err_value) simp_all
  have got: "get_unmapped_area env file addr len pgoff flags mm = (if e \<noteq> 0 then e
      else if len > task_size env then err_value ENOMEM else if IS_ERR_VALUE a then a
      else if a > task_size env - len then err_value ENOMEM
      else if offset_in_page a \<noteq> 0 then err_value EINVAL
      else if s \<noteq> 0 then err_value (- s) else a)"
    unfolding get_unmapped_area_def Let_def a_def [symmetric] e_def [symmetric] s_def [symmetric] by (rule refl)
  show ?thesis
    using ok arch sec unfolding got a_def [symmetric] by (auto split: if_splits simp: not_less)
qed

lemma get_unmapped_area_fixed:
  assumes law: "area_law env" and ok: "\<not> IS_ERR_VALUE (get_unmapped_area env file addr len pgoff flags mm)"
    and fx: "fixed_law env" "has flags MAP_FIXED"
  shows "get_unmapped_area env file addr len pgoff flags mm = addr"
proof -
  note got = get_unmapped_area_ok [OF law ok]
  have "pick_search env file flags file addr len (if file = None then 0 else pgoff) flags mm = addr
      \<or> IS_ERR_VALUE (pick_search env file flags file addr len (if file = None then 0 else pgoff) flags mm)"
    using fx unfolding fixed_law_def by blast
  with got ok show ?thesis by metis
qed

text \<open>The end of a range found does not wrap around.\<close>

lemma range_no_wrap:
  assumes "len \<le> T" and "a \<le> T - len"
  shows "a \<le> a + len" "a + len \<le> (T :: u64)"
proof -
  have "unat a + unat len \<le> unat T"
    using assms by (simp add: word_le_nat_alt unat_sub)
  then have "unat (a + len) = unat a + unat len"
    using unat_lt64 [of T] by (simp add: unat_word_ariths)
  then show "a \<le> a + len" "a + len \<le> T"
    using \<open>unat a + unat len \<le> unat T\<close> by (simp_all add: word_le_nat_alt)
qed

end
