(* ===== verification/Brk.thy ===== *)
theory Brk
  imports Vma_Add Address_Search Mem_Limits_Spec
begin

text \<open>
  The heap: \<open>brk\<close> with the admission check that project 3 adds to it, \<open>vm_brk_flags\<close>, which
  the loader uses, and \<open>do_brk_flags\<close>, which extends the heap area or makes a new one.
\<close>

section \<open>Growing\<close>

definition check_brk_limits :: "mmap_env \<Rightarrow> u64 \<Rightarrow> u64 \<Rightarrow> mm_struct \<Rightarrow> int" where
  "check_brk_limits env addr len mm =
    (let mapped_addr = get_unmapped_area env None addr len 0 MAP_FIXED mm
     in if IS_ERR_VALUE mapped_addr then sint mapped_addr
        else if mlock_future_ok env mm (def_flags mm) len then 0 else - EAGAIN)"

text \<open>The end of a success: the counters, and the soft-dirty flag of the area.\<close>

definition brk_account :: "vma_ptr \<Rightarrow> u64 \<Rightarrow> u64 \<Rightarrow> mm_struct \<Rightarrow> (int \<times> mm_struct) option" where
  "brk_account p len flags mm = do {
     let pages = drop_bit PAGE_SHIFT len;
     let mm = mm\<lparr>total_vm := total_vm mm + pages\<rparr>;
     let mm = mm\<lparr>data_vm := data_vm mm + pages\<rparr>;
     let mm = (if has flags VM_LOCKED then mm\<lparr>locked_vm := locked_vm mm + pages\<rparr> else mm);
     v \<leftarrow> vmas mm p;
     Some (0, put_vma p (v\<lparr>vm_flags := vm_flags v OR VM_SOFTDIRTY\<rparr>) mm) }"

definition brk_expand :: "mmap_env \<Rightarrow> vma_ptr \<Rightarrow> u64 \<Rightarrow> u64 \<Rightarrow> u64 \<Rightarrow> mm_struct \<Rightarrow> (int \<times> mm_struct) option" where
  "brk_expand env p addr len flags mm =
    (if prealloc_fails env mm then Some (- ENOMEM, log_calls [VmUnacctMemory (drop_bit PAGE_SHIFT len)] mm)
     else do {
       vp \<leftarrow> init_vma_prep p mm;
       mm \<leftarrow> vma_prepare vp mm;
       v \<leftarrow> vmas mm p;
       mm \<leftarrow> vma_iter_store p
         (put_vma p (v\<lparr>vm_end := addr + len, vm_flags := vm_flags v OR VM_SOFTDIRTY\<rparr>) mm);
       mm \<leftarrow> vma_complete vp mm;
       brk_account p len flags mm })"

text \<open>A fresh anonymous area, as \<open>vm_area_alloc\<close> and the assignments after it make it.\<close>

definition anon_area :: "mmap_env \<Rightarrow> u64 \<Rightarrow> u64 \<Rightarrow> u64 \<Rightarrow> u64 \<Rightarrow> vm_area_struct" where
  "anon_area env start end flags pgoff = \<lparr>vm_start = start, vm_end = end, vm_flags = flags, vm_pgoff = pgoff,
     vm_page_prot = vm_get_page_prot env flags, vm_file = None, vm_ops = None, anon_vma = None,
     anon_vma_chain = [], vm_policy = None, vm_userfaultfd_ctx = None, anon_name = None,
     vm_private_data = None\<rparr>"

definition brk_new :: "mmap_env \<Rightarrow> u64 \<Rightarrow> u64 \<Rightarrow> u64 \<Rightarrow> mm_struct \<Rightarrow> (int \<times> mm_struct) option" where
  "brk_new env addr len flags mm = (case vm_area_alloc env mm of
     None \<Rightarrow> Some (- ENOMEM, log_calls [VmUnacctMemory (drop_bit PAGE_SHIFT len)] mm)
   | Some p \<Rightarrow>
       let mm1 = put_vma p (anon_area env addr (addr + len) flags (drop_bit PAGE_SHIFT addr)) mm
       in if prealloc_fails env mm1
          then Some (- ENOMEM, log_calls [VmUnacctMemory (drop_bit PAGE_SHIFT len)] (vm_area_free p mm1))
          else do {
            mm \<leftarrow> vma_iter_store p mm1;
            brk_account p len flags (mm\<lparr>map_count := map_count mm + 1\<rparr>) })"

definition do_brk_flags ::
  "mmap_env \<Rightarrow> vma_ptr option \<Rightarrow> u64 \<Rightarrow> u64 \<Rightarrow> u64 \<Rightarrow> mm_struct \<Rightarrow> (int \<times> mm_struct) option" where
  "do_brk_flags env vma addr len flags mm =
    (let flags = flags OR (vm_data_default_flags env OR VM_ACCOUNT OR def_flags mm);
         pages = drop_bit PAGE_SHIFT len
     in if \<not> may_expand_vm env flags pages mm then Some (- ENOMEM, mm)
        else if map_count mm > sysctl_max_map_count env then Some (- ENOMEM, mm)
        else if security_vm_enough_memory env mm pages \<noteq> 0 then Some (- ENOMEM, mm)
        else (case vma of
            None \<Rightarrow> brk_new env addr len flags mm
          | Some p \<Rightarrow> do {
              v \<leftarrow> vmas mm p;
              if vm_end v = addr \<and> vm_policy v = None
                \<and> can_vma_merge_after env v flags None None (drop_bit PAGE_SHIFT addr) None None
              then brk_expand env p addr len flags mm
              else brk_new env addr len flags mm }))"

definition vm_brk_flags :: "mmap_env \<Rightarrow> u64 \<Rightarrow> u64 \<Rightarrow> u64 \<Rightarrow> mm_struct \<Rightarrow> (int \<times> mm_struct) option" where
  "vm_brk_flags env addr request flags mm =
    (let len = PAGE_ALIGN request
     in if len < request then Some (- ENOMEM, mm)
        else if len = 0 then Some (0, mm)
        else if flags AND NOT VM_EXEC \<noteq> 0 then Some (- EINVAL, mm)
        else if lock_killed env mm then Some (- EINTR, mm)
        else
          let ret = check_brk_limits env addr len mm
          in if ret \<noteq> 0 then Some (ret, mm)
             else do {
               (ret, mm) \<leftarrow> do_vmi_munmap env addr len True mm;
               if ret \<noteq> 0 then Some (ret, mm)
               else do {
                 (ret, mm) \<leftarrow> do_brk_flags env (mt_prev addr (mm_mt mm)) addr len flags mm;
                 Some (ret, if has (def_flags mm) VM_LOCKED \<and> ret = 0
                            then log_calls [MmPopulate addr len] mm else mm) } })"

section \<open>The system call\<close>

definition do_vma_munmap ::
  "mmap_env \<Rightarrow> vma_ptr \<Rightarrow> u64 \<Rightarrow> u64 \<Rightarrow> bool \<Rightarrow> mm_struct \<Rightarrow> (int \<times> mm_struct) option" where
  "do_vma_munmap env vma start end uf mm = do_vmi_align_munmap env vma start end uf mm"

text \<open>
  The admission check as the memory calls make it: the calling process, with the pid
  \<open>current->pid\<close>, has the address space \<open>mm\<close> at this moment.
\<close>

definition with_mm :: "pid_t \<Rightarrow> mm_struct \<Rightarrow> limits_env \<Rightarrow> limits_env" where
  "with_mm p mm lenv = lenv\<lparr>find_task_by_vpid := \<lambda>q. map_option
     (\<lambda>t. if pid t = p then t\<lparr>task_mm := Some mm\<rparr> else t) (find_task_by_vpid lenv q)\<rparr>"

text \<open>Lowering the break; the result says whether it succeeded.\<close>

definition brk_shrink :: "mmap_env \<Rightarrow> u64 \<Rightarrow> u64 \<Rightarrow> u64 \<Rightarrow> mm_struct \<Rightarrow> (bool \<times> mm_struct) option" where
  "brk_shrink env new_brk newbrk oldbrk mm = (case mt_find newbrk oldbrk (mm_mt mm) of
     None \<Rightarrow> Some (False, mm)
   | Some p \<Rightarrow> do {
       v \<leftarrow> vmas mm p;
       if vm_start v \<ge> oldbrk then Some (False, mm)
       else do {
         (ret, mm') \<leftarrow> do_vma_munmap env p newbrk oldbrk True (mm\<lparr>brk := new_brk\<rparr>);
         Some (if ret \<noteq> 0 then (False, mm'\<lparr>brk := brk mm\<rparr>) else (True, mm')) } })"

text \<open>
  Raising it. The area next to the heap must leave a gap; the heap area is the last one below
  the old break that reaches beyond \<open>start_brk\<close>.
\<close>

definition brk_grow :: "mmap_env \<Rightarrow> u64 \<Rightarrow> u64 \<Rightarrow> u64 \<Rightarrow> mm_struct \<Rightarrow> (bool \<times> mm_struct) option" where
  "brk_grow env new_brk newbrk oldbrk mm =
    (if check_brk_limits env oldbrk (newbrk - oldbrk) mm \<noteq> 0 then Some (False, mm)
     else do {
       blocked \<leftarrow> (case mt_find oldbrk (newbrk + PAGE_SIZE + stack_guard_gap env) (mm_mt mm) of
           None \<Rightarrow> Some False
         | Some n \<Rightarrow> do { nv \<leftarrow> vmas mm n; Some (newbrk + PAGE_SIZE > vm_start_gap env nv) });
       if blocked then Some (False, mm)
       else do {
         brkvma \<leftarrow> (case mt_prev oldbrk (mm_mt mm) of
             None \<Rightarrow> Some None
           | Some p \<Rightarrow> do { v \<leftarrow> vmas mm p; Some (if start_brk mm < vm_end v then Some p else None) });
         (ret, mm) \<leftarrow> do_brk_flags env brkvma oldbrk (newbrk - oldbrk) 0 mm;
         Some (if ret < 0 then (False, mm)
               else (True, (if has (def_flags mm) VM_LOCKED then log_calls [MmPopulate oldbrk (newbrk - oldbrk)] else id)
                             (mm\<lparr>brk := new_brk\<rparr>))) } })"

definition sys_brk ::
  "mmap_env \<Rightarrow> limits_env \<Rightarrow> pid_t \<Rightarrow> u64 \<Rightarrow> limits_state \<Rightarrow> mm_struct
    \<Rightarrow> (u64 \<times> limits_state \<times> mm_struct) option" where
  "sys_brk env lenv p new_brk s mm =
    (let min_brk = (if compat_brk env then end_data mm else start_brk mm)
     in if lock_killed env mm then Some (err_value EINTR, s, mm)
        else if new_brk < min_brk then Some (brk mm, s, mm)
        else if check_data_rlimit env (rlimit_data env) new_brk (start_brk mm) (end_data mm) (start_data mm) \<noteq> 0
        then Some (brk mm, s, mm)
        else
          let newbrk = PAGE_ALIGN new_brk; oldbrk = PAGE_ALIGN (brk mm)
          in do {
            (accepted, _, s) \<leftarrow> is_request_accepted (with_mm p mm lenv) p (newbrk - oldbrk) s;
            if \<not> accepted then Some (brk mm, s, mm)
            else if oldbrk = newbrk then Some (new_brk, s, mm\<lparr>brk := new_brk\<rparr>)
            else do {
              (moved, mm') \<leftarrow> (if new_brk \<le> brk mm then brk_shrink env new_brk newbrk oldbrk mm
                               else brk_grow env new_brk newbrk oldbrk mm);
              Some (if moved then new_brk else brk mm, s, mm') } })"

section \<open>What growing does\<close>

text \<open>A range that no area reaches into, between page boundaries.\<close>

definition free_at :: "u64 \<Rightarrow> u64 \<Rightarrow> mm_struct \<Rightarrow> bool" where
  "free_at a b mm \<longleftrightarrow> offset_in_page a = 0 \<and> offset_in_page b = 0 \<and> a < b
     \<and> (\<forall>q w. vmas mm q = Some w \<longrightarrow> vm_end w \<le> a \<or> b \<le> vm_start w)"

lemma free_atD:
  assumes "free_at a b mm"
  shows "offset_in_page a = 0" "offset_in_page b = 0" "a < b"
    "\<And>q w. vmas mm q = Some w \<Longrightarrow> vm_end w \<le> a \<or> b \<le> vm_start w"
  using assms by (auto simp: free_at_def)

definition heap_kind :: "u64 \<Rightarrow> page_kind" where
  "heap_kind flags = \<lparr>pk_flags = kind_flags flags, pk_file = None, pk_base = 0, pk_uffd = None, pk_name = None\<rparr>"

lemma brk_account_adds:
  assumes ok: "mm_ok mm0" and free: "free_at a b mm0" and len: "len = b - a"
    and inv: "mm_inv mm" and oa: "only_areas mm0 mm" and v: "vmas mm p = Some v"
    and view: "\<And>x. mm_view mm x = (if a \<le> x \<and> x < b then Some K else mm_view mm0 x)"
  shows "\<exists>mm'. brk_account p len flags mm = Some (0, mm') \<and> adds K a b mm0 0 mm'"
proof -
  obtain mm' where mm': "brk_account p len flags mm = Some (0, mm')"
      "mm_mt mm' = mm_mt mm" "map_count mm' = map_count mm"
      "vmas mm' = (vmas mm)(p \<mapsto> v\<lparr>vm_flags := vm_flags v OR VM_SOFTDIRTY\<rparr>)"
      "total_vm mm' = total_vm mm + drop_bit PAGE_SHIFT len" "only_counts mm mm'"
    using v by (cases "has flags VM_LOCKED") (auto simp: brk_account_def put_vma_def only_counts_def Let_def)
  note touched = retouched [OF inv v rng_flags kind_softdirty mm'(2-4)]
  have total: "total_vm mm' = total_vm mm0 + drop_bit PAGE_SHIFT (b - a)"
    using mm'(5) only_areas_fields(1) [OF oa] len by simp
  have view': "mm_view mm' x = (if a \<le> x \<and> x < b then Some K else mm_view mm0 x)" for x
    using view touched(2) by simp
  have "mm_ok mm'"
    by (rule added_ok [OF ok touched(1) view' _ free_atD(1,2) [OF free] _ total])
      (use free_range [OF mm_ok_inv [OF ok]] free_atD(3,4) [OF free] in auto)
  then have "adds K a b mm0 0 mm'"
    using view' total only_counts_trans [OF only_areas_counts [OF oa] mm'(6)] by (simp add: adds_def)
  with mm'(1) show ?thesis by blast
qed

lemma brk_expand_adds:
  assumes ok: "mm_ok mm" and free: "free_at a b mm" and len: "len = b - a"
    and v: "vmas mm p = Some v" "vm_end v = a" "kind v = K"
  shows "\<exists>r mm'. brk_expand env p a len flags mm = Some (r, mm') \<and> r \<le> 0 \<and> adds K a b mm r mm'"
proof (cases "prealloc_fails env mm")
  case True
  then show ?thesis
    using adds_none [OF ok] by (simp add: brk_expand_def)
next
  case False
  note inv = mm_ok_inv [OF ok]
  let ?v = "v\<lparr>vm_end := b, vm_flags := vm_flags v OR VM_SOFTDIRTY\<rparr>"
  have b: "a + len = b" using len by simp
  have vs: "vm_start v < a" using mm_inv_nonempty [OF inv v(1)] v(2) by simp
  obtain vp where vp: "init_vma_prep p mm = Some vp" "vp_insert vp = None" "vp_remove vp = None"
    using init_multi_vma_prep_Some [OF v(1), of None None None] by (auto simp: init_vma_prep_def)
  obtain mm1 where mm1: "vma_prepare vp mm = Some mm1" "mm_mt mm1 = mm_mt mm" "vmas mm1 = vmas mm"
      "map_count mm1 = map_count mm" "only_areas mm mm1"
    using vma_prepare_steps [of vp mm] vp(2) by (auto elim: steps_toE)
  obtain mm2 where mm2: "vma_iter_store p (put_vma p ?v mm1) = Some mm2"
      "mm_mt mm2 = mt_store (vm_start v) b p (mm_mt mm)" "vmas mm2 = (vmas mm)(p \<mapsto> ?v)"
      "map_count mm2 = map_count mm" "only_areas mm mm2"
    using mm1 by (simp add: mm_state)
  obtain mm3 where mm3: "vma_complete vp mm2 = Some mm3" "mm_mt mm3 = mm_mt mm2" "vmas mm3 = vmas mm2"
      "map_count mm3 = map_count mm2" "only_areas mm2 mm3"
    using vma_complete_plain [OF vp(2,3), of mm2] by (rule steps_toE)
  have others: "vm_end w \<le> vm_start v \<or> b \<le> vm_start w" if "q \<noteq> p" "vmas mm q = Some w" for q w
    using mm_inv_disjoint [OF inv that(2) v(1) that(1)] free_atD(4) [OF free that(2)]
      mm_inv_nonempty [OF inv that(2)] v(2) by auto
  have r: "rng ?v = (vm_start v, b)" by (simp add: rng_def)
  have inv3: "mm_inv mm3"
    by (rule mm_inv_expanded [OF inv v(1) r, where D = "{}"])
      (use mm2 mm3 others free_atD [OF free] v(2) mm_inv_aligned [OF inv v(1)] in auto)
  have kv: "kind ?v = K"
    using kind_softdirty [of v] v(3) by (simp add: kind_def)
  have view: "mm_view mm3 x = (if a \<le> x \<and> x < b then Some K else mm_view mm x)" for x
    by (rule expanded_view [OF inv inv3, where D = "{}" and p = p and v' = ?v])
      (use mm2 mm3 kv v others free_atD(3,4) [OF free] vs in auto)
  have "vmas mm3 p = Some ?v" using mm2(3) mm3(3) by simp
  from brk_account_adds [OF ok free len inv3 only_areas_trans [OF mm2(5) mm3(5)] this view]
  obtain mm' where "brk_account p len flags mm3 = Some (0, mm')" "adds K a b mm 0 mm'" by blast
  then show ?thesis
    using False vp(1) mm1 mm2(1) mm3(1) v(1) b by (simp add: brk_expand_def)
qed

lemma brk_new_adds:
  assumes ok: "mm_ok mm" and free: "free_at a b mm" and len: "len = b - a" and fresh: "alloc_fresh env"
  shows "\<exists>r mm'. brk_new env a len flags mm = Some (r, mm') \<and> r \<le> 0 \<and> adds (heap_kind flags) a b mm r mm'"
proof (cases "vm_area_alloc env mm")
  case None
  then show ?thesis
    using adds_none [OF ok] by (simp add: brk_new_def)
next
  case (Some p)
  note inv = mm_ok_inv [OF ok] and out = free_atD(4) [OF free]
  have b: "a + len = b" using len by simp
  have new: "vmas mm p = None" using fresh Some by (simp add: alloc_fresh_def)
  let ?v = "anon_area env a b flags (drop_bit PAGE_SHIFT a)"
  let ?mm = "put_vma p ?v mm"
  show ?thesis
  proof (cases "prealloc_fails env ?mm")
    case True
    then show ?thesis
      using Some adds_none [OF ok] new b by (simp add: brk_new_def)
  next
    case False
    let ?mm2 = "?mm\<lparr>mm_mt := mt_store a b p (mm_mt mm), map_count := map_count mm + 1\<rparr>"
    have v: "vm_start ?v = a" "vm_end ?v = b" "kind ?v = heap_kind flags" "rng ?v = (a, b)"
      by (simp_all add: anon_area_def kind_def heap_kind_def rng_def)
    have inv2: "mm_inv ?mm2"
      by (rule mm_inv_inserted [OF inv new v(4) free_atD(3,1,2) [OF free] out]) (simp_all add: put_vma_def)
    have oa: "only_areas mm ?mm2" by (simp add: put_vma_def)
    have view: "mm_view ?mm2 x = (if a \<le> x \<and> x < b then Some (heap_kind flags) else mm_view mm x)" for x
      using inserted_view [OF inv inv2, of p ?v x] new out by (simp add: put_vma_def v)
    have vp: "vmas ?mm2 p = Some ?v" by (simp add: put_vma_def)
    obtain mm' where "brk_account p len flags ?mm2 = Some (0, mm')" "adds (heap_kind flags) a b mm 0 mm'"
      using brk_account_adds [OF ok free len inv2 oa vp view] by blast
    then show ?thesis
      using Some False b by (simp add: brk_new_def vma_iter_store_def put_vma_def v)
  qed
qed

text \<open>\<open>do_brk_flags\<close> maps exactly the range, as anonymous memory with the flags of the heap.\<close>

lemma do_brk_flags_adds:
  assumes ok: "mm_ok mm" and free: "free_at a b mm" and len: "len = b - a" and fresh: "alloc_fresh env"
    and vma: "\<And>p. vma = Some p \<Longrightarrow> vmas mm p \<noteq> None"
  shows "\<exists>r mm'. do_brk_flags env vma a len flags mm = Some (r, mm') \<and> r \<le> 0
    \<and> adds (heap_kind (flags OR (vm_data_default_flags env OR VM_ACCOUNT OR def_flags mm))) a b mm r mm'"
proof -
  let ?f = "flags OR (vm_data_default_flags env OR VM_ACCOUNT OR def_flags mm)"
  have none: "adds (heap_kind ?f) a b mm (- ENOMEM) mm"
    using adds_none [OF ok, of "- ENOMEM" "heap_kind ?f" a b "[]"] by simp
  note new = brk_new_adds [OF ok free len fresh, of ?f]
  have grow: "\<exists>r mm'. brk_expand env p a len ?f mm = Some (r, mm') \<and> r \<le> 0 \<and> adds (heap_kind ?f) a b mm r mm'"
    if "vmas mm p = Some v" "vm_end v = a"
      "can_vma_merge_after env v ?f None None (drop_bit PAGE_SHIFT a) None None" for p v
  proof (rule brk_expand_adds [OF ok free len that(1,2)])
    show "kind v = heap_kind ?f"
      using merge_after_kind [OF that(3)] mm_inv_aligned [OF mm_ok_inv [OF ok] that(1)]
        mm_inv_nonempty [OF mm_ok_inv [OF ok] that(1)] that(2)
      by (simp add: request_kind_def heap_kind_def)
  qed
  show ?thesis
  proof (cases vma)
    case None
    then show ?thesis
      using none new by (simp add: do_brk_flags_def Let_def)
  next
    case (Some p)
    then obtain v where "vmas mm p = Some v" using vma by blast
    then show ?thesis
      using Some none new grow [of p v] by (simp add: do_brk_flags_def Let_def)
  qed
qed

section \<open>What the system call does\<close>

text \<open>
  The configuration: the end of user space is a page boundary far below the top of the
  machine's addresses, and the guard of an area lies below it.
\<close>

definition config_law :: "mmap_env \<Rightarrow> bool" where
  "config_law env \<longleftrightarrow> offset_in_page (task_size env) = 0
     \<and> unat (task_size env) + 8192 + unat (stack_guard_gap env) < 2 ^ 64
     \<and> (\<forall>v. vm_start_gap env v \<le> vm_start v)"

definition heap_flags :: "mmap_env \<Rightarrow> mm_struct \<Rightarrow> u64" where
  "heap_flags env mm = vm_data_default_flags env OR VM_ACCOUNT OR def_flags mm"

text \<open>The bounds of the heap and of the data, which no call changes.\<close>

definition same_layout :: "mm_struct \<Rightarrow> mm_struct \<Rightarrow> bool" where
  "same_layout mm mm' \<longleftrightarrow> start_brk mm' = start_brk mm \<and> end_data mm' = end_data mm"

lemma same_layout_simps [simp]:
  "same_layout mm mm" "same_layout mm (mm'\<lparr>brk := x\<rparr>) = same_layout mm mm'"
  "same_layout (mm\<lparr>brk := x\<rparr>) mm' = same_layout mm mm'" "same_layout mm (log_calls cs mm') = same_layout mm mm'"
  by (simp_all add: same_layout_def log_calls_def)

lemma only_counts_layout: "only_counts mm mm' \<Longrightarrow> same_layout mm mm'"
  by (simp add: same_layout_def only_counts_fields)

definition min_brk :: "mmap_env \<Rightarrow> mm_struct \<Rightarrow> u64" where
  "min_brk env mm = (if compat_brk env then end_data mm else start_brk mm)"

text \<open>
  A move of the break from \<open>oldbrk\<close> to \<open>newbrk\<close>: what lies between is unmapped, or mapped where
  nothing was mapped before.
\<close>

definition moves_brk :: "mmap_env \<Rightarrow> u64 \<Rightarrow> mm_struct \<Rightarrow> mm_struct \<Rightarrow> bool" where
  "moves_brk env new_brk mm mm' \<longleftrightarrow>
    (let newbrk = PAGE_ALIGN new_brk; oldbrk = PAGE_ALIGN (brk mm)
     in mm_ok mm' \<and> same_layout mm mm' \<and> brk mm' = new_brk \<and> new_brk \<le> task_size env
        \<and> (\<forall>x. mm_view mm' x = (if newbrk \<le> x \<and> x < oldbrk then None
             else if oldbrk \<le> x \<and> x < newbrk then Some (heap_kind (heap_flags env mm)) else mm_view mm x))
        \<and> (oldbrk \<le> newbrk \<longrightarrow> (\<forall>x. oldbrk \<le> x \<and> x < newbrk \<longrightarrow> mm_view mm x = None)
             \<and> total_vm mm' = total_vm mm + drop_bit PAGE_SHIFT (newbrk - oldbrk)))"

definition keeps_brk :: "mm_struct \<Rightarrow> mm_struct \<Rightarrow> bool" where
  "keeps_brk mm mm' \<longleftrightarrow> mm_ok mm' \<and> same_layout mm mm' \<and> brk mm' = brk mm \<and> mm_view mm' = mm_view mm \<and> total_vm mm' = total_vm mm"

lemma brk_field [simp]:
  "mm_view (mm\<lparr>brk := x\<rparr>) = mm_view mm" "mm_ok (mm\<lparr>brk := x\<rparr>) = mm_ok mm"
  by (auto simp: mm_view_def vma_lookup_def mm_ok_def mm_inv_def fun_eq_iff)

lemma keeps_brk_refl: "mm_ok mm \<Longrightarrow> keeps_brk mm mm"
  by (simp add: keeps_brk_def)

lemma PAGE_ALIGN_mono:
  assumes "x \<le> y" and "unat y + 4095 < 2 ^ 64"
  shows "PAGE_ALIGN x \<le> PAGE_ALIGN y"
proof -
  have "unat x \<le> unat y" using assms(1) by (simp add: word_le_nat_alt)
  moreover from this have "(unat x + 4095) div 4096 * 4096 \<le> (unat y + 4095) div 4096 * 4096"
    by (intro mult_le_mono1 div_le_mono) simp
  ultimately show ?thesis
    using assms(2) by (simp add: word_le_nat_alt unat_PAGE_ALIGN)
qed

lemma PAGE_ALIGN_le:
  assumes "x \<le> T" and "offset_in_page T = 0" and "unat T + 4095 < 2 ^ 64"
  shows "x \<le> PAGE_ALIGN x" "PAGE_ALIGN x \<le> T"
proof -
  have "unat x + 4095 < 2 ^ 64"
    using assms(1,3) by (simp add: word_le_nat_alt)
  then show "x \<le> PAGE_ALIGN x"
    using PAGE_ALIGN_bounds(1) by (simp add: word_le_nat_alt)
  show "PAGE_ALIGN x \<le> T"
    using PAGE_ALIGN_mono [OF assms(1,3)] PAGE_ALIGN_id [OF assms(2)] by simp
qed

lemma brk_shrink_moves:
  assumes ok: "mm_ok mm" and fresh: "alloc_fresh env" and cfg: "config_law env" and top: "brk mm \<le> task_size env"
    and le: "new_brk \<le> brk mm" and ne: "PAGE_ALIGN (brk mm) \<noteq> PAGE_ALIGN new_brk"
  shows "\<exists>moved mm'. brk_shrink env new_brk (PAGE_ALIGN new_brk) (PAGE_ALIGN (brk mm)) mm = Some (moved, mm')
    \<and> (if moved then moves_brk env new_brk mm mm' else keeps_brk mm mm')"
proof -
  let ?n = "PAGE_ALIGN new_brk" and ?o = "PAGE_ALIGN (brk mm)"
  have "unat (brk mm) + 4095 < 2 ^ 64"
    using top cfg by (simp add: config_law_def word_le_nat_alt)
  from PAGE_ALIGN_mono [OF le this] ne have lt: "?n < ?o" by simp
  show ?thesis
  proof (cases "mt_find ?n ?o (mm_mt mm)")
    case None
    then show ?thesis
      using keeps_brk_refl [OF ok] by (auto simp: brk_shrink_def)
  next
    case (Some p)
    let ?mm = "mm\<lparr>brk := new_brk\<rparr>"
    have ok': "mm_ok ?mm" using ok by simp
    have "mt_ok (mm_mt mm)" "set (mm_mt mm) = entries (vmas mm)"
      using mm_ok_inv [OF ok] by (simp_all add: mm_inv_def)
    with mt_find_SomeE [OF _ Some] obtain v where v: "vmas mm p = Some v" "vm_start v < ?o"
      by (metis entries_iff)
    obtain r mm' where run: "do_vmi_align_munmap env p ?n ?o True ?mm = Some (r, mm')" "unmaps ?n ?o ?mm r mm'"
      using do_vmi_align_munmap_spec [OF ok' fresh PAGE_ALIGN_aligned PAGE_ALIGN_aligned lt, of p True] Some by auto
    have "brk mm' = new_brk"
      using run(2) only_counts_fields(4) [of ?mm mm'] by (simp add: unmaps_def)
    moreover have lay: "same_layout mm mm'"
      using run(2) only_counts_layout [of ?mm mm'] by (simp add: unmaps_def)
    ultimately have "r = 0 \<Longrightarrow> moves_brk env new_brk mm mm'"
      using run(2) lt le top by (auto simp: moves_brk_def unmaps_def Let_def)
    moreover have "keeps_brk mm (mm'\<lparr>brk := brk mm\<rparr>)" if "r \<noteq> 0"
    proof -
      have "mm_view mm' = mm_view mm" using run(2) that by (auto simp: unmaps_def)
      moreover have "mm_ok mm'" using run(2) by (simp add: unmaps_def)
      moreover from calculation have "total_vm mm' = total_vm mm"
        using ok by (simp add: mm_ok_iff mapped_pages_def)
      ultimately show ?thesis using lay by (simp add: keeps_brk_def)
    qed
    moreover have "brk_shrink env new_brk ?n ?o mm = Some (r = 0, if r = 0 then mm' else mm'\<lparr>brk := brk mm\<rparr>)"
      using Some v run(1) by (simp add: brk_shrink_def do_vma_munmap_def not_le [symmetric])
    ultimately show ?thesis by auto
  qed
qed

text \<open>What the checks of \<open>brk_grow\<close> establish: the range is free and lies within user space.\<close>

lemma brk_range_free:
  assumes ok: "mm_ok mm" and cfg: "config_law env" and law: "area_law env" "fixed_law env"
    and al: "offset_in_page new = 0" "offset_in_page old = 0" and ne: "new \<noteq> old"
    and chk: "check_brk_limits env old (new - old) mm = 0"
    and gap: "\<And>n nv. mt_find old (new + PAGE_SIZE + stack_guard_gap env) (mm_mt mm) = Some n \<Longrightarrow>
      vmas mm n = Some nv \<Longrightarrow> new + PAGE_SIZE \<le> vm_start_gap env nv"
  shows "free_at old new mm" "new \<le> task_size env"
proof -
  let ?a = "get_unmapped_area env None old (new - old) 0 MAP_FIXED mm"
  have noerr: "\<not> IS_ERR_VALUE ?a"
  proof
    assume e: "IS_ERR_VALUE ?a"
    then have "sint ?a = 0" using chk by (simp add: check_brk_limits_def)
    then have "?a = 0" by (metis sint_0 signed_word_eqI)
    with e show False by (simp add: IS_ERR_VALUE_unat)
  qed
  have a: "?a = old"
    by (rule get_unmapped_area_fixed [OF law(1) noerr law(2)]) (simp add: has_def)
  note got = get_unmapped_area_ok [OF law(1) noerr]
  have "old \<le> old + (new - old)" "old + (new - old) \<le> task_size env"
    using range_no_wrap [of "new - old" "task_size env" old] got a by auto
  then have lt: "old < new" and top: "new \<le> task_size env"
    using ne by auto
  then show "new \<le> task_size env" by simp
  have "unat new + 8192 + unat (stack_guard_gap env) < 2 ^ 64"
    using top cfg by (simp add: config_law_def word_le_nat_alt)
  then have hi: "new \<le> new + PAGE_SIZE" "new \<le> new + PAGE_SIZE + stack_guard_gap env"
    by (simp_all add: word_le_nat_alt unat_word_ariths)
  have tree: "mt_ok (mm_mt mm)" "set (mm_mt mm) = entries (vmas mm)"
    using mm_ok_inv [OF ok] by (simp_all add: mm_inv_def)
  have "vm_end w \<le> old \<or> new \<le> vm_start w" if w: "vmas mm q = Some w" for q w
  proof -
    have e: "(vm_start w, vm_end w, q) \<in> set (mm_mt mm)"
      unfolding tree(2) entries_iff using w by blast
    show ?thesis
    proof (cases "mt_find old (new + PAGE_SIZE + stack_guard_gap env) (mm_mt mm)")
      case None
      with e have "\<not> (old < vm_end w \<and> vm_start w < new + PAGE_SIZE + stack_guard_gap env)"
        unfolding mt_find_None by force
      with hi(2) show ?thesis by auto
    next
      case (Some n)
      from mt_find_SomeE [OF tree(1) Some] obtain s t where n: "(s, t, n) \<in> set (mm_mt mm)"
        and first: "\<And>y. y \<in> set (mm_mt mm) \<Longrightarrow> old < fst (snd y) \<Longrightarrow> y = (s, t, n) \<or> t \<le> fst y" by blast
      from n obtain nv where nv: "vmas mm n = Some nv" "vm_start nv = s" "vm_end nv = t"
        unfolding tree(2) entries_iff by blast
      have "new + PAGE_SIZE \<le> s"
        using gap [OF Some nv(1)] cfg nv(2) unfolding config_law_def by (metis order_trans)
      with hi(1) have "new \<le> s" by simp
      moreover have "s < t" using mm_inv_nonempty [OF mm_ok_inv [OF ok] nv(1)] nv by simp
      ultimately show ?thesis
        using first [OF e] by (cases "old < vm_end w") auto
    qed
  qed
  with al lt show "free_at old new mm" by (simp add: free_at_def)
qed

text \<open>The state after \<open>do_brk_flags\<close> has mapped the range.\<close>

lemma grown_moves:
  assumes ok: "mm_ok mm" and run: "adds (heap_kind (heap_flags env mm)) (PAGE_ALIGN (brk mm)) (PAGE_ALIGN new_brk) mm 0 mm1"
    and fr: "free_at (PAGE_ALIGN (brk mm)) (PAGE_ALIGN new_brk) mm" and top: "PAGE_ALIGN new_brk \<le> task_size env"
  shows "moves_brk env new_brk mm (log_calls cs (mm1\<lparr>brk := new_brk\<rparr>))"
proof -
  note range = free_atD [OF fr]
  have "unat new_brk + 4095 < 2 ^ 64"
  proof (rule ccontr)
    assume "\<not> unat new_brk + 4095 < 2 ^ 64"
    then have "PAGE_ALIGN new_brk = 0" by (simp add: PAGE_ALIGN_eq_0_iff)
    with range(3) show False by simp
  qed
  then have "new_brk \<le> PAGE_ALIGN new_brk"
    using PAGE_ALIGN_bounds(1) by (simp add: word_le_nat_alt)
  with top have "new_brk \<le> task_size env" by simp
  then show ?thesis
    using run range(3) free_range [OF mm_ok_inv [OF ok] range(4)] only_counts_layout [of mm mm1]
    by (auto simp: moves_brk_def adds_def Let_def) (simp_all add: log_calls_def)
qed

lemma moved_yes: "x = Some (True, m) \<Longrightarrow> P m \<Longrightarrow> \<exists>moved mm'. x = Some (moved, mm') \<and> (if moved then P mm' else Q mm')"
  by auto

lemma moved_no: "x = Some (False, m) \<Longrightarrow> Q m \<Longrightarrow> \<exists>moved mm'. x = Some (moved, mm') \<and> (if moved then P mm' else Q mm')"
  by auto

lemma brk_grow_moves:
  assumes ok: "mm_ok mm" and fresh: "alloc_fresh env" and cfg: "config_law env" and law: "area_law env" "fixed_law env"
    and ne: "PAGE_ALIGN (brk mm) \<noteq> PAGE_ALIGN new_brk"
  shows "\<exists>moved mm'. brk_grow env new_brk (PAGE_ALIGN new_brk) (PAGE_ALIGN (brk mm)) mm = Some (moved, mm')
    \<and> (if moved then moves_brk env new_brk mm mm' else keeps_brk mm mm')"
proof -
  let ?n = "PAGE_ALIGN new_brk" and ?o = "PAGE_ALIGN (brk mm)"
  let ?next = "mt_find ?o (?n + PAGE_SIZE + stack_guard_gap env) (mm_mt mm)"
  have tree: "mt_ok (mm_mt mm)" "set (mm_mt mm) = entries (vmas mm)"
    using mm_ok_inv [OF ok] by (simp_all add: mm_inv_def)
  have nextv: "\<exists>nv. vmas mm n = Some nv" if "?next = Some n" for n
    using mt_find_SomeE [OF tree(1) that] unfolding tree(2) by (metis entries_iff)
  have prevv: "\<exists>v. vmas mm p = Some v" if "mt_prev ?o (mm_mt mm) = Some p" for p
    using mt_prev_SomeE [OF tree(1) that] unfolding tree(2) by (metis entries_iff)
  consider (refused) "check_brk_limits env ?o (?n - ?o) mm \<noteq> 0"
    | (blocked) n nv where "check_brk_limits env ?o (?n - ?o) mm = 0" "?next = Some n" "vmas mm n = Some nv"
        "vm_start_gap env nv < ?n + PAGE_SIZE"
    | (clear) "check_brk_limits env ?o (?n - ?o) mm = 0"
        "\<And>n nv. ?next = Some n \<Longrightarrow> vmas mm n = Some nv \<Longrightarrow> ?n + PAGE_SIZE \<le> vm_start_gap env nv"
    by (metis not_le)
  then show ?thesis
  proof cases
    case clear
    have range: "free_at ?o ?n mm" "?n \<le> task_size env"
      by (rule brk_range_free [OF ok cfg law PAGE_ALIGN_aligned PAGE_ALIGN_aligned ne [symmetric] clear(1)];
          use clear(2) in blast)+
    obtain brkvma where bv: "(case mt_prev ?o (mm_mt mm) of None \<Rightarrow> Some None
        | Some p \<Rightarrow> do { v \<leftarrow> vmas mm p; Some (if start_brk mm < vm_end v then Some p else None) }) = Some brkvma"
      "\<And>p. brkvma = Some p \<Longrightarrow> vmas mm p \<noteq> None"
    proof (cases "mt_prev ?o (mm_mt mm)")
      case (Some p)
      with prevv obtain v where v: "vmas mm p = Some v" by blast
      show thesis
        by (rule that [of "if start_brk mm < vm_end v then Some p else None"]) (use Some v in \<open>auto split: if_splits\<close>)
    qed (use that in simp)
    obtain r mm1 where run: "do_brk_flags env brkvma ?o (?n - ?o) 0 mm = Some (r, mm1)" "r \<le> 0"
        "adds (heap_kind (heap_flags env mm)) ?o ?n mm r mm1"
      using do_brk_flags_adds [OF ok range(1) refl fresh, of brkvma 0] bv(2) by (auto simp: heap_flags_def)
    have unblocked: "(case ?next of None \<Rightarrow> Some False
        | Some n \<Rightarrow> do { nv \<leftarrow> vmas mm n; Some (?n + PAGE_SIZE > vm_start_gap env nv) }) = Some False"
      using nextv clear(2) by (cases ?next) (auto simp: not_less)
    let ?calls = "if has (def_flags mm1) VM_LOCKED then [MmPopulate ?o (?n - ?o)] else []"
    have grow: "brk_grow env new_brk ?n ?o mm
        = Some (if r < 0 then (False, mm1) else (True, log_calls ?calls (mm1\<lparr>brk := new_brk\<rparr>)))"
      using clear(1) by (simp add: brk_grow_def unblocked bv(1) run(1))
    have "brk mm1 = brk mm" using run(3) only_counts_fields(4) [of mm mm1] by (simp add: adds_def)
    then have kept: "r \<noteq> 0 \<Longrightarrow> keeps_brk mm mm1"
      using run(3) only_counts_layout [of mm mm1] by (auto simp: adds_def keeps_brk_def)
    show ?thesis
    proof (cases "r = 0")
      case True
      with run(3) have "moves_brk env new_brk mm (log_calls ?calls (mm1\<lparr>brk := new_brk\<rparr>))"
        by (intro grown_moves [OF ok _ range]) simp
      then show ?thesis by (intro moved_yes) (simp_all add: grow True)
    next
      case False
      with grow run(2) have "brk_grow env new_brk ?n ?o mm = Some (False, mm1)" by simp
      then show ?thesis by (rule moved_no) (rule kept [OF False])
    qed
  qed (use keeps_brk_refl [OF ok] in \<open>auto simp: brk_grow_def\<close>)
qed

text \<open>
  \<open>brk\<close> returns whatever happens. It moves the break as asked and returns the new one, or it
  returns the old one, or \<open>EINTR\<close>, and maps and unmaps nothing; where it moves the break, the
  admission check has accepted the difference.
\<close>

lemma same_page_moves:
  assumes ok: "mm_ok mm" and cfg: "config_law env" and top: "brk mm \<le> task_size env" "brk mm \<noteq> 0"
    and eq: "PAGE_ALIGN (brk mm) = PAGE_ALIGN new_brk"
  shows "moves_brk env new_brk mm (mm\<lparr>brk := new_brk\<rparr>)"
proof -
  have small: "unat (task_size env) + 4095 < 2 ^ 64" and T: "offset_in_page (task_size env) = 0"
    using cfg by (simp_all add: config_law_def)
  note b = PAGE_ALIGN_le [OF top(1) T small]
  have "unat new_brk + 4095 < 2 ^ 64"
  proof (rule ccontr)
    assume "\<not> unat new_brk + 4095 < 2 ^ 64"
    then have "PAGE_ALIGN (brk mm) = 0" unfolding eq by (simp add: PAGE_ALIGN_eq_0_iff)
    with b(1) top(2) show False by simp
  qed
  then have "new_brk \<le> PAGE_ALIGN (brk mm)"
    unfolding eq using PAGE_ALIGN_bounds(1) by (simp add: word_le_nat_alt)
  with b(2) have "new_brk \<le> task_size env" by simp
  then show ?thesis
    using ok eq by (auto simp: moves_brk_def Let_def)
qed

lemma sys_brk_spec:
  assumes ok: "mm_ok mm" and inv: "limits_inv s" and fresh: "alloc_fresh env" and cfg: "config_law env"
    and law: "area_law env" "fixed_law env" and top: "brk mm \<le> task_size env" "brk mm \<noteq> 0"
  shows "\<exists>ret mm'. sys_brk env lenv p new_brk s mm = Some (ret, s, mm')
    \<and> (ret = new_brk \<and> moves_brk env new_brk mm mm' \<and> min_brk env mm \<le> new_brk
         \<and> accepts (with_mm p mm lenv) p (PAGE_ALIGN new_brk - PAGE_ALIGN (brk mm)) (limits_of (memory_list s) p)
       \<or> ret \<in> {brk mm, err_value EINTR} \<and> keeps_brk mm mm')"
proof -
  let ?n = "PAGE_ALIGN new_brk" and ?o = "PAGE_ALIGN (brk mm)"
  let ?acc = "accepts (with_mm p mm lenv) p (?n - ?o) (limits_of (memory_list s) p)"
  let ?min = "min_brk env mm"
  let ?data = "check_data_rlimit env (rlimit_data env) new_brk (start_brk mm) (end_data mm) (start_data mm)"
  let ?move = "if new_brk \<le> brk mm then brk_shrink env new_brk ?n ?o mm else brk_grow env new_brk ?n ?o mm"
  obtain log where chk: "is_request_accepted (with_mm p mm lenv) p (?n - ?o) s = Some (?acc, log, s)"
    using check_refines [OF inv] by blast
  consider (early) "lock_killed env mm \<or> new_brk < ?min \<or> ?data \<noteq> 0 \<or> \<not> ?acc"
    | (go) "\<not> lock_killed env mm" "\<not> new_brk < ?min" "?data = 0" ?acc
    by blast
  then show ?thesis
  proof cases
    case early
    then have "\<exists>ret \<in> {brk mm, err_value EINTR}. sys_brk env lenv p new_brk s mm = Some (ret, s, mm)"
      by (auto simp: sys_brk_def Let_def chk min_brk_def [symmetric])
    then show ?thesis using keeps_brk_refl [OF ok] by blast
  next
    case go
    have brk: "sys_brk env lenv p new_brk s mm = (if ?o = ?n then Some (new_brk, s, mm\<lparr>brk := new_brk\<rparr>)
        else do { (moved, mm') \<leftarrow> ?move; Some (if moved then new_brk else brk mm, s, mm') })"
      using go by (simp add: sys_brk_def Let_def chk min_brk_def [symmetric])
    show ?thesis
    proof (cases "?o = ?n")
      case True
      then show ?thesis using brk go(2,4) same_page_moves [OF ok cfg top True] by auto
    next
      case False
      obtain moved mm' where "?move = Some (moved, mm')" "if moved then moves_brk env new_brk mm mm' else keeps_brk mm mm'"
        using brk_shrink_moves [OF ok fresh cfg top(1) _ False] brk_grow_moves [OF ok fresh cfg law False]
        by (cases "new_brk \<le> brk mm") auto
      then show ?thesis using brk go(2,4) False by (auto split: if_splits)
    qed
  qed
qed

section \<open>Properties\<close>

lemma push_drop_page:
  assumes "offset_in_page a = 0" and "offset_in_page b = 0" and "a \<le> b"
  shows "push_bit 12 (drop_bit 12 (b - a)) = (b - a :: u64)"
proof -
  have "unat (b - a) mod 4096 = 0"
    using assms by (simp add: page_aligned_iff unat_sub mod_0_imp_dvd)
  then have "take_bit 12 (b - a) = 0"
    by (simp add: page_aligned_iff [symmetric] offset_in_page_def take_bit_eq_mask)
  with bits_ident [of 12 "b - a"] show ?thesis by simp
qed

lemma with_mm_task:
  "find_task_by_vpid lenv p = Some t \<Longrightarrow> pid t = p \<Longrightarrow>
    find_task_by_vpid (with_mm p mm lenv) p = Some (t\<lparr>task_mm := Some mm\<rparr>)"
  by (simp add: with_mm_def)

text \<open>An address space with an empty heap, for the process that the example limits to 8192 bytes.\<close>

definition ex_heap :: mm_struct where
  "ex_heap = empty_mm\<lparr>start_brk := 0x10000, brk := 0x10000\<rparr>"

lemma ex_heap_ok: "mm_ok ex_heap" "brk ex_heap \<le> task_size plain_env" "brk ex_heap \<noteq> 0"
  by (simp_all add: ex_heap_def empty_mm_def mm_ok_def mm_inv_def entries_def aligned_areas_def pages_of_def
      plain_env_def)

lemma plain_laws: "config_law plain_env" "area_law plain_env" "fixed_law plain_env"
  by (simp_all add: plain_env_def config_law_def area_law_def fixed_law_def pick_search_def page_aligned_iff
      split: option.split)

text \<open>
  C34: \<open>brk\<close> always returns, in an address space in order, whatever allocation fails on the way.
  It returns the new break, and then the pages between the old and the new break are
  unmapped, or mapped where nothing was mapped before, every other address keeps its mapping
  and the limiter has accepted the difference; or it returns the old break or \<open>EINTR\<close>, and no
  address has changed. The new break is never below the start of the heap. The address space is
  in order afterwards, its page counter included.
\<close>

theorem brk_moves_break:
  assumes "mm_ok mm" and "limits_inv s" and "alloc_fresh env" and "config_law env" and "area_law env"
    and "fixed_law env" and "brk mm \<le> task_size env" and "brk mm \<noteq> 0"
  shows "\<exists>ret mm'. sys_brk env lenv p new_brk s mm = Some (ret, s, mm')
    \<and> (ret = new_brk \<and> moves_brk env new_brk mm mm' \<and> min_brk env mm \<le> new_brk
         \<and> accepts (with_mm p mm lenv) p (PAGE_ALIGN new_brk - PAGE_ALIGN (brk mm)) (limits_of (memory_list s) p)
       \<or> ret \<in> {brk mm, err_value EINTR} \<and> keeps_brk mm mm')"
  using assms by (rule sys_brk_spec)

theorem brk_moves_break_witness:
  "\<exists>ret mm'. sys_brk plain_env ex_env 7 0x12000 ex_limits ex_heap = Some (ret, ex_limits, mm')
    \<and> (ret = 0x12000 \<and> moves_brk plain_env 0x12000 ex_heap mm' \<and> min_brk plain_env ex_heap \<le> 0x12000
         \<and> accepts (with_mm 7 ex_heap ex_env) 7 (PAGE_ALIGN 0x12000 - PAGE_ALIGN (brk ex_heap))
             (limits_of (memory_list ex_limits) 7)
       \<or> ret \<in> {brk ex_heap, err_value EINTR} \<and> keeps_brk ex_heap mm')"
  by (rule brk_moves_break [OF ex_heap_ok(1) ex_inv plain_env_fresh plain_laws ex_heap_ok(2,3)])

lemma brk_within_limit:
  assumes moved: "moves_brk env new_brk mm mm'" and up: "PAGE_ALIGN (brk mm) < PAGE_ALIGN new_brk"
    and task: "find_task_by_vpid lenv p = Some t" "pid t = p"
    and acc: "accepts (with_mm p mm lenv) p (PAGE_ALIGN new_brk - PAGE_ALIGN (brk mm)) (Some l)"
  shows "4096 * unat (total_vm mm') \<le> unat l"
proof -
  let ?d = "PAGE_ALIGN new_brk - PAGE_ALIGN (brk mm)"
  have "total_vm mm' = total_vm mm + drop_bit PAGE_SHIFT ?d"
    using moved up by (simp add: moves_brk_def Let_def)
  then have "push_bit PAGE_SHIFT (total_vm mm') = push_bit PAGE_SHIFT (total_vm mm) + ?d"
    using up by (simp add: push_bit_add push_drop_page)
  moreover have "push_bit PAGE_SHIFT (total_vm mm) + ?d \<le> l"
    using acc with_mm_task [OF task, of mm] by (simp add: accepts_def)
  ultimately show ?thesis
    using mapped_bytes [of mm'] moved by (simp add: moves_brk_def word_le_nat_alt Let_def)
qed

text \<open>
  C33: The limit holds for the heap. Where a process with a limit raises its break and \<open>brk\<close>
  returns the new one, the memory it has mapped in all, in bytes, is at most the limit. The
  process is looked up under the pid of the caller, as the limiter assumes.
\<close>

theorem brk_respects_limit:
  assumes ok: "mm_ok mm" and inv: "limits_inv s" and fresh: "alloc_fresh env" and cfg: "config_law env"
    and law: "area_law env" "fixed_law env" and top: "brk mm \<le> task_size env" "brk mm \<noteq> 0"
    and task: "find_task_by_vpid lenv p = Some t" "pid t = p" and limit: "limits_of (memory_list s) p = Some l"
    and up: "PAGE_ALIGN (brk mm) < PAGE_ALIGN new_brk" and ret: "sys_brk env lenv p new_brk s mm = Some (new_brk, s', mm')"
  shows "4096 * unat (total_vm mm') \<le> unat l"
proof -
  have "new_brk \<noteq> brk mm" using up by auto
  moreover have "new_brk \<noteq> err_value EINTR"
  proof
    assume "new_brk = err_value EINTR"
    then have "PAGE_ALIGN new_brk = 0" by (simp add: PAGE_ALIGN_eq_0_iff err_value_def)
    with up show False by simp
  qed
  ultimately show ?thesis
    using brk_within_limit [OF _ up task, of env mm' l] sys_brk_spec [OF ok inv fresh cfg law top, of lenv p new_brk] ret limit
    by auto
qed

lemma ex_grow: "\<exists>mm'. sys_brk plain_env ex_env 7 0x12000 ex_limits ex_heap = Some (0x12000, ex_limits, mm')"
  by (simp add: sys_brk_def ex_heap_def ex_defs plain_env_def is_request_accepted_def with_mm_def find_entry_def
      PAGE_ALIGN_def brk_grow_def check_brk_limits_def get_unmapped_area_def pick_search_def mlock_future_ok_def
      has_def do_brk_flags_def may_expand_vm_def brk_new_def brk_account_def vma_iter_store_def put_vma_def
      IS_ERR_VALUE_def offset_in_page_def mt_find_def mt_prev_def Let_def mask_eq_exp_minus_1)

theorem brk_respects_limit_witness:
  "\<exists>mm'. sys_brk plain_env ex_env 7 0x12000 ex_limits ex_heap = Some (0x12000, ex_limits, mm')
    \<and> 4096 * unat (total_vm mm') \<le> unat (8192 :: u64)"
proof -
  obtain mm' where run: "sys_brk plain_env ex_env 7 0x12000 ex_limits ex_heap = Some (0x12000, ex_limits, mm')"
    using ex_grow by blast
  have task: "find_task_by_vpid ex_env 7 = Some ex_task" "pid ex_task = 7"
    and limit: "limits_of (memory_list ex_limits) 7 = Some 8192"
    and up: "PAGE_ALIGN (brk ex_heap) < PAGE_ALIGN 0x12000"
    by (simp_all add: ex_defs limits_of_def ex_heap_def PAGE_ALIGN_def find_entry_def)
  show ?thesis
    using brk_respects_limit [OF ex_heap_ok(1) ex_inv plain_env_fresh plain_laws ex_heap_ok(2,3) task limit up run] run
    by blast
qed

text \<open>
  C35: The check stands before the comment that shrinking is always allowed, and refuses it: a
  process that would still be above its limit after giving memory back keeps all of it,
  because the difference is negative and the sum of the check wraps to the size afterwards.
\<close>

theorem brk_shrink_refused:
  assumes inv: "limits_inv s" and task: "find_task_by_vpid lenv p = Some t" "pid t = p"
    and limit: "limits_of (memory_list s) p = Some l" and ok: "mm_ok mm" and down: "PAGE_ALIGN new_brk < PAGE_ALIGN (brk mm)"
    and above: "unat l + unat (PAGE_ALIGN (brk mm) - PAGE_ALIGN new_brk) < 4096 * unat (total_vm mm)"
    and killed: "\<not> lock_killed env mm"
  shows "sys_brk env lenv p new_brk s mm = Some (brk mm, s, mm)"
proof -
  let ?d = "PAGE_ALIGN (brk mm) - PAGE_ALIGN new_brk" and ?u = "push_bit PAGE_SHIFT (total_vm mm)"
  have u: "unat ?u = 4096 * unat (total_vm mm)"
    by (rule mapped_bytes [OF ok])
  have eq: "?u + (PAGE_ALIGN new_brk - PAGE_ALIGN (brk mm)) = ?u - ?d"
    by simp
  have "unat (?u - ?d) = unat ?u - unat ?d"
    by (rule unat_sub) (use above u in \<open>simp add: word_le_nat_alt\<close>)
  then have "\<not> ?u + (PAGE_ALIGN new_brk - PAGE_ALIGN (brk mm)) \<le> l"
    unfolding eq word_le_nat_alt using above u by simp
  then have "\<not> accepts (with_mm p mm lenv) p (PAGE_ALIGN new_brk - PAGE_ALIGN (brk mm)) (limits_of (memory_list s) p)"
    using with_mm_task [OF task, of mm] limit by (simp add: accepts_def)
  then show ?thesis
    using check_refines [OF inv, of "with_mm p mm lenv" p "PAGE_ALIGN new_brk - PAGE_ALIGN (brk mm)"] killed
    by (auto simp: sys_brk_def Let_def)
qed

text \<open>Four pages of heap, of which the limit allows two.\<close>

definition ex_big_heap :: mm_struct where
  "ex_big_heap = empty_mm\<lparr>mm_mt := [(0x10000, 0x14000, 1)], vmas := [1 \<mapsto> plain_vma 0x10000 0x14000 3],
     map_count := 1, total_vm := 4, start_brk := 0x10000, brk := 0x14000\<rparr>"

lemma ex_big_heap_ok: "mm_ok ex_big_heap"
  by (simp add: ex_big_heap_def empty_mm_def mm_ok_def mm_inv_def mt_ok_def entries_def aligned_areas_def pages_of_def
      plain_vma_def vma_pages_def page_aligned_iff)

theorem brk_shrink_refused_witness:
  "sys_brk plain_env ex_env 7 0x13000 ex_limits ex_big_heap = Some (brk ex_big_heap, ex_limits, ex_big_heap)"
proof -
  have task: "find_task_by_vpid ex_env 7 = Some ex_task" "pid ex_task = 7"
    and limit: "limits_of (memory_list ex_limits) 7 = Some 8192"
    by (simp_all add: ex_defs limits_of_def find_entry_def)
  show ?thesis
    by (rule brk_shrink_refused [OF ex_inv task limit ex_big_heap_ok])
      (simp_all add: ex_big_heap_def PAGE_ALIGN_def plain_env_def)
qed

text \<open>
  C36: A process that the limiter cannot look up under the pid of the caller, \<open>current->pid\<close>
  taken as a pid of the caller's namespace, cannot move its break at all, limited or not.
\<close>

theorem brk_refused_when_pid_unseen:
  assumes "find_task_by_vpid lenv p = None" and "\<not> lock_killed env mm"
  shows "sys_brk env lenv p new_brk s mm = Some (brk mm, s, mm)"
  using assms by (simp add: sys_brk_def is_request_accepted_def with_mm_def Let_def)

theorem brk_refused_when_pid_unseen_witness:
  "sys_brk plain_env ex_env 8 0x12000 ex_limits ex_heap = Some (brk ex_heap, ex_limits, ex_heap)"
  by (rule brk_refused_when_pid_unseen) (simp_all add: ex_defs plain_env_def)

end
