(* ===== verification/Mmap_Region.thy ===== *)
theory Mmap_Region
  imports Vma_Merge_Spec Brk
begin

text \<open>
  \<open>mmap_region\<close>: the limits on the size of the address space, the removal of what the range held
  before, and the range added to a neighbour or as an area of its own, with the mapper of the
  file or of shared memory called on it. A new area is a value of its own until it is linked
  into the address space, so that a failure has nothing to free.
\<close>

section \<open>Page protection and accounting\<close>

definition vm_pgprot_modify :: "mmap_env \<Rightarrow> u64 \<Rightarrow> u64 \<Rightarrow> u64" where
  "vm_pgprot_modify env oldprot flags = pgprot_modify env oldprot (vm_get_page_prot env flags)"

definition vm_ops_needs_writenotify :: "mmap_env \<Rightarrow> nat option \<Rightarrow> bool" where
  "vm_ops_needs_writenotify env ops = (case ops of None \<Rightarrow> False | Some p \<Rightarrow> ops_mkwrite env p)"

definition vma_is_shared_writable :: "vm_area_struct \<Rightarrow> bool" where
  "vma_is_shared_writable v \<longleftrightarrow> vm_flags v AND (VM_WRITE OR VM_SHARED) = VM_WRITE OR VM_SHARED"

definition vma_fs_can_writeback :: "mmap_env \<Rightarrow> vm_area_struct \<Rightarrow> bool" where
  "vma_fs_can_writeback env v =
    (if has (vm_flags v) VM_PFNMAP then False
     else (case vm_file v of None \<Rightarrow> False | Some f \<Rightarrow> mapping_can_writeback env f))"

definition vma_needs_dirty_tracking :: "mmap_env \<Rightarrow> vm_area_struct \<Rightarrow> bool" where
  "vma_needs_dirty_tracking env v =
    (if \<not> vma_is_shared_writable v then False
     else if vm_ops_needs_writenotify env (vm_ops v) then True
     else vma_fs_can_writeback env v)"

definition is_vm_hugetlb_page :: "vm_area_struct \<Rightarrow> bool" where
  "is_vm_hugetlb_page v \<longleftrightarrow> has (vm_flags v) VM_HUGETLB"

definition vma_wants_writenotify :: "mmap_env \<Rightarrow> vm_area_struct \<Rightarrow> u64 \<Rightarrow> bool" where
  "vma_wants_writenotify env v prot =
    (if \<not> vma_is_shared_writable v then False
     else if vm_ops_needs_writenotify env (vm_ops v) then True
     else if prot \<noteq> vm_pgprot_modify env prot (vm_flags v) then False
     else if vma_soft_dirty_enabled env v \<and> \<not> is_vm_hugetlb_page v then True
     else if userfaultfd_wp env v then True
     else vma_fs_can_writeback env v)"

definition vma_set_page_prot :: "mmap_env \<Rightarrow> vm_area_struct \<Rightarrow> vm_area_struct" where
  "vma_set_page_prot env v =
    (let prot = vm_pgprot_modify env (vm_page_prot v) (vm_flags v);
         prot = (if vma_wants_writenotify env v prot
                 then vm_pgprot_modify env prot (vm_flags v AND NOT VM_SHARED) else prot)
     in v\<lparr>vm_page_prot := prot\<rparr>)"

definition accountable_mapping :: "mmap_env \<Rightarrow> nat option \<Rightarrow> u64 \<Rightarrow> bool" where
  "accountable_mapping env file flags \<longleftrightarrow>
     \<not> (case file of None \<Rightarrow> False | Some f \<Rightarrow> is_file_hugepages env f)
     \<and> flags AND (VM_NORESERVE OR VM_SHARED OR VM_WRITE) = VM_WRITE"

section \<open>Growing a neighbour over the range\<close>

text \<open>
  The neighbour that can take the range, with its new start, end and page offset. When both
  can, the predecessor takes it and the successor is swallowed.
\<close>

type_synonym growth = "vma_ptr \<times> u64 \<times> u64 \<times> u64"

definition merge_next_choice ::
  "mmap_env \<Rightarrow> vma_ptr option \<Rightarrow> u64 \<Rightarrow> nat option \<Rightarrow> u64 \<Rightarrow> u64 \<Rightarrow> u64 \<Rightarrow> mm_struct \<Rightarrow> growth option option" where
  "merge_next_choice env next flags file addr end pgoff mm =
    (let pglen = drop_bit PAGE_SHIFT (end - addr)
     in case next of None \<Rightarrow> Some None
        | Some n \<Rightarrow> do {
            nv \<leftarrow> vmas mm n;
            Some (if vm_start nv = end \<and> vm_policy nv = None
                    \<and> can_vma_merge_before env nv flags None file (pgoff + pglen) None None
                  then Some (n, addr, vm_end nv, vm_pgoff nv - pglen) else None) })"

definition merge_choice ::
  "mmap_env \<Rightarrow> vma_ptr option \<Rightarrow> vma_ptr option \<Rightarrow> u64 \<Rightarrow> nat option \<Rightarrow> u64 \<Rightarrow> u64 \<Rightarrow> u64 \<Rightarrow> mm_struct
    \<Rightarrow> growth option option" where
  "merge_choice env prev next flags file addr end pgoff mm = do {
     choice \<leftarrow> merge_next_choice env next flags file addr end pgoff mm;
     case prev of None \<Rightarrow> Some choice
     | Some p \<Rightarrow> do {
         pv \<leftarrow> vmas mm p;
         (anon, uffd, merge_end) \<leftarrow> (case choice of
             None \<Rightarrow> Some (None, None, end)
           | Some (n, _, e, _) \<Rightarrow> do { nv \<leftarrow> vmas mm n; Some (anon_vma nv, vm_userfaultfd_ctx nv, e) });
         Some (if vm_end pv = addr \<and> vm_policy pv = None
                 \<and> can_vma_merge_after env pv flags anon file pgoff uffd None
               then Some (p, vm_start pv, merge_end, vm_pgoff pv) else choice) } }"

text \<open>The label \<open>expanded\<close>: counters, locked pages, soft-dirty flag and page protection.\<close>

definition mmap_finish :: "mmap_env \<Rightarrow> vma_ptr \<Rightarrow> u64 \<Rightarrow> u64 \<Rightarrow> mm_struct \<Rightarrow> mm_struct option" where
  "mmap_finish env p flags len mm = do {
     let pages = drop_bit PAGE_SHIFT len;
     let mm = vm_stat_account env flags pages mm;
     v \<leftarrow> vmas mm p;
     let unlock = has flags VM_LOCKED \<and> (has flags VM_SPECIAL \<or> vma_is_dax env v \<or> is_vm_hugetlb_page v
                    \<or> gate_vma env = Some p);
     let mm = (if has flags VM_LOCKED \<and> \<not> unlock then mm\<lparr>locked_vm := locked_vm mm + pages\<rparr> else mm);
     let v = (if unlock then v\<lparr>vm_flags := vm_flags v AND NOT VM_LOCKED_MASK\<rparr> else v);
     let v = v\<lparr>vm_flags := vm_flags v OR VM_SOFTDIRTY\<rparr>;
     Some (put_vma p (vma_set_page_prot env v) mm) }"

section \<open>A new area\<close>

text \<open>
  What calling the mapper leads to: a failure with the label to leave through, the area as it
  is then and whether the file counts as mapped writable; a neighbour that took the area; or
  the area ready to be linked, with the flags to account for.
\<close>

datatype map_exit = Close_and_free | Unmap_and_free | Free_vma

datatype map_outcome =
    Map_error int map_exit vm_area_struct bool
  | Map_merged vma_ptr u64 bool
  | Map_ready vm_area_struct u64 bool

definition map_file ::
  "mmap_env \<Rightarrow> nat \<Rightarrow> u64 \<Rightarrow> vm_area_struct \<Rightarrow> vma_ptr option \<Rightarrow> mm_struct \<Rightarrow> (map_outcome \<times> mm_struct) option" where
  "map_file env file flags v0 prev mm =
    (let mm = log_calls [GetFile file] mm;
         (error, v) = call_mmap env file (v0\<lparr>vm_file := Some file\<rparr>)
     in if error \<noteq> 0 then Some (Map_error error Unmap_and_free v False, mm)
        else
          let writable = vma_is_shared_maywrite v;
              error = (if writable then mapping_map_writable env file else 0)
          in if error \<noteq> 0 then Some (Map_error error Close_and_free v False, mm)
             else
               let mm = (if writable then log_calls [MappingMapWritable file] mm else mm)
               in if vm_start v0 \<noteq> vm_start v then Some (Map_error (- EINVAL) Close_and_free v writable, mm)
                  else if flags \<noteq> vm_flags v \<and> prev \<noteq> None
                  then do {
                    (merge, mm) \<leftarrow> vma_merge_new_vma env prev v (vm_start v) (vm_end v) (vm_pgoff v) mm;
                    case merge of None \<Rightarrow> Some (Map_ready v (vm_flags v) writable, mm)
                    | Some m \<Rightarrow> do {
                        f \<leftarrow> vm_file v;
                        mv \<leftarrow> vmas mm m;
                        Some (Map_merged m (vm_flags mv) writable, log_calls [Fput f] mm) } }
                  else Some (Map_ready v (vm_flags v) writable, mm))"

definition map_object ::
  "mmap_env \<Rightarrow> nat option \<Rightarrow> u64 \<Rightarrow> vm_area_struct \<Rightarrow> vma_ptr option \<Rightarrow> mm_struct
    \<Rightarrow> (map_outcome \<times> mm_struct) option" where
  "map_object env file flags v prev mm = (case file of
     Some f \<Rightarrow> map_file env f flags v prev mm
   | None \<Rightarrow>
       if has flags VM_SHARED
       then (let (error, v) = shmem_zero_setup env v
             in Some (if error \<noteq> 0 then Map_error error Free_vma v False else Map_ready v flags False, mm))
       else Some (Map_ready (v\<lparr>vm_ops := None\<rparr>) flags False, mm))"

definition map_check :: "mmap_env \<Rightarrow> vm_area_struct \<Rightarrow> mm_struct \<Rightarrow> int" where
  "map_check env v mm =
    (if map_deny_write_exec env v (vm_flags v) then - EACCES
     else if \<not> arch_validate_flags env (vm_flags v) then - EINVAL
     else if prealloc_fails env mm then - ENOMEM
     else 0)"

definition map_link :: "vma_ptr \<Rightarrow> vm_area_struct \<Rightarrow> mm_struct \<Rightarrow> mm_struct option" where
  "map_link p v mm = do {
     mm \<leftarrow> vma_iter_store p (put_vma p v mm);
     let mm = mm\<lparr>map_count := map_count mm + 1\<rparr>;
     Some (case vm_file v of None \<Rightarrow> mm | Some f \<Rightarrow> log_calls (vma_link_file_calls p v f) mm) }"

definition unmap_writable :: "nat option \<Rightarrow> bool \<Rightarrow> mm_struct \<Rightarrow> mm_struct" where
  "unmap_writable file writable mm = (case file of None \<Rightarrow> mm
     | Some f \<Rightarrow> if writable then log_calls [MappingUnmapWritable f] mm else mm)"

text \<open>The error labels from \<open>close_and_free_vma\<close> to \<open>unacct_error\<close>. A reference to no file is \<open>None\<close>.\<close>

definition unacct_error :: "u64 \<Rightarrow> mm_struct \<Rightarrow> mm_struct" where
  "unacct_error charged mm = (if charged \<noteq> 0 then log_calls [VmUnacctMemory charged] mm else mm)"

definition mmap_undo ::
  "mmap_env \<Rightarrow> map_exit \<Rightarrow> nat option \<Rightarrow> vma_ptr \<Rightarrow> vm_area_struct \<Rightarrow> bool \<Rightarrow> vma_ptr option \<Rightarrow> vma_ptr option \<Rightarrow> u64
    \<Rightarrow> mm_struct \<Rightarrow> mm_struct option" where
  "mmap_undo env label file p v writable prev next charged mm = do {
     let closes = (case vm_ops v of None \<Rightarrow> False | Some ops \<Rightarrow> ops_close env ops);
     let mm = (if label = Close_and_free \<and> file \<noteq> None \<and> closes then log_calls [VmOpsClose p] mm else mm);
     mm \<leftarrow> (if label = Unmap_and_free \<or> label = Close_and_free \<and> (file \<noteq> None \<or> vm_file v \<noteq> None)
            then do {
              f \<leftarrow> vm_file v;
              unmap_region prev next (vm_start v) (vm_end v) (log_calls [Fput f] mm) }
            else Some mm);
     Some (unacct_error charged (unmap_writable file writable mm)) }"

definition mmap_new ::
  "mmap_env \<Rightarrow> nat option \<Rightarrow> u64 \<Rightarrow> u64 \<Rightarrow> u64 \<Rightarrow> u64 \<Rightarrow> vma_ptr option \<Rightarrow> vma_ptr option \<Rightarrow> u64 \<Rightarrow> mm_struct
    \<Rightarrow> (u64 \<times> mm_struct) option" where
  "mmap_new env file addr len flags pgoff prev next charged mm = (case vm_area_alloc env mm of
     None \<Rightarrow> Some (err_value ENOMEM, unacct_error charged mm)
   | Some p \<Rightarrow> do {
       (outcome, mm) \<leftarrow> map_object env file flags (anon_area env addr (addr + len) flags pgoff) prev mm;
       case outcome of
         Map_error error label v writable \<Rightarrow> do {
           mm \<leftarrow> mmap_undo env label file p v writable prev next charged mm;
           Some (err_value (- error), mm) }
       | Map_merged m flags writable \<Rightarrow> do {
           mm \<leftarrow> mmap_finish env m flags len (unmap_writable file writable mm);
           Some (addr, mm) }
       | Map_ready v flags writable \<Rightarrow>
           let error = map_check env v mm
           in if error \<noteq> 0
              then do {
                mm \<leftarrow> mmap_undo env Close_and_free file p v writable prev next charged mm;
                Some (err_value (- error), mm) }
              else do {
                mm \<leftarrow> map_link p v mm;
                mm \<leftarrow> mmap_finish env p flags len (unmap_writable file writable mm);
                Some (addr, mm) } })"

section \<open>The whole function\<close>

text \<open>The address space limit; pages that the new mapping replaces do not count.\<close>

definition map_fits :: "mmap_env \<Rightarrow> u64 \<Rightarrow> u64 \<Rightarrow> u64 \<Rightarrow> mm_struct \<Rightarrow> bool option" where
  "map_fits env flags addr len mm =
    (if may_expand_vm env flags (drop_bit PAGE_SHIFT len) mm then Some True
     else do {
       nr_pages \<leftarrow> count_vma_pages_range mm addr (addr + len);
       Some (may_expand_vm env flags (drop_bit PAGE_SHIFT len - nr_pages) mm) })"

definition mmap_expand ::
  "mmap_env \<Rightarrow> growth option \<Rightarrow> vma_ptr option \<Rightarrow> mm_struct \<Rightarrow> (vma_ptr option \<times> mm_struct) option" where
  "mmap_expand env choice next mm = (case choice of
     None \<Rightarrow> Some (None, mm)
   | Some (p, start, end, pgoff) \<Rightarrow> do {
       (ret, mm) \<leftarrow> vma_expand env p start end pgoff next mm;
       Some (if ret = 0 then Some p else None, mm) })"

definition mmap_region ::
  "mmap_env \<Rightarrow> nat option \<Rightarrow> u64 \<Rightarrow> u64 \<Rightarrow> u64 \<Rightarrow> u64 \<Rightarrow> mm_struct \<Rightarrow> (u64 \<times> mm_struct) option" where
  "mmap_region env file addr len flags pgoff mm = do {
     fits \<leftarrow> map_fits env flags addr len mm;
     if \<not> fits then Some (err_value ENOMEM, mm)
     else do {
       (ret, mm) \<leftarrow> do_vmi_munmap env addr len True mm;
       if ret \<noteq> 0 then Some (err_value ENOMEM, mm)
       else
         let accountable = accountable_mapping env file flags;
             charged = (if accountable then drop_bit PAGE_SHIFT len else 0)
         in if accountable \<and> security_vm_enough_memory env mm charged \<noteq> 0
            then Some (err_value ENOMEM, mm)
            else
              let flags = (if accountable then flags OR VM_ACCOUNT else flags);
                  next = mt_find_from addr (mm_mt mm);
                  prev = mt_prev addr (mm_mt mm)
              in do {
                choice \<leftarrow> (if has flags VM_SPECIAL then Some None
                          else merge_choice env prev next flags file addr (addr + len) pgoff mm);
                (expanded, mm) \<leftarrow> mmap_expand env choice next mm;
                case expanded of
                  Some p \<Rightarrow> do { mm \<leftarrow> mmap_finish env p flags len mm; Some (addr, mm) }
                | None \<Rightarrow> mmap_new env file addr len flags pgoff prev next charged mm } } }"

end
