(* ===== verification/Mmap_Region_Spec.thy ===== *)
theory Mmap_Region_Spec
  imports Mmap_Region
begin

text \<open>
  What \<open>mmap_region\<close> does to the view of the address space: on success exactly the range has
  new attributes, on failure the range keeps its mappings or has lost them, and every other
  address is as before.
\<close>

section \<open>The end of a success\<close>

lemma kind_unlocked: "kind (v\<lparr>vm_flags := vm_flags v AND NOT VM_LOCKED_MASK\<rparr>) = kind v"
proof -
  have "kind_flags (x AND NOT VM_LOCKED_MASK) = kind_flags x" for x
    unfolding kind_flags_def by (rule bit_word_eqI) (auto simp: bit_and_iff bit_or_iff bit_not_iff)
  then show ?thesis
    by (simp add: kind_def)
qed

lemma page_prot_same [simp]: "kind (vma_set_page_prot env v) = kind v" "rng (vma_set_page_prot env v) = rng v"
  by (simp_all add: vma_set_page_prot_def Let_def kind_def rng_def)

lemma mmap_finish_adds:
  assumes ok: "mm_ok mm0" and free: "free_at a b mm0" and len: "len = b - a"
    and inv: "mm_inv mm" and oa: "only_areas mm0 mm" and v: "vmas mm p = Some v"
    and view: "\<And>x. mm_view mm x = (if a \<le> x \<and> x < b then Some K else mm_view mm0 x)"
  shows "\<exists>mm'. mmap_finish env p flags len mm = Some mm' \<and> adds K a b mm0 0 mm'"
proof -
  define w where "w = (if has flags VM_LOCKED \<and> (has flags VM_SPECIAL \<or> vma_is_dax env v \<or> is_vm_hugetlb_page v
      \<or> gate_vma env = Some p) then v\<lparr>vm_flags := vm_flags v AND NOT VM_LOCKED_MASK\<rparr> else v)"
  define v' where "v' = vma_set_page_prot env (w\<lparr>vm_flags := vm_flags w OR VM_SOFTDIRTY\<rparr>)"
  have same: "rng v' = rng v" "kind v' = kind v"
    unfolding v'_def w_def by (simp_all add: kind_unlocked)
  define mm1 where "mm1 = vm_stat_account env flags (drop_bit 12 len) mm"
  define mm2 where "mm2 = (if has flags VM_LOCKED \<and> \<not> (has flags VM_SPECIAL \<or> vma_is_dax env v \<or> is_vm_hugetlb_page v
      \<or> gate_vma env = Some p) then mm1\<lparr>locked_vm := locked_vm mm1 + drop_bit 12 len\<rparr> else mm1)"
  have f1: "mm_mt mm1 = mm_mt mm" "map_count mm1 = map_count mm" "vmas mm1 = vmas mm"
      "total_vm mm1 = total_vm mm + drop_bit 12 len" "only_counts mm mm1"
    unfolding mm1_def by (simp_all add: only_counts_def)
  have f2: "mm_mt mm2 = mm_mt mm" "map_count mm2 = map_count mm" "vmas mm2 = vmas mm"
      "total_vm mm2 = total_vm mm + drop_bit 12 len" "only_counts mm mm2"
    unfolding mm2_def using f1 by (simp_all add: only_counts_def)
  define mm' where "mm' = put_vma p v' mm2"
  have run: "mmap_finish env p flags len mm = Some mm'"
    unfolding mmap_finish_def mm'_def v'_def w_def mm2_def mm1_def [symmetric] Let_def using f1(3) v
    by (simp add: mm1_def [symmetric])
  have f3: "mm_mt mm' = mm_mt mm" "map_count mm' = map_count mm" "vmas mm' = (vmas mm)(p \<mapsto> v')"
      "total_vm mm' = total_vm mm + drop_bit 12 len" "only_counts mm mm'"
    unfolding mm'_def using f2 by (simp_all add: put_vma_def only_counts_def)
  note touched = retouched [OF inv v same f3(1-3)]
  have total: "total_vm mm' = total_vm mm0 + drop_bit PAGE_SHIFT (b - a)"
    using f3(4) only_areas_fields(1) [OF oa] len by simp
  have view': "mm_view mm' x = (if a \<le> x \<and> x < b then Some K else mm_view mm0 x)" for x
    using view touched(2) by simp
  have "mm_ok mm'"
    by (rule added_ok [OF ok touched(1) view' _ free_atD(1,2) [OF free] _ total])
      (use free_range [OF mm_ok_inv [OF ok]] free_atD(3,4) [OF free] in auto)
  then have "adds K a b mm0 0 mm'"
    using view' total only_counts_trans [OF only_areas_counts [OF oa] f3(5)] by (simp add: adds_def)
  with run show ?thesis by blast
qed

section \<open>Growing a neighbour\<close>

lemma retouched_view:
  assumes inv: "mm_inv mm" "mm_inv mm'" and v: "vmas mm p = Some v" and same: "rng v' = rng v" "kind v' = kind v"
    and mm': "vmas mm' = (vmas mm)(p \<mapsto> v')"
  shows "mm_view mm' = mm_view mm"
proof -
  have "area_has v' a y \<longleftrightarrow> area_has v a y" for a y
    using same by (simp add: area_has_def rng_def)
  then have "covers (vmas mm') a y \<longleftrightarrow> covers (vmas mm) a y" for a y
    unfolding mm' covers_update covers_remove [of "vmas mm" p v, OF v] by simp
  then show ?thesis
    using mm_view_eqI [OF inv] by blast
qed

text \<open>
  The promise of an attempt to grow: the area returned covers the range, with the attributes
  \<open>K\<close>; without one the areas are as they were, up to shared anonymous memory.
\<close>

definition grows :: "page_kind \<Rightarrow> u64 \<Rightarrow> u64 \<Rightarrow> mm_struct \<Rightarrow> vma_ptr option \<Rightarrow> mm_struct \<Rightarrow> bool" where
  "grows K a b mm res mm' \<longleftrightarrow> mm_inv mm' \<and> only_areas mm mm'
     \<and> (case res of
          Some p \<Rightarrow> vmas mm' p \<noteq> None \<and> (\<forall>x. mm_view mm' x = (if a \<le> x \<and> x < b then Some K else mm_view mm x))
        | None \<Rightarrow> mm_view mm' = mm_view mm \<and> (\<forall>q. map_option rng (vmas mm' q) = map_option rng (vmas mm q)))"

lemma grow_ok:
  assumes inv: "mm_inv mm" and free: "free_at a b mm" and v: "vmas mm p = Some v" "kind v = K"
    and room: "s \<le> vm_start v" "vm_end v \<le> e" "s \<le> a" "b \<le> e" and al: "offset_in_page s = 0" "offset_in_page e = 0"
    and off: "off - drop_bit 12 s = pk_base K"
    and nxt: "\<And>n. next = Some n \<Longrightarrow> vmas mm n \<noteq> None"
    and sw: "\<And>q w. swallowed p e next mm = Some q \<Longrightarrow> vmas mm q = Some w \<Longrightarrow> kind w = K \<and> s \<le> vm_start w \<and> vm_end w \<le> e"
    and out: "\<And>q w. swallowed p e next mm \<noteq> Some q \<Longrightarrow> q \<noteq> p \<Longrightarrow> vmas mm q = Some w \<Longrightarrow>
      vm_end w \<le> s \<or> e \<le> vm_start w"
    and cover: "\<And>x. s \<le> x \<Longrightarrow> x < e \<Longrightarrow> a \<le> x \<and> x < b
      \<or> (\<exists>q \<in> insert p (set_option (swallowed p e next mm)). \<exists>w. vmas mm q = Some w \<and> vm_start w \<le> x \<and> x < vm_end w)"
  shows "\<exists>res mm'. mmap_expand env (Some (p, s, e, off)) next mm = Some (res, mm') \<and> grows K a b mm res mm'"
proof -
  let ?D = "set_option (swallowed p e next mm)"
  obtain r mm' where run: "vma_expand env p s e off next mm = Some (r, mm')" "expands mm p v s e off ?D r mm'"
    using vma_expand_spec [OF inv v(1) room(1,2) al, of "next" env off] nxt sw out by blast
  then obtain v' where v': "mm_inv mm'" "only_areas mm mm'" "same_area v v'"
    "if r = 0 then vmas mm' = (vmas mm |` (- ?D))(p \<mapsto> v'\<lparr>vm_start := s, vm_end := e, vm_pgoff := off\<rparr>)
     else vmas mm' = (vmas mm)(p \<mapsto> v')"
    unfolding expands_def by blast
  have "grows K a b mm (if r = 0 then Some p else None) mm'"
  proof (cases "r = 0")
    case True
    let ?w = "v'\<lparr>vm_start := s, vm_end := e, vm_pgoff := off\<rparr>"
    have f: "vmas mm' = (vmas mm |` (- ?D))(p \<mapsto> ?w)" using v'(4) True by simp
    have kw: "kind ?w = K"
      using v(2) off same_area_kind [OF v'(3)] by (auto simp: kind_def)
    have "mm_view mm' x = (if a \<le> x \<and> x < b then Some K else mm_view mm x)" for x
    proof (rule expanded_view [OF inv v'(1) f kw])
      show "vm_start ?w \<le> a" "b \<le> vm_end ?w" using room by simp_all
      show "vm_start ?w \<le> vm_start w \<and> vm_end w \<le> vm_end ?w" if "q \<in> insert p ?D" "vmas mm q = Some w" for q w
        using that sw v(1) room by auto
      show "a \<le> y \<and> y < b \<or> (\<exists>q\<in>insert p ?D. \<exists>w. vmas mm q = Some w \<and> vm_start w \<le> y \<and> y < vm_end w)"
        if "vm_start ?w \<le> y" "y < vm_end ?w" for y
        using cover [of y] that by simp
      show "kind w = K \<or> a \<le> vm_start w \<and> vm_end w \<le> b" if "q \<in> insert p ?D" "vmas mm q = Some w" for q w
        using that sw v by auto
      show "vm_end w \<le> a \<or> b \<le> vm_start w" if "q \<notin> insert p ?D" "vmas mm q = Some w" for q w
        using free_atD(4) [OF free that(2)] .
    qed
    with True v' f show ?thesis by (simp add: grows_def)
  next
    case False
    have "mm_view mm' = mm_view mm"
      by (rule retouched_view [OF inv v'(1) v(1) same_area_rng [OF v'(3)] same_area_kind [OF v'(3)]])
        (use v'(4) False in simp)
    moreover have "map_option rng (vmas mm' q) = map_option rng (vmas mm q)" for q
      using v'(4) False v(1) same_area_rng [OF v'(3)] by simp
    ultimately show ?thesis
      using False v' by (simp add: grows_def)
  qed
  with run(1) show ?thesis by (auto simp: mmap_expand_def)
qed

text \<open>The areas before and after a free range.\<close>

lemma region_prev:
  assumes inv: "mm_inv mm" and p: "mt_prev a (mm_mt mm) = Some p"
  obtains v where "vmas mm p = Some v" "vm_end v \<le> a" "vm_start v < a"
proof -
  have "mt_ok (mm_mt mm)" "set (mm_mt mm) = entries (vmas mm)"
    using inv by (simp_all add: mm_inv_def)
  with mt_prev_SomeE [OF _ p] obtain v where "vmas mm p = Some v" "vm_end v \<le> a"
    by (metis entries_iff)
  with mm_inv_nonempty [OF inv this(1)] show thesis
    using that by fastforce
qed

lemma region_next:
  assumes inv: "mm_inv mm" and free: "free_at a b mm" and n: "mt_find_from a (mm_mt mm) = Some n"
  obtains v where "vmas mm n = Some v" "b \<le> vm_start v"
proof -
  have "mt_ok (mm_mt mm)" "set (mm_mt mm) = entries (vmas mm)"
    using inv by (simp_all add: mm_inv_def)
  with mt_find_from_SomeE [OF _ n] obtain v where "vmas mm n = Some v" "a < vm_end v"
    by (metis entries_iff)
  with free_atD(4) [OF free this(1)] show thesis
    using that by fastforce
qed

lemma grow_next:
  assumes inv: "mm_inv mm" and free: "free_at a b mm" and n: "vmas mm n = Some v" "vm_start v = b"
    and K: "K = request_kind a flags file pgoff None None"
    and can: "can_vma_merge_before env v flags None file (pgoff + drop_bit 12 (b - a)) None None"
  shows "\<exists>res mm'. mmap_expand env (Some (n, a, vm_end v, vm_pgoff v - drop_bit 12 (b - a))) (Some n) mm = Some (res, mm')
    \<and> grows K a b mm res mm'"
proof (rule grow_ok [OF inv free n(1)])
  note f = free_atD [OF free] and ne = mm_inv_nonempty [OF inv n(1)]
  have none: "swallowed n (vm_end v) (Some n) mm = None" by (simp add: swallowed_def)
  show "kind v = K"
    unfolding K by (rule merge_before_kind) (use can f(1,3) n(2) in auto)
  show "a \<le> vm_start v" "vm_end v \<le> vm_end v" "a \<le> a" "b \<le> vm_end v"
    using f(3) n(2) ne by simp_all
  show "offset_in_page a = 0" "offset_in_page (vm_end v) = 0"
    using f(1) mm_inv_aligned [OF inv n(1)] by simp_all
  show "vm_pgoff v - drop_bit 12 (b - a) - drop_bit 12 a = pk_base K"
    using can by (simp add: can_vma_merge_before_def K request_kind_def)
  show "\<And>m. Some n = Some m \<Longrightarrow> vmas mm m \<noteq> None" using n(1) by simp
  show "kind w = K \<and> a \<le> vm_start w \<and> vm_end w \<le> vm_end v"
    if "swallowed n (vm_end v) (Some n) mm = Some q" "vmas mm q = Some w" for q w
    using that none by simp
  show "vm_end w \<le> a \<or> vm_end v \<le> vm_start w" if "q \<noteq> n" "vmas mm q = Some w" for q w
    using f(4) [OF that(2)] mm_inv_disjoint [OF inv that(2) n(1) that(1)] mm_inv_nonempty [OF inv that(2)] n(2) by auto
  show "a \<le> x \<and> x < b \<or> (\<exists>q\<in>insert n (set_option (swallowed n (vm_end v) (Some n) mm)).
      \<exists>w. vmas mm q = Some w \<and> vm_start w \<le> x \<and> x < vm_end w)" if "a \<le> x" "x < vm_end v" for x
    using that n by (auto simp: not_less)
qed

lemma grow_prev:
  assumes inv: "mm_inv mm" and free: "free_at a b mm" and p: "vmas mm p = Some v" "vm_end v = a"
    and K: "kind v = K" and nxt: "\<And>n. next = Some n \<Longrightarrow> \<exists>w. vmas mm n = Some w \<and> b \<le> vm_start w"
  shows "\<exists>res mm'. mmap_expand env (Some (p, vm_start v, b, vm_pgoff v)) next mm = Some (res, mm')
    \<and> grows K a b mm res mm'"
proof (rule grow_ok [OF inv free p(1) K])
  note f = free_atD [OF free] and ne = mm_inv_nonempty [OF inv p(1)]
  have none: "swallowed p b next mm = None"
    using nxt mm_inv_nonempty [OF inv] by (fastforce simp: swallowed_def split: option.split)
  show "vm_start v \<le> vm_start v" "vm_end v \<le> b" "vm_start v \<le> a" "b \<le> b"
    using f(3) p(2) ne by simp_all
  show "offset_in_page (vm_start v) = 0" "offset_in_page b = 0"
    using f(2) mm_inv_aligned [OF inv p(1)] by simp_all
  show "vm_pgoff v - drop_bit 12 (vm_start v) = pk_base K"
    using K by (auto simp: kind_def)
  show "vmas mm n \<noteq> None" if "next = Some n" for n using nxt [OF that] by auto
  show "kind w = K \<and> vm_start v \<le> vm_start w \<and> vm_end w \<le> b"
    if "swallowed p b next mm = Some q" "vmas mm q = Some w" for q w
    using that none by simp
  show "vm_end w \<le> vm_start v \<or> b \<le> vm_start w" if "q \<noteq> p" "vmas mm q = Some w" for q w
    using f(4) [OF that(2)] mm_inv_disjoint [OF inv that(2) p(1) that(1)] mm_inv_nonempty [OF inv that(2)] p(2) by auto
  show "a \<le> x \<and> x < b \<or> (\<exists>q\<in>insert p (set_option (swallowed p b next mm)).
      \<exists>w. vmas mm q = Some w \<and> vm_start w \<le> x \<and> x < vm_end w)" if "vm_start v \<le> x" "x < b" for x
    using that p by (auto simp: not_less)
qed

lemma grow_both:
  assumes inv: "mm_inv mm" and free: "free_at a b mm" and p: "vmas mm p = Some v" "vm_end v = a" "kind v = K"
    and n: "vmas mm n = Some w" "vm_start w = b" "kind w = K"
  shows "\<exists>res mm'. mmap_expand env (Some (p, vm_start v, vm_end w, vm_pgoff v)) (Some n) mm = Some (res, mm')
    \<and> grows K a b mm res mm'"
proof (rule grow_ok [OF inv free p(1,3)])
  note f = free_atD [OF free] and nv = mm_inv_nonempty [OF inv p(1)] and nw = mm_inv_nonempty [OF inv n(1)]
  have "p \<noteq> n" using p n f(3) nv by auto
  then have sw: "swallowed p (vm_end w) (Some n) mm = Some n" using n(1) by (simp add: swallowed_def)
  show "vm_start v \<le> vm_start v" "vm_end v \<le> vm_end w" "vm_start v \<le> a" "b \<le> vm_end w"
    using f(3) p(2) n(2) nv nw by simp_all
  show "offset_in_page (vm_start v) = 0" "offset_in_page (vm_end w) = 0"
    using mm_inv_aligned [OF inv p(1)] mm_inv_aligned [OF inv n(1)] by simp_all
  show "vm_pgoff v - drop_bit 12 (vm_start v) = pk_base K"
    using p(3) by (auto simp: kind_def)
  show "\<And>m. Some n = Some m \<Longrightarrow> vmas mm m \<noteq> None" using n(1) by simp
  show "kind u = K \<and> vm_start v \<le> vm_start u \<and> vm_end u \<le> vm_end w"
    if "swallowed p (vm_end w) (Some n) mm = Some q" "vmas mm q = Some u" for q u
    using that sw n p(2) f(3) nv by auto
  show "vm_end u \<le> vm_start v \<or> vm_end w \<le> vm_start u"
    if "swallowed p (vm_end w) (Some n) mm \<noteq> Some q" "q \<noteq> p" "vmas mm q = Some u" for q u
  proof -
    have "q \<noteq> n" using that(1) sw by auto
    then show ?thesis
      using f(4) [OF that(3)] mm_inv_disjoint [OF inv that(3) p(1) that(2)] mm_inv_disjoint [OF inv that(3) n(1)]
        mm_inv_nonempty [OF inv that(3)] p(2) n(2) by auto
  qed
  show "a \<le> x \<and> x < b \<or> (\<exists>q\<in>insert p (set_option (swallowed p (vm_end w) (Some n) mm)).
      \<exists>u. vmas mm q = Some u \<and> vm_start u \<le> x \<and> x < vm_end u)" if "vm_start v \<le> x" "x < vm_end w" for x
    using that p n sw by (auto simp: not_less)
qed

lemma grows_none: "mm_inv mm \<Longrightarrow> \<exists>res mm'. mmap_expand env None next mm = Some (res, mm') \<and> grows K a b mm res mm'"
  by (simp add: mmap_expand_def grows_def)

lemma merge_next_choice_grows:
  assumes inv: "mm_inv mm" and free: "free_at a b mm" and n: "next = mt_find_from a (mm_mt mm)"
    and K: "K = request_kind a flags file pgoff None None"
  obtains choice where "merge_next_choice env next flags file a b pgoff mm = Some choice"
    "\<exists>res mm'. mmap_expand env choice next mm = Some (res, mm') \<and> grows K a b mm res mm'"
    "choice = None \<or> (\<exists>m w off. choice = Some (m, a, vm_end w, off) \<and> next = Some m \<and> vmas mm m = Some w
        \<and> vm_start w = b \<and> kind w = K)"
proof (cases "next")
  case None
  show thesis
    by (rule that [of None]) (use None grows_none [OF inv] in \<open>simp_all add: merge_next_choice_def Let_def\<close>)
next
  case (Some m)
  then obtain w where w: "vmas mm m = Some w" "b \<le> vm_start w"
    using region_next [OF inv free] n by metis
  let ?can = "vm_start w = b \<and> vm_policy w = None
    \<and> can_vma_merge_before env w flags None file (pgoff + drop_bit 12 (b - a)) None None"
  show thesis
  proof (cases ?can)
    case True
    have kw: "kind w = K"
      unfolding K by (rule merge_before_kind) (use True free_atD(1,3) [OF free] in auto)
    show thesis
    proof (rule that [of "Some (m, a, vm_end w, vm_pgoff w - drop_bit 12 (b - a))"])
      show "merge_next_choice env next flags file a b pgoff mm = Some (Some (m, a, vm_end w, vm_pgoff w - drop_bit 12 (b - a)))"
        using True Some w by (simp add: merge_next_choice_def Let_def)
      show "\<exists>res mm'. mmap_expand env (Some (m, a, vm_end w, vm_pgoff w - drop_bit 12 (b - a))) next mm = Some (res, mm')
          \<and> grows K a b mm res mm'"
        unfolding Some by (rule grow_next [OF inv free w(1) _ K]) (use True in auto)
    qed (use True Some w kw in auto)
  next
    case False
    show thesis
      by (rule that [of None]) (use False Some w grows_none [OF inv] in \<open>auto simp: merge_next_choice_def Let_def\<close>)
  qed
qed

lemma merge_choice_grows:
  assumes inv: "mm_inv mm" and free: "free_at a b mm" and n: "next = mt_find_from a (mm_mt mm)"
    and p: "prev = mt_prev a (mm_mt mm)" and K: "K = request_kind a flags file pgoff None None"
  shows "\<exists>choice. merge_choice env prev next flags file a b pgoff mm = Some choice
    \<and> (\<exists>res mm'. mmap_expand env choice next mm = Some (res, mm') \<and> grows K a b mm res mm')"
proof -
  obtain c where c: "merge_next_choice env next flags file a b pgoff mm = Some c"
    "\<exists>res mm'. mmap_expand env c next mm = Some (res, mm') \<and> grows K a b mm res mm'"
    "c = None \<or> (\<exists>m w off. c = Some (m, a, vm_end w, off) \<and> next = Some m \<and> vmas mm m = Some w
        \<and> vm_start w = b \<and> kind w = K)"
    by (rule merge_next_choice_grows [OF inv free n K])
  show ?thesis
  proof (cases prev)
    case None
    with c show ?thesis by (simp add: merge_choice_def)
  next
    case (Some q)
    then obtain v where v: "vmas mm q = Some v" "vm_end v \<le> a"
      using region_prev [OF inv] p by metis
    note al = mm_inv_aligned [OF inv v(1)] mm_inv_nonempty [OF inv v(1)]
    have kv: "kind v = K" if "vm_end v = a" "can_vma_merge_after env v flags anon file pgoff None None" for anon
      using merge_after_kind [OF that(2)] al that(1) K by simp
    have nxt: "\<exists>w. vmas mm m = Some w \<and> b \<le> vm_start w" if "next = Some m" for m
      using region_next [OF inv free] n that by metis
    from c(3) consider "c = None" | m w off where "c = Some (m, a, vm_end w, off)" "next = Some m" "vmas mm m = Some w"
      "vm_start w = b" "kind w = K" by blast
    then show ?thesis
    proof cases
      case 1
      show ?thesis
        using c Some v grow_prev [OF inv free v(1) _ kv nxt] 1 by (auto simp: merge_choice_def)
    next
      case 2
      have "vm_userfaultfd_ctx w = None" using 2(5) K by (auto simp: kind_def request_kind_def)
      then show ?thesis
        using c Some v grow_both [OF inv free v(1) _ kv 2(3-5)] 2 by (auto simp: merge_choice_def)
    qed
  qed
qed

section \<open>A new area\<close>

text \<open>
  The mappers as they are documented: they answer 0 or an error number, leave the end of the
  area alone, and an area that had a file still has one. Only the mapper of a file may move the
  start, which the code checks.
\<close>

definition status_law :: "int \<Rightarrow> bool" where
  "status_law e \<longleftrightarrow> - 4095 \<le> e \<and> e \<le> 0"

definition mapper_law :: "mmap_env \<Rightarrow> bool" where
  "mapper_law env \<longleftrightarrow>
     (\<forall>f v e v'. call_mmap env f v = (e, v') \<longrightarrow> status_law e \<and> vm_end v' = vm_end v \<and> (vm_file v \<noteq> None \<longrightarrow> vm_file v' \<noteq> None))
     \<and> (\<forall>v e v'. shmem_zero_setup env v = (e, v') \<longrightarrow> status_law e \<and> vm_start v' = vm_start v \<and> vm_end v' = vm_end v)
     \<and> (\<forall>f. status_law (mapping_map_writable env f))"

lemma same_areas_log [simp]: "same_areas mm (log_calls cs mm') = same_areas mm mm'"
  by (simp add: same_areas_def log_calls_def)

lemma status_error: "status_law e \<Longrightarrow> e \<noteq> 0 \<Longrightarrow> IS_ERR_VALUE (err_value (- e))"
  by (intro IS_ERR_VALUE_err_value) (auto simp: status_law_def)

text \<open>What calling the mapper promises.\<close>

definition outcome_ok :: "nat option \<Rightarrow> page_kind option \<Rightarrow> u64 \<Rightarrow> u64 \<Rightarrow> mm_struct \<Rightarrow> map_outcome \<Rightarrow> mm_struct \<Rightarrow> bool" where
  "outcome_ok file want a b mm out mm' \<longleftrightarrow> (case out of
     Map_error e label v w \<Rightarrow> same_areas mm mm' \<and> status_law e \<and> e \<noteq> 0 \<and> (label \<noteq> Free_vma \<longrightarrow> vm_file v \<noteq> None)
   | Map_merged m flags w \<Rightarrow> want = None \<and> (\<exists>K. merge_result K a b mm (Some m) mm')
   | Map_ready v flags w \<Rightarrow> same_areas mm mm' \<and> vm_start v = a \<and> vm_end v = b \<and> (file \<noteq> None \<longrightarrow> vm_file v \<noteq> None)
       \<and> (\<forall>K. want = Some K \<longrightarrow> kind v = K))"

lemma merge_result_log: "merge_result K a b mm res mm' \<Longrightarrow> merge_result K a b mm res (log_calls cs mm')"
  by (cases res) (simp_all add: merge_result_def, simp add: log_calls_def)

text \<open>The area before a free range, told by the ranges of the areas only.\<close>

definition prev_last :: "u64 \<Rightarrow> vma_ptr option \<Rightarrow> mm_struct \<Rightarrow> bool" where
  "prev_last a prev mm \<longleftrightarrow> (\<forall>p. prev = Some p \<longrightarrow> vmas mm p \<noteq> None) \<and> prev_end_of prev mm \<le> a
     \<and> (\<forall>q s e. map_option rng (vmas mm q) = Some (s, e) \<longrightarrow> e \<le> a \<longrightarrow> e \<le> prev_end_of prev mm)"

lemma prev_end_of_rng:
  assumes "\<And>q. map_option rng (vmas mm' q) = map_option rng (vmas mm q)"
  shows "prev_end_of prev mm' = prev_end_of prev mm"
proof (cases prev)
  case (Some p)
  with assms [of p] show ?thesis
    by (cases "vmas mm p"; cases "vmas mm' p") (auto simp: prev_end_of_def rng_def)
qed (simp add: prev_end_of_def)

lemma prev_last_rng:
  assumes eq: "\<And>q. map_option rng (vmas mm' q) = map_option rng (vmas mm q)" and p: "prev_last a prev mm"
  shows "prev_last a prev mm'"
proof -
  have "vmas mm' q = None \<longleftrightarrow> vmas mm q = None" for q
    using eq [of q] by (metis map_option_is_None)
  with p show ?thesis
    unfolding prev_last_def eq prev_end_of_rng [OF eq] by simp
qed

lemma region_prev_last:
  assumes inv: "mm_inv mm"
  shows "prev_last a (mt_prev a (mm_mt mm)) mm"
proof -
  have t: "mt_ok (mm_mt mm)" "set (mm_mt mm) = entries (vmas mm)"
    using inv by (simp_all add: mm_inv_def)
  have mem: "(vm_start w, vm_end w, q) \<in> set (mm_mt mm)" if "vmas mm q = Some w" for q w
    using that t(2) by (auto simp: entries_iff)
  show ?thesis
  proof (cases "mt_prev a (mm_mt mm)")
    case None
    then have "\<not> vm_end w \<le> a" if "vmas mm q = Some w" for q w
      using mem [OF that] by (fastforce simp: mt_prev_None)
    with None show ?thesis
      by (auto simp: prev_last_def prev_end_of_def rng_def)
  next
    case (Some p)
    from mt_prev_SomeE [OF t(1) Some] obtain s e where p: "(s, e, p) \<in> set (mm_mt mm)" "e \<le> a"
      and last: "\<And>y. y \<in> set (mm_mt mm) \<Longrightarrow> fst (snd y) \<le> a \<Longrightarrow> y = (s, e, p) \<or> fst (snd y) \<le> s"
      by blast
    then obtain v where v: "vmas mm p = Some v" "vm_start v = s" "vm_end v = e"
      using t(2) by (auto simp: entries_iff)
    have "vm_end w \<le> e" if "vmas mm q = Some w" "vm_end w \<le> a" for q w
      using last [OF mem [OF that(1)]] that(2) mm_inv_nonempty [OF inv v(1)] v by fastforce
    with Some v p(2) show ?thesis
      by (auto simp: prev_last_def prev_end_of_def rng_def)
  qed
qed

lemma free_merge_pre:
  assumes inv: "mm_inv mm" and free: "free_at a b mm" and p: "prev_last a prev mm" and b: "unat b < 2 ^ 63"
  shows "merge_pre prev a b pgoff mm"
  unfolding merge_pre_def
proof (intro conjI allI impI)
  note f = free_atD [OF free]
  show "a < b" "offset_in_page a = 0" "offset_in_page b = 0" "unat b < 2 ^ 63"
    using f b by simp_all
  fix q assume q: "prev = Some q"
  then obtain v where v: "vmas mm q = Some v" "vm_end v \<le> a"
    using p by (auto simp: prev_last_def prev_end_of_def)
  with mm_inv_nonempty [OF inv v(1)]
  show "\<exists>v. vmas mm q = Some v \<and> vm_start v < a
      \<and> (a < vm_end v \<longrightarrow> b \<le> vm_end v \<and> pgoff = vm_pgoff v + drop_bit PAGE_SHIFT (a - vm_start v))"
    by fastforce
next
  fix q w assume q: "vmas mm q = Some w" "prev_end_of prev mm < vm_end w" "vm_start w < b"
  with free_atD(4) [OF free q(1)] have "vm_end w \<le> a" by auto
  with p q have False
    by (fastforce simp: prev_last_def rng_def)
  then show "vm_start w = a" "b \<le> vm_end w" "vm_pgoff w = pgoff" by blast+
qed

lemma map_file_ok:
  assumes inv: "mm_inv mm" and free: "free_at a b mm" and p: "prev_last a prev mm" and b: "unat b < 2 ^ 63"
    and law: "mapper_law env" and v0: "vm_start v0 = a" "vm_end v0 = b"
  shows "\<exists>out mm'. map_file env f flags v0 prev mm = Some (out, mm') \<and> outcome_ok (Some f) None a b mm out mm'"
proof -
  obtain e v where call: "call_mmap env f (v0\<lparr>vm_file := Some f\<rparr>) = (e, v)" by fastforce
  have e: "status_law e" "vm_end v = b" "vm_file v \<noteq> None"
    using law call v0 unfolding mapper_law_def by fastforce+
  define mm1 where "mm1 = log_calls [GetFile f] mm"
  define w where "w = vma_is_shared_maywrite v"
  define e1 where "e1 = (if w then mapping_map_writable env f else 0)"
  define mm2 where "mm2 = (if w then log_calls [MappingMapWritable f] mm1 else mm1)"
  have e1: "status_law e1"
    unfolding e1_def using law by (auto simp: mapper_law_def status_law_def)
  have s: "same_areas mm mm1" "same_areas mm mm2"
    unfolding mm2_def mm1_def by simp_all
  let ?merged = "do {
      (merge, mm) \<leftarrow> vma_merge_new_vma env prev v (vm_start v) (vm_end v) (vm_pgoff v) mm2;
      case merge of None \<Rightarrow> Some (Map_ready v (vm_flags v) w, mm)
      | Some m \<Rightarrow> do { f \<leftarrow> vm_file v; mv \<leftarrow> vmas mm m;
          Some (Map_merged m (vm_flags mv) w, log_calls [Fput f] mm) } }"
  have run: "map_file env f flags v0 prev mm = (if e \<noteq> 0 then Some (Map_error e Unmap_and_free v False, mm1)
      else if e1 \<noteq> 0 then Some (Map_error e1 Close_and_free v False, mm1)
      else if vm_start v0 \<noteq> vm_start v then Some (Map_error (- EINVAL) Close_and_free v w, mm2)
      else if flags \<noteq> vm_flags v \<and> prev \<noteq> None then ?merged
      else Some (Map_ready v (vm_flags v) w, mm2))"
    unfolding map_file_def Let_def call mm1_def w_def e1_def mm2_def by simp
  have merged: "\<exists>out mm'. ?merged = Some (out, mm') \<and> outcome_ok (Some f) None a b mm out mm'" if "vm_start v = a"
  proof -
    note inv2 = same_areas_inv [OF s(2) inv]
    have pre: "merge_pre prev a b (vm_pgoff v) mm2"
      by (rule free_merge_pre [OF inv2 _ prev_last_rng [OF same_areas_rng [OF s(2)] p] b])
        (use free in \<open>auto simp: mm2_def mm1_def free_at_def log_calls_def\<close>)
    obtain res mm3 where m: "vma_merge_new_vma env prev v a b (vm_pgoff v) mm2 = Some (res, mm3)"
        "merge_result (request_kind a (vm_flags v) (vm_file v) (vm_pgoff v) (vm_userfaultfd_ctx v) (anon_name v)) a b mm2 res mm3"
      using vma_merge_spec [OF inv2 pre] unfolding vma_merge_new_vma_def by blast
    show ?thesis
    proof (cases res)
      case None
      then have "same_areas mm mm3"
        using m(2) same_areas_trans [OF s(2)] by (simp add: merge_result_def)
      with None m e that show ?thesis by (simp add: outcome_ok_def)
    next
      case (Some r)
      then obtain mv where mv: "vmas mm3 r = Some mv" using m(2) by (auto simp: merge_result_def)
      have "merge_result (request_kind a (vm_flags v) (vm_file v) (vm_pgoff v) (vm_userfaultfd_ctx v) (anon_name v)) a b mm
          (Some r) (log_calls cs mm3)" for cs
        using merge_result_log merge_result_same [OF s(2) inv] m(2) Some by blast
      with Some m mv e that show ?thesis by (auto simp: outcome_ok_def) blast
    qed
  qed
  show ?thesis
    unfolding run using e e1 s v0 merged by (auto simp: outcome_ok_def status_law_def)
qed

text \<open>Private anonymous memory has the attributes asked for; a mapper may choose others.\<close>

definition wanted :: "nat option \<Rightarrow> u64 \<Rightarrow> u64 \<Rightarrow> u64 \<Rightarrow> page_kind option" where
  "wanted file flags a pgoff = (if file = None \<and> \<not> has flags VM_SHARED
     then Some (request_kind a flags None pgoff None None) else None)"

lemma map_object_ok:
  assumes inv: "mm_inv mm" and free: "free_at a b mm" and p: "prev_last a prev mm" and b: "unat b < 2 ^ 63"
    and law: "mapper_law env"
  shows "\<exists>out mm'. map_object env file flags (anon_area env a b flags pgoff) prev mm = Some (out, mm')
    \<and> outcome_ok file (wanted file flags a pgoff) a b mm out mm'"
proof (cases "file")
  case (Some f)
  then show ?thesis
    using map_file_ok [OF inv free p b law, of "anon_area env a b flags pgoff" f flags]
    by (simp add: map_object_def wanted_def anon_area_def)
next
  case None
  let ?v = "anon_area env a b flags pgoff"
  show ?thesis
  proof (cases "has flags VM_SHARED")
    case True
    obtain e v where s: "shmem_zero_setup env ?v = (e, v)" by fastforce
    then have "status_law e \<and> vm_start v = a \<and> vm_end v = b"
      using law unfolding mapper_law_def by (fastforce simp: anon_area_def)
    with None True s show ?thesis
      by (simp add: map_object_def outcome_ok_def wanted_def)
  next
    case False
    have "kind (?v\<lparr>vm_ops := None\<rparr>) = request_kind a flags None pgoff None None"
      by (simp add: anon_area_def kind_def request_kind_def)
    with None False show ?thesis
      by (simp add: map_object_def outcome_ok_def wanted_def anon_area_def)
  qed
qed

lemma logs_nothing: "\<exists>cs. mm = log_calls cs mm"
  by (rule exI [of _ "[]"]) simp

lemma unmap_writable_log: "\<exists>cs. unmap_writable file w mm = log_calls cs mm"
  unfolding unmap_writable_def using logs_nothing by (cases "file"; cases w) auto

lemma unacct_error_log: "\<exists>cs. unacct_error c mm = log_calls cs mm"
  unfolding unacct_error_def using logs_nothing by auto

lemma mmap_undo_log:
  assumes "\<And>q. prev = Some q \<Longrightarrow> vmas mm q \<noteq> None" and "\<And>q. next = Some q \<Longrightarrow> vmas mm q \<noteq> None"
    and v: "label = Unmap_and_free \<or> label = Close_and_free \<and> file \<noteq> None \<Longrightarrow> vm_file v \<noteq> None"
  shows "\<exists>cs. mmap_undo env label file p v w prev next charged mm = Some (log_calls cs mm)"
proof -
  let ?c = "case vm_ops v of None \<Rightarrow> False | Some ops \<Rightarrow> ops_close env ops"
  define mm1 where "mm1 = (if label = Close_and_free \<and> file \<noteq> None \<and> ?c then log_calls [VmOpsClose p] mm else mm)"
  have l1: "\<exists>cs. mm1 = log_calls cs mm"
    unfolding mm1_def using logs_nothing by auto
  define r where "r = (if label = Unmap_and_free \<or> label = Close_and_free \<and> (file \<noteq> None \<or> vm_file v \<noteq> None)
      then do { f \<leftarrow> vm_file v; unmap_region prev next (vm_start v) (vm_end v) (log_calls [Fput f] mm1) } else Some mm1)"
  have "\<exists>cs. unmap_region prev next (vm_start v) (vm_end v) (log_calls [Fput f] mm1) = Some (log_calls cs (log_calls [Fput f] mm1))" for f
    by (rule unmap_region_Some) (use assms(1,2) l1 in \<open>auto simp: log_calls_def dom_def\<close>)
  then have "\<exists>cs. r = Some (log_calls cs mm1)"
    unfolding r_def using v logs_nothing by (cases "vm_file v"; cases "file") auto
  then obtain cs where r: "r = Some (log_calls cs mm)" using l1 by auto
  have run: "mmap_undo env label file p v w prev next charged mm
      = do { mm \<leftarrow> r; Some (unacct_error charged (unmap_writable file w mm)) }"
    unfolding mmap_undo_def Let_def mm1_def [symmetric] r_def [symmetric] ..
  obtain cs1 where u: "unmap_writable file w (log_calls cs mm) = log_calls cs1 (log_calls cs mm)"
    using unmap_writable_log by blast
  obtain cs2 where "unacct_error charged (log_calls cs1 (log_calls cs mm)) = log_calls cs2 (log_calls cs1 (log_calls cs mm))"
    using unacct_error_log by blast
  with run r u show ?thesis by auto
qed

text \<open>
  The promise of mapping a range that is free: an error and nothing mapped, or the range
  mapped, with the attributes wanted if they are fixed.
\<close>

definition fills :: "page_kind option \<Rightarrow> u64 \<Rightarrow> u64 \<Rightarrow> mm_struct \<Rightarrow> u64 \<Rightarrow> mm_struct \<Rightarrow> bool" where
  "fills want a b mm ret mm' \<longleftrightarrow> (if IS_ERR_VALUE ret then mm_ok mm' \<and> only_counts mm mm' \<and> mm_view mm' = mm_view mm
     else ret = a \<and> (\<exists>K. (\<forall>k. want = Some k \<longrightarrow> K = k) \<and> adds K a b mm 0 mm'))"

lemma same_areas_fills_error:
  assumes "mm_ok mm" and "same_areas mm mm'" and "IS_ERR_VALUE ret"
  shows "fills want a b mm ret mm'"
proof -
  note inv = mm_ok_inv [OF assms(1)] and oa = assms(2) [unfolded same_areas_def]
  have "mm_ok mm'"
    by (rule mm_ok_same_view [OF assms(1) same_areas_inv [OF assms(2) inv] same_areas_view [OF assms(2) inv]])
      (use oa only_areas_fields(1) in blast)
  then show ?thesis
    using assms same_areas_view [OF assms(2) inv] oa only_areas_counts by (simp add: fills_def)
qed

lemma adds_same:
  assumes "mm_ok mm" and "same_areas mm mm1" and "adds K a b mm1 0 mm'"
  shows "adds K a b mm 0 mm'"
proof -
  have oa: "only_areas mm mm1" using assms(2) by (simp add: same_areas_def)
  show ?thesis
    using assms(3) same_areas_view [OF assms(2) mm_ok_inv [OF assms(1)]] only_areas_fields(1) [OF oa]
      only_counts_trans [OF only_areas_counts [OF oa]] by (simp add: adds_def)
qed

lemma map_link_adds:
  assumes ok: "mm_ok mm" and free: "free_at a b mm" and new: "vmas mm p = None" and v: "vm_start v = a" "vm_end v = b"
  shows "\<exists>mm1 mm'. map_link p v mm = Some mm1 \<and> mmap_finish env p flags (b - a) (log_calls cs mm1) = Some mm'
    \<and> adds (kind v) a b mm 0 mm'"
proof -
  note inv = mm_ok_inv [OF ok] and f = free_atD [OF free]
  obtain mm1 where run: "map_link p v mm = Some mm1" and m: "mm_mt mm1 = mt_store a b p (mm_mt mm)"
      "vmas mm1 = (vmas mm)(p \<mapsto> v)" "map_count mm1 = map_count mm + 1" "only_areas mm mm1"
    using v by (cases "vm_file v") (auto simp: map_link_def mm_state)
  have inv1: "mm_inv mm1"
    by (rule mm_inv_inserted [OF inv new _ f(3,1,2,4) m(1-3)]) (simp add: rng_def v)
  have view: "mm_view mm1 x = (if a \<le> x \<and> x < b then Some (kind v) else mm_view mm x)" for x
    using inserted_view [OF inv inv1 m(2) new] f(4) v by simp
  let ?mm = "log_calls cs mm1"
  have "mm_inv ?mm" "only_areas mm ?mm" "vmas ?mm p = Some v"
    using inv1 m(2,4) by (simp_all, simp_all add: log_calls_def)
  from mmap_finish_adds [OF ok free refl this(1,2,3), of "kind v" env flags] view
  have "\<exists>mm'. mmap_finish env p flags (b - a) ?mm = Some mm' \<and> adds (kind v) a b mm 0 mm'" by simp
  with run show ?thesis by blast
qed

lemma map_merged_adds:
  assumes ok: "mm_ok mm" and free: "free_at a b mm" and m: "merge_result K a b mm (Some m) mm1"
  shows "\<exists>mm'. mmap_finish env m flags (b - a) (log_calls cs mm1) = Some mm' \<and> adds K a b mm 0 mm'"
proof -
  obtain v where v: "vmas (log_calls cs mm1) m = Some v"
    using m by (auto simp: merge_result_def log_calls_def)
  have "only_areas mm (log_calls cs mm1)"
    using m by (simp add: merge_result_def log_calls_def)
  then show ?thesis
    using mmap_finish_adds [OF ok free refl _ _ v, of K env flags] m by (simp add: merge_result_def)
qed

lemma free_at_rng:
  assumes eq: "\<And>q. map_option rng (vmas mm' q) = map_option rng (vmas mm q)" and free: "free_at a b mm"
  shows "free_at a b mm'"
  unfolding free_at_def
proof (intro conjI allI impI)
  fix q w assume w: "vmas mm' q = Some w"
  with eq [of q] obtain u where "vmas mm q = Some u" "rng u = rng w" by (metis map_option_eq_Some option.map(2))
  then show "vm_end w \<le> a \<or> b \<le> vm_start w"
    using free_atD(4) [OF free] by (fastforce simp: rng_def)
qed (use free_atD [OF free] in auto)

lemma map_check_status: "status_law (map_check env v mm)"
  by (simp add: map_check_def status_law_def)

lemma not_error: "unat b < 2 ^ 63 \<Longrightarrow> a \<le> b \<Longrightarrow> \<not> IS_ERR_VALUE a"
  by (simp add: IS_ERR_VALUE_unat word_le_nat_alt)

lemma mmap_new_fills:
  assumes ok: "mm_ok mm" and free: "free_at a b mm" and p: "prev_last a prev mm" and b: "unat b < 2 ^ 63"
    and law: "mapper_law env" and fresh: "alloc_fresh env" and n: "\<And>q. next = Some q \<Longrightarrow> vmas mm q \<noteq> None"
  shows "\<exists>ret mm'. mmap_new env file a (b - a) flags pgoff prev next charged mm = Some (ret, mm')
    \<and> fills (wanted file flags a pgoff) a b mm ret mm'"
proof (cases "vm_area_alloc env mm")
  case None
  obtain cs where "unacct_error charged mm = log_calls cs mm" using unacct_error_log by blast
  with None show ?thesis
    using same_areas_fills_error [OF ok] by (simp add: mmap_new_def)
next
  case (Some q)
  note inv = mm_ok_inv [OF ok] and f = free_atD [OF free]
  have new: "vmas mm q = None" using fresh Some by (simp add: alloc_fresh_def)
  have na: "\<not> IS_ERR_VALUE a" using not_error [OF b] f(3) by simp
  have prev: "\<And>q. prev = Some q \<Longrightarrow> vmas mm q \<noteq> None" using p by (simp add: prev_last_def)
  obtain out mm1 where o: "map_object env file flags (anon_area env a b flags pgoff) prev mm = Some (out, mm1)"
      "outcome_ok file (wanted file flags a pgoff) a b mm out mm1"
    using map_object_ok [OF inv free p b law] by blast
  have undo: "\<exists>cs. mmap_undo env label file q v w prev next charged mm1 = Some (log_calls cs mm1)"
    if "same_areas mm mm1" "label = Unmap_and_free \<or> label = Close_and_free \<and> file \<noteq> None \<Longrightarrow> vm_file v \<noteq> None" for label v w
    by (rule mmap_undo_log) (use prev n that same_areas_None [OF that(1)] in auto)
  show ?thesis
  proof (cases out)
    case (Map_error e label v w)
    then have e: "same_areas mm mm1" "status_law e" "e \<noteq> 0" "label \<noteq> Free_vma \<Longrightarrow> vm_file v \<noteq> None"
      using o(2) by (simp_all add: outcome_ok_def)
    obtain cs where "mmap_undo env label file q v w prev next charged mm1 = Some (log_calls cs mm1)"
      using undo [OF e(1)] e(4) by blast
    with Map_error Some o(1) show ?thesis
      using same_areas_fills_error [OF ok, of "log_calls cs mm1"] e(1) status_error [OF e(2,3)] by (simp add: mmap_new_def)
  next
    case (Map_merged m fl w)
    then obtain K where K: "merge_result K a b mm (Some m) mm1" "wanted file flags a pgoff = None"
      using o(2) by (auto simp: outcome_ok_def)
    obtain cs where cs: "unmap_writable file w mm1 = log_calls cs mm1" using unmap_writable_log by blast
    obtain mm' where "mmap_finish env m fl (b - a) (log_calls cs mm1) = Some mm'" "adds K a b mm 0 mm'"
      using map_merged_adds [OF ok free K(1)] by blast
    with Map_merged Some o(1) cs K(2) na show ?thesis by (auto simp: mmap_new_def fills_def)
  next
    case (Map_ready v fl w)
    then have v: "same_areas mm mm1" "vm_start v = a" "vm_end v = b" "file \<noteq> None \<Longrightarrow> vm_file v \<noteq> None"
        "\<And>K. wanted file flags a pgoff = Some K \<Longrightarrow> kind v = K"
      using o(2) by (simp_all add: outcome_ok_def)
    show ?thesis
    proof (cases "map_check env v mm1 = 0")
      case False
      obtain cs where "mmap_undo env Close_and_free file q v w prev next charged mm1 = Some (log_calls cs mm1)"
        using undo [OF v(1), of Close_and_free v w] v(4) by blast
      with False Map_ready Some o(1) show ?thesis
        using same_areas_fills_error [OF ok, of "log_calls cs mm1"] v(1) status_error [OF map_check_status False]
        by (simp add: mmap_new_def Let_def)
    next
      case True
      have ok1: "mm_ok mm1"
        by (rule mm_ok_same_view [OF ok same_areas_inv [OF v(1) inv] same_areas_view [OF v(1) inv]])
          (use v(1) only_areas_fields(1) in \<open>auto simp: same_areas_def\<close>)
      obtain mm2 mm' where l: "map_link q v mm1 = Some mm2" "adds (kind v) a b mm1 0 mm'"
        "mmap_finish env q fl (b - a) (unmap_writable file w mm2) = Some mm'"
      proof -
        obtain mm2 where "map_link q v mm1 = Some mm2" by (auto simp: map_link_def mm_state Let_def)
        moreover obtain cs where "unmap_writable file w mm2 = log_calls cs mm2" using unmap_writable_log by blast
        ultimately show thesis
          using map_link_adds [OF ok1 free_at_rng [OF same_areas_rng [OF v(1)] free] _ v(2,3), of q env fl cs]
            same_areas_None [OF v(1)] new that by auto
      qed
      with True Map_ready Some o(1) adds_same [OF ok v(1) l(2)] v(5) na show ?thesis
        by (auto simp: mmap_new_def Let_def fills_def)
    qed
  qed
qed

section \<open>The whole function\<close>

lemma count_pages_Some:
  assumes inv: "mm_inv mm"
  shows "\<exists>n. count_vma_pages_range mm a b = Some n"
proof -
  have step: "\<exists>n. fold (\<lambda>p acc. do { k \<leftarrow> acc; v \<leftarrow> vmas mm p; let s = max a (vm_start v); e = min b (vm_end v)
      in Some (k + drop_bit PAGE_SHIFT (e - s)) }) ps (Some m) = Some n" if "\<forall>p \<in> set ps. vmas mm p \<noteq> None" for ps m
    using that by (induction ps arbitrary: m) auto
  have "vmas mm p \<noteq> None" if "p \<in> set (mt_range a b (mm_mt mm))" for p
    using that inv by (auto simp: mt_range_def mm_inv_def entries_def)
  then show ?thesis
    unfolding count_vma_pages_range_def using step by blast
qed

lemma map_fits_Some: "mm_inv mm \<Longrightarrow> \<exists>r. map_fits env flags a len mm = Some r"
  using count_pages_Some [of mm a "a + len"] by (auto simp: map_fits_def)

text \<open>
  The contract of \<open>mmap_region\<close>: on success the range is mapped, on failure it is as before or
  has lost its mappings; no other address changes.
\<close>

definition region_flags :: "mmap_env \<Rightarrow> nat option \<Rightarrow> u64 \<Rightarrow> u64" where
  "region_flags env file flags = (if accountable_mapping env file flags then flags OR VM_ACCOUNT else flags)"

definition maps_region :: "page_kind option \<Rightarrow> u64 \<Rightarrow> u64 \<Rightarrow> mm_struct \<Rightarrow> u64 \<Rightarrow> mm_struct \<Rightarrow> bool" where
  "maps_region want a b mm ret mm' \<longleftrightarrow> mm_ok mm' \<and> only_counts mm mm'
     \<and> (if IS_ERR_VALUE ret
        then \<exists>lost. \<forall>x. mm_view mm' x = (if lost \<and> a \<le> x \<and> x < b then None else mm_view mm x)
        else ret = a \<and> (\<exists>K. (\<forall>k. want = Some k \<longrightarrow> K = k)
               \<and> (\<forall>x. mm_view mm' x = (if a \<le> x \<and> x < b then Some K else mm_view mm x))))"

lemma maps_region_error: "mm_ok mm \<Longrightarrow> IS_ERR_VALUE ret \<Longrightarrow> maps_region want a b mm ret mm"
  by (auto simp: maps_region_def)

lemma unmaps_fills:
  assumes u: "unmaps a b mm 0 mm1" and f: "fills want a b mm1 ret mm'"
  shows "maps_region want a b mm ret mm'"
proof (cases "IS_ERR_VALUE ret")
  case True
  then have "\<forall>x. mm_view mm' x = (if True \<and> a \<le> x \<and> x < b then None else mm_view mm x)"
    using u f by (simp add: unmaps_def fills_def)
  with True u f show ?thesis
    unfolding maps_region_def fills_def unmaps_def using only_counts_trans by auto
next
  case False
  with u f show ?thesis
    unfolding maps_region_def fills_def unmaps_def adds_def using only_counts_trans by auto
qed

lemma unmaps_free:
  assumes u: "unmaps a b mm 0 mm'" and al: "offset_in_page a = 0" "offset_in_page b = 0" "a < b"
  shows "free_at a b mm'"
  unfolding free_at_def
proof (intro conjI allI impI)
  have ok: "mm_ok mm'" and none: "\<And>x. a \<le> x \<Longrightarrow> x < b \<Longrightarrow> mm_view mm' x = None"
    using u by (simp_all add: unmaps_def)
  note inv = mm_ok_inv [OF ok]
  fix q w assume w: "vmas mm' q = Some w"
  have "\<not> (a \<le> x \<and> x < b)" if "vm_start w \<le> x" "x < vm_end w" for x
    using none [of x] w that unfolding mm_view_None [OF inv] covers_def area_has_def by blast
  from this [of a] this [of "vm_start w"] show "vm_end w \<le> a \<or> b \<le> vm_start w"
    using al(3) mm_inv_nonempty [OF inv w] by fastforce
qed (use al in auto)

lemma region_from_free:
  assumes ok: "mm_ok mm" and free: "free_at a b mm" and b: "unat b < 2 ^ 63" and law: "mapper_law env"
    and fresh: "alloc_fresh env"
    and n: "next = mt_find_from a (mm_mt mm)" and p: "prev = mt_prev a (mm_mt mm)"
  shows "\<exists>ret mm'. do {
      choice \<leftarrow> (if has flags VM_SPECIAL then Some None else merge_choice env prev next flags file a b pgoff mm);
      (expanded, mm) \<leftarrow> mmap_expand env choice next mm;
      case expanded of
        Some p \<Rightarrow> do { mm \<leftarrow> mmap_finish env p flags (b - a) mm; Some (a, mm) }
      | None \<Rightarrow> mmap_new env file a (b - a) flags pgoff prev next charged mm } = Some (ret, mm')
    \<and> fills (wanted file flags a pgoff) a b mm ret mm'"
proof -
  note inv = mm_ok_inv [OF ok] and f = free_atD [OF free]
  define K where "K = request_kind a flags file pgoff None None"
  obtain choice res mm1 where c: "(if has flags VM_SPECIAL then Some None
        else merge_choice env prev next flags file a b pgoff mm) = Some choice"
      "mmap_expand env choice next mm = Some (res, mm1)" "grows K a b mm res mm1"
    using merge_choice_grows [OF inv free n p K_def, of env] grows_none [OF inv, of env "next" K a b]
    by (cases "has flags VM_SPECIAL") auto
  have g: "mm_inv mm1" "only_areas mm mm1" using c(3) by (simp_all add: grows_def)
  show ?thesis
  proof (cases res)
    case (Some q)
    then obtain v where v: "vmas mm1 q = Some v"
      and view: "\<And>x. mm_view mm1 x = (if a \<le> x \<and> x < b then Some K else mm_view mm x)"
      using c(3) by (auto simp: grows_def)
    obtain mm' where "mmap_finish env q flags (b - a) mm1 = Some mm'" "adds K a b mm 0 mm'"
      using mmap_finish_adds [OF ok free refl g v view] by blast
    moreover have "wanted file flags a pgoff = Some k \<longrightarrow> K = k" for k
      by (simp add: wanted_def K_def)
    ultimately show ?thesis
      using c(1,2) Some not_error [OF b, of a] f(3) by (auto simp: fills_def)
  next
    case None
    then have view: "mm_view mm1 = mm_view mm" and eq: "\<And>q. map_option rng (vmas mm1 q) = map_option rng (vmas mm q)"
      using c(3) by (simp_all add: grows_def)
    have ok1: "mm_ok mm1"
      by (rule mm_ok_same_view [OF ok g(1) view only_areas_fields(1) [OF g(2)]])
    have nx: "vmas mm1 q \<noteq> None" if "next = Some q" for q
      using region_next [OF inv free] n that eq [of q] by (metis map_option_is_None option.distinct(1))
    obtain ret mm' where m: "mmap_new env file a (b - a) flags pgoff prev next charged mm1 = Some (ret, mm')"
        "fills (wanted file flags a pgoff) a b mm1 ret mm'"
      using mmap_new_fills [OF ok1 free_at_rng [OF eq free] prev_last_rng [OF eq region_prev_last [OF inv]] b law fresh, of "next"]
        nx p by metis
    have oc: "only_counts mm mm'" if "only_counts mm1 mm'"
      using only_counts_trans [OF only_areas_counts [OF g(2)] that] .
    have "adds K' a b mm 0 mm'" if "adds K' a b mm1 0 mm'" for K'
      using that view only_areas_fields(1) [OF g(2)] oc by (simp add: adds_def)
    with m(2) view oc have "fills (wanted file flags a pgoff) a b mm ret mm'"
      unfolding fills_def by (cases "IS_ERR_VALUE ret") auto
    with c(1,2) None m(1) show ?thesis by auto
  qed
qed

lemma aligned_add:
  assumes "offset_in_page a = 0" and "offset_in_page b = 0" and "a \<le> a + b"
  shows "offset_in_page (a + b) = 0"
  using assms unat_plus_simple [of a b] by (simp add: page_aligned_iff mod_add_eq [symmetric])

lemma mmap_region_spec:
  assumes ok: "mm_ok mm" and fresh: "alloc_fresh env" and law: "mapper_law env"
    and T: "offset_in_page (task_size env) = 0" "unat (task_size env) < 2 ^ 63"
    and al: "offset_in_page a = 0" "offset_in_page len = 0" "len \<noteq> 0" and top: "len \<le> task_size env" "a \<le> task_size env - len"
  shows "\<exists>ret mm'. mmap_region env file a len flags pgoff mm = Some (ret, mm')
    \<and> maps_region (wanted file (region_flags env file flags) a pgoff) a (a + len) mm ret mm'"
proof -
  let ?b = "a + len" and ?want = "wanted file (region_flags env file flags) a pgoff"
  have wrap: "a \<le> ?b" "?b \<le> task_size env" using range_no_wrap [OF top] by simp_all
  have lt: "a < ?b" using wrap(1) al(3) by (simp add: order_less_le)
  have b: "unat ?b < 2 ^ 63" using wrap(2) T(2) by (simp add: word_le_nat_alt)
  have alb: "offset_in_page ?b = 0" by (rule aligned_add [OF al(1,2) wrap(1)])
  obtain fits where fits: "map_fits env flags a len mm = Some fits"
    using map_fits_Some [OF mm_ok_inv [OF ok]] by blast
  have none: "maps_region ?want a ?b mm (err_value ENOMEM) mm"
    by (rule maps_region_error [OF ok]) simp
  obtain r mm1 where m: "do_vmi_munmap env a len True mm = Some (r, mm1)" "unmaps a ?b mm r mm1"
    using do_vmi_munmap_spec [OF ok fresh T(1), of a len True] PAGE_ALIGN_id [OF al(2)] by auto
  have lost: "maps_region ?want a ?b mm (err_value ENOMEM) mm1"
    using m(2) unfolding unmaps_def maps_region_def by (auto intro: exI [of _ "r = 0"])
  show ?thesis
  proof (cases "fits \<and> r = 0")
    case False
    with fits m(1) none lost show ?thesis by (auto simp: mmap_region_def)
  next
    case True
    then have u: "unmaps a ?b mm 0 mm1" using m(2) by simp
    let ?f = "region_flags env file flags" and ?acc = "accountable_mapping env file flags"
    let ?charged = "if ?acc then drop_bit 12 len else 0"
    have ok1: "mm_ok mm1" using u by (simp add: unmaps_def)
    define R where "R = do {
      choice \<leftarrow> (if has ?f VM_SPECIAL then Some None
                else merge_choice env (mt_prev a (mm_mt mm1)) (mt_find_from a (mm_mt mm1)) ?f file a ?b pgoff mm1);
      (expanded, mm) \<leftarrow> mmap_expand env choice (mt_find_from a (mm_mt mm1)) mm1;
      case expanded of
        Some p \<Rightarrow> do { mm \<leftarrow> mmap_finish env p ?f len mm; Some (a, mm) }
      | None \<Rightarrow> mmap_new env file a len ?f pgoff (mt_prev a (mm_mt mm1)) (mt_find_from a (mm_mt mm1)) ?charged mm }"
    have "\<exists>ret mm'. R = Some (ret, mm') \<and> fills ?want a ?b mm1 ret mm'"
      unfolding R_def using region_from_free [OF ok1 unmaps_free [OF u al(1) alb lt] b law fresh refl refl,
        of ?f "file" pgoff ?charged] by (simp only: add_diff_cancel_left')
    then obtain ret mm' where R: "R = Some (ret, mm')" "maps_region ?want a ?b mm ret mm'"
      using unmaps_fills [OF u] by blast
    have "mmap_region env file a len flags pgoff mm = (if ?acc \<and> security_vm_enough_memory env mm1 ?charged \<noteq> 0
        then Some (err_value ENOMEM, mm1) else R)"
      unfolding mmap_region_def R_def region_flags_def using True fits m(1) by (simp add: Let_def)
    with R lost show ?thesis by auto
  qed
qed

end
