(* ===== verification/Mmap_Call.thy ===== *)
theory Mmap_Call
  imports Mmap_Region_Spec
begin

text \<open>
  The \<open>mmap\<close> system call: \<open>ksys_mmap_pgoff\<close> with the admission check that project 3 adds to it,
  \<open>do_mmap\<close>, which chooses the address, the flags and the page offset of the mapping, and the
  two system calls that lead to them.
\<close>

section \<open>What the code asks of the rest of the kernel\<close>

abbreviation (input) PROT_READ :: u64 where "PROT_READ \<equiv> 0x1"
abbreviation (input) PROT_WRITE :: u64 where "PROT_WRITE \<equiv> 0x2"
abbreviation (input) PROT_EXEC :: u64 where "PROT_EXEC \<equiv> 0x4"
abbreviation (input) MAP_PRIVATE :: u64 where "MAP_PRIVATE \<equiv> 0x2"
abbreviation (input) MAP_SHARED_VALIDATE :: u64 where "MAP_SHARED_VALIDATE \<equiv> 0x3"
abbreviation (input) MAP_TYPE :: u64 where "MAP_TYPE \<equiv> 0xf"
abbreviation (input) MAP_ANONYMOUS :: u64 where "MAP_ANONYMOUS \<equiv> 0x20"
abbreviation (input) MAP_LOCKED :: u64 where "MAP_LOCKED \<equiv> 0x2000"
abbreviation (input) MAP_NORESERVE :: u64 where "MAP_NORESERVE \<equiv> 0x4000"
abbreviation (input) MAP_POPULATE :: u64 where "MAP_POPULATE \<equiv> 0x8000"
abbreviation (input) MAP_NONBLOCK :: u64 where "MAP_NONBLOCK \<equiv> 0x10000"
abbreviation (input) MAP_HUGETLB :: u64 where "MAP_HUGETLB \<equiv> 0x40000"
abbreviation (input) MAP_FIXED_NOREPLACE :: u64 where "MAP_FIXED_NOREPLACE \<equiv> 0x100000"
abbreviation (input) MAX_LFS_FILESIZE :: u64 where "MAX_LFS_FILESIZE \<equiv> 0x7fffffffffffffff"

text \<open>
  Files and their inodes, the configuration, and the calls on other parts of the kernel. A
  file is a number. \<open>huge_page_size\<close> is the page size of a file of huge pages,
  \<open>hstate_sizelog\<close> the page size that a size code names, and \<open>hugetlb_file_setup\<close> gives a new
  file or an error value. \<open>vm_mmap_pgoff\<close> belongs to \<open>mm/util.c\<close>.
\<close>

record file_env =
  read_implies_exec :: bool
  path_noexec :: "nat \<Rightarrow> bool"
  execute_only_pkey :: "mm_struct \<Rightarrow> int"
  calc_vm_prot_bits :: "u64 \<Rightarrow> int \<Rightarrow> u64"
  calc_vm_flag_bits :: "u64 \<Rightarrow> u64"
  can_do_mlock :: bool
  overcommit_never :: bool
  legacy_map_mask :: u64
  fmode_read :: "nat \<Rightarrow> bool"
  fmode_write :: "nat \<Rightarrow> bool"
  fmode_unsigned_offset :: "nat \<Rightarrow> bool"
  s_isreg :: "nat \<Rightarrow> bool"
  s_isblk :: "nat \<Rightarrow> bool"
  s_issock :: "nat \<Rightarrow> bool"
  is_swapfile :: "nat \<Rightarrow> bool"
  is_append :: "nat \<Rightarrow> bool"
  mmap_supported_flags :: "nat \<Rightarrow> u64"
  has_mmap :: "nat \<Rightarrow> bool"
  fget :: "u64 \<Rightarrow> nat option"
  huge_page_size :: "nat \<Rightarrow> u64"
  hstate_sizelog :: "u64 \<Rightarrow> u64 option"
  hugetlb_file_setup :: "u64 \<Rightarrow> u64 \<Rightarrow> u64 + nat"
  vm_mmap_pgoff :: "nat option \<Rightarrow> u64 \<Rightarrow> u64 \<Rightarrow> u64 \<Rightarrow> u64 \<Rightarrow> u64 \<Rightarrow> mm_struct \<Rightarrow> (u64 \<times> mm_struct) option"
  copy_args_from_user :: "u64 \<Rightarrow> u8 list option"

section \<open>Flags and offset of a mapping\<close>

definition file_mmap_size_max :: "file_env \<Rightarrow> nat \<Rightarrow> u64" where
  "file_mmap_size_max fenv f =
    (if s_isreg fenv f then MAX_LFS_FILESIZE
     else if s_isblk fenv f then MAX_LFS_FILESIZE
     else if s_issock fenv f then MAX_LFS_FILESIZE
     else if fmode_unsigned_offset fenv f then 0
     else - 1)"

definition file_mmap_ok :: "file_env \<Rightarrow> nat \<Rightarrow> u64 \<Rightarrow> u64 \<Rightarrow> bool" where
  "file_mmap_ok fenv f pgoff len =
    (let maxsize = file_mmap_size_max fenv f
     in if maxsize \<noteq> 0 \<and> len > maxsize then False
        else
          let maxsize = maxsize - len
          in \<not> pgoff > drop_bit PAGE_SHIFT maxsize)"

text \<open>
  The cases of \<open>MAP_TYPE\<close>. A shared mapping of a file falls through to the checks of a private
  one. The result is an error number, or the flags of the request and of the area.
\<close>

definition map_shared_file :: "file_env \<Rightarrow> nat \<Rightarrow> u64 \<Rightarrow> u64 \<Rightarrow> u64 \<Rightarrow> int + u64 \<times> u64" where
  "map_shared_file fenv f prot flags vmflags =
    (let flags_mask = legacy_map_mask fenv OR mmap_supported_flags fenv f;
         flags = (if flags AND MAP_TYPE = MAP_SHARED then flags AND legacy_map_mask fenv else flags)
     in if flags AND NOT flags_mask \<noteq> 0 then Inl EOPNOTSUPP
        else if has prot PROT_WRITE \<and> \<not> fmode_write fenv f then Inl EACCES
        else if has prot PROT_WRITE \<and> is_swapfile fenv f then Inl ETXTBSY
        else if is_append fenv f \<and> fmode_write fenv f then Inl EACCES
        else
          let vmflags = vmflags OR (VM_SHARED OR VM_MAYSHARE)
          in Inr (flags, if \<not> fmode_write fenv f then vmflags AND NOT (VM_MAYWRITE OR VM_SHARED) else vmflags))"

definition map_private_file :: "file_env \<Rightarrow> nat \<Rightarrow> u64 \<Rightarrow> u64 \<Rightarrow> int + u64 \<times> u64" where
  "map_private_file fenv f flags vmflags =
    (if \<not> fmode_read fenv f then Inl EACCES
     else if path_noexec fenv f \<and> has vmflags VM_EXEC then Inl EPERM
     else
       let vmflags = (if path_noexec fenv f then vmflags AND NOT VM_MAYEXEC else vmflags)
       in if \<not> has_mmap fenv f then Inl ENODEV
          else if has vmflags (VM_GROWSDOWN OR VM_GROWSUP) then Inl EINVAL
          else Inr (flags, vmflags))"

definition map_file_flags :: "file_env \<Rightarrow> nat \<Rightarrow> u64 \<Rightarrow> u64 \<Rightarrow> u64 \<Rightarrow> u64 \<Rightarrow> u64 \<Rightarrow> int + u64 \<times> u64" where
  "map_file_flags fenv f prot flags vmflags pgoff len =
    (let type = flags AND MAP_TYPE
     in if \<not> file_mmap_ok fenv f pgoff len then Inl EOVERFLOW
        else if type = MAP_SHARED \<or> type = MAP_SHARED_VALIDATE
        then (case map_shared_file fenv f prot flags vmflags of
                Inl e \<Rightarrow> Inl e
              | Inr (flags, vmflags) \<Rightarrow> map_private_file fenv f flags vmflags)
        else if type = MAP_PRIVATE then map_private_file fenv f flags vmflags
        else Inl EINVAL)"

definition map_anon_flags :: "u64 \<Rightarrow> u64 \<Rightarrow> u64 \<Rightarrow> int + u64 \<times> u64" where
  "map_anon_flags flags vmflags addr =
    (let type = flags AND MAP_TYPE
     in if type = MAP_SHARED
        then (if has vmflags (VM_GROWSDOWN OR VM_GROWSUP) then Inl EINVAL
              else Inr (0, vmflags OR (VM_SHARED OR VM_MAYSHARE)))
        else if type = MAP_PRIVATE then Inr (drop_bit PAGE_SHIFT addr, vmflags)
        else Inl EINVAL)"

text \<open>Both cases together: the flags of the request and of the area, and the page offset.\<close>

definition map_flags ::
  "file_env \<Rightarrow> nat option \<Rightarrow> u64 \<Rightarrow> u64 \<Rightarrow> u64 \<Rightarrow> u64 \<Rightarrow> u64 \<Rightarrow> u64 \<Rightarrow> int + u64 \<times> u64 \<times> u64" where
  "map_flags fenv file prot flags vmflags addr len pgoff = (case file of
     Some f \<Rightarrow> (case map_file_flags fenv f prot flags vmflags pgoff len of
         Inl e \<Rightarrow> Inl e | Inr (flags, vmflags) \<Rightarrow> Inr (flags, vmflags, pgoff))
   | None \<Rightarrow> (case map_anon_flags flags vmflags addr of
         Inl e \<Rightarrow> Inl e | Inr (pgoff, vmflags) \<Rightarrow> Inr (flags, vmflags, pgoff)))"

definition noreserve_flags :: "mmap_env \<Rightarrow> file_env \<Rightarrow> nat option \<Rightarrow> u64 \<Rightarrow> u64 \<Rightarrow> u64" where
  "noreserve_flags env fenv file flags vmflags =
    (if has flags MAP_NORESERVE
        \<and> (\<not> overcommit_never fenv \<or> (case file of None \<Rightarrow> False | Some f \<Rightarrow> is_file_hugepages env f))
     then vmflags OR VM_NORESERVE else vmflags)"

section \<open>The mapping\<close>

text \<open>From the address on; the result is the return value, \<open>*populate\<close> and the address space.\<close>

definition do_mmap_at ::
  "mmap_env \<Rightarrow> file_env \<Rightarrow> nat option \<Rightarrow> u64 \<Rightarrow> u64 \<Rightarrow> u64 \<Rightarrow> u64 \<Rightarrow> u64 \<Rightarrow> u64 \<Rightarrow> mm_struct
    \<Rightarrow> (u64 \<times> u64 \<times> mm_struct) option" where
  "do_mmap_at env fenv file addr len prot flags vmflags pgoff mm =
    (if has flags MAP_FIXED_NOREPLACE \<and> find_vma_intersection mm addr (addr + len) \<noteq> None
     then Some (err_value EEXIST, 0, mm)
     else
       let pkey = (if prot = PROT_EXEC then max 0 (execute_only_pkey fenv mm) else 0);
           vmflags = vmflags OR (calc_vm_prot_bits fenv prot pkey OR calc_vm_flag_bits fenv flags OR def_flags mm
                        OR VM_MAYREAD OR VM_MAYWRITE OR VM_MAYEXEC)
       in if has flags MAP_LOCKED \<and> \<not> can_do_mlock fenv then Some (err_value EPERM, 0, mm)
          else if \<not> mlock_future_ok env mm vmflags len then Some (err_value EAGAIN, 0, mm)
          else (case map_flags fenv file prot flags vmflags addr len pgoff of
              Inl e \<Rightarrow> Some (err_value e, 0, mm)
            | Inr (flags, vmflags, pgoff) \<Rightarrow>
                let vmflags = noreserve_flags env fenv file flags vmflags
                in do {
                  (ret, mm) \<leftarrow> mmap_region env file addr len vmflags pgoff mm;
                  Some (ret, if \<not> IS_ERR_VALUE ret
                               \<and> (has vmflags VM_LOCKED \<or> flags AND (MAP_POPULATE OR MAP_NONBLOCK) = MAP_POPULATE)
                             then len else 0, mm) }))"

definition do_mmap ::
  "mmap_env \<Rightarrow> file_env \<Rightarrow> nat option \<Rightarrow> u64 \<Rightarrow> u64 \<Rightarrow> u64 \<Rightarrow> u64 \<Rightarrow> u64 \<Rightarrow> u64 \<Rightarrow> mm_struct
    \<Rightarrow> (u64 \<times> u64 \<times> mm_struct) option" where
  "do_mmap env fenv file addr len prot flags vmflags pgoff mm =
    (if len = 0 then Some (err_value EINVAL, 0, mm)
     else
       let prot = (if has prot PROT_READ \<and> read_implies_exec fenv
                     \<and> \<not> (case file of None \<Rightarrow> False | Some f \<Rightarrow> path_noexec fenv f)
                   then prot OR PROT_EXEC else prot);
           flags = (if has flags MAP_FIXED_NOREPLACE then flags OR MAP_FIXED else flags);
           addr = (if \<not> has flags MAP_FIXED then round_hint_to_min env addr else addr);
           len = PAGE_ALIGN len
       in if len = 0 then Some (err_value ENOMEM, 0, mm)
          else if pgoff + drop_bit PAGE_SHIFT len < pgoff then Some (err_value EOVERFLOW, 0, mm)
          else if map_count mm > sysctl_max_map_count env then Some (err_value ENOMEM, 0, mm)
          else
            let addr = get_unmapped_area env file addr len pgoff flags mm
            in if IS_ERR_VALUE addr then Some (addr, 0, mm)
               else do_mmap_at env fenv file addr len prot flags vmflags pgoff mm)"

section \<open>The system calls\<close>

definition ALIGN :: "u64 \<Rightarrow> u64 \<Rightarrow> u64" where
  "ALIGN x a = (x + (a - 1)) AND NOT (a - 1)"

text \<open>The file to map and the length, or a return value with the file to release.\<close>

definition map_source ::
  "mmap_env \<Rightarrow> file_env \<Rightarrow> u64 \<Rightarrow> u64 \<Rightarrow> u64 \<Rightarrow> (u64 \<times> nat option) + (nat option \<times> u64)" where
  "map_source env fenv len flags fd =
    (if \<not> has flags MAP_ANONYMOUS
     then (case fget fenv fd of
             None \<Rightarrow> Inl (err_value EBADF, None)
           | Some f \<Rightarrow>
               if is_file_hugepages env f then Inr (Some f, ALIGN len (huge_page_size fenv f))
               else if has flags MAP_HUGETLB then Inl (err_value EINVAL, Some f)
               else Inr (Some f, len))
     else if has flags MAP_HUGETLB
     then (case hstate_sizelog fenv (drop_bit 26 flags AND 0x3f) of
             None \<Rightarrow> Inl (err_value EINVAL, None)
           | Some psize \<Rightarrow>
               let len = ALIGN len psize
               in (case hugetlb_file_setup fenv len (drop_bit 26 flags AND 0x3f) of
                     Inl e \<Rightarrow> Inl (e, None)
                   | Inr f \<Rightarrow> Inr (Some f, len)))
     else Inr (None, len))"

definition release_file :: "nat option \<Rightarrow> mm_struct \<Rightarrow> mm_struct" where
  "release_file file mm = (case file of None \<Rightarrow> mm | Some f \<Rightarrow> log_calls [Fput f] mm)"

definition ksys_mmap_pgoff ::
  "mmap_env \<Rightarrow> file_env \<Rightarrow> limits_env \<Rightarrow> pid_t \<Rightarrow> u64 \<Rightarrow> u64 \<Rightarrow> u64 \<Rightarrow> u64 \<Rightarrow> u64 \<Rightarrow> u64 \<Rightarrow> limits_state \<Rightarrow> mm_struct
    \<Rightarrow> (u64 \<times> limits_state \<times> mm_struct) option" where
  "ksys_mmap_pgoff env fenv lenv p addr len prot flags fd pgoff s mm =
    (case map_source env fenv len flags fd of
       Inl (retval, file) \<Rightarrow> Some (retval, s, release_file file mm)
     | Inr (file, len) \<Rightarrow> do {
         (accepted, _, s) \<leftarrow> is_request_accepted (with_mm p mm lenv) p len s;
         if \<not> accepted then Some (err_value ENOMEM, s, release_file file mm)
         else do {
           (retval, mm) \<leftarrow> vm_mmap_pgoff fenv file addr len prot flags pgoff mm;
           Some (retval, s, release_file file mm) } })"

definition mmap_pgoff ::
  "mmap_env \<Rightarrow> file_env \<Rightarrow> limits_env \<Rightarrow> pid_t \<Rightarrow> u64 \<Rightarrow> u64 \<Rightarrow> u64 \<Rightarrow> u64 \<Rightarrow> u64 \<Rightarrow> u64 \<Rightarrow> limits_state \<Rightarrow> mm_struct
    \<Rightarrow> (u64 \<times> limits_state \<times> mm_struct) option" where
  "mmap_pgoff env fenv lenv p addr len prot flags fd pgoff s mm =
     ksys_mmap_pgoff env fenv lenv p addr len prot flags fd pgoff s mm"

record mmap_arg_struct =
  arg_addr :: u64
  arg_len :: u64
  arg_prot :: u64
  arg_flags :: u64
  arg_fd :: u64
  arg_offset :: u64

definition mmap_args :: "u8 list \<Rightarrow> mmap_arg_struct" where
  "mmap_args bs = \<lparr>arg_addr = le_word (take 8 bs), arg_len = le_word (take 8 (drop 8 bs)),
     arg_prot = le_word (take 8 (drop 16 bs)), arg_flags = le_word (take 8 (drop 24 bs)),
     arg_fd = le_word (take 8 (drop 32 bs)), arg_offset = le_word (take 8 (drop 40 bs))\<rparr>"

definition old_mmap ::
  "mmap_env \<Rightarrow> file_env \<Rightarrow> limits_env \<Rightarrow> pid_t \<Rightarrow> u64 \<Rightarrow> limits_state \<Rightarrow> mm_struct
    \<Rightarrow> (u64 \<times> limits_state \<times> mm_struct) option" where
  "old_mmap env fenv lenv p arg s mm = (case copy_args_from_user fenv arg of
     None \<Rightarrow> Some (err_value EFAULT, s, mm)
   | Some bs \<Rightarrow>
       let a = mmap_args bs
       in if offset_in_page (arg_offset a) \<noteq> 0 then Some (err_value EINVAL, s, mm)
          else ksys_mmap_pgoff env fenv lenv p (arg_addr a) (arg_len a) (arg_prot a) (arg_flags a) (arg_fd a)
                 (drop_bit PAGE_SHIFT (arg_offset a)) s mm)"

section \<open>What a mapping does\<close>

text \<open>
  The configuration and the parts of the kernel that the code relies on: user space ends at a
  page boundary in the lower half of the addresses; allocation gives new areas; the mappers,
  the architecture, the security hook and the address searches answer as documented.
\<close>

definition map_laws :: "mmap_env \<Rightarrow> bool" where
  "map_laws env \<longleftrightarrow> alloc_fresh env \<and> mapper_law env \<and> area_law env \<and> fixed_law env
     \<and> offset_in_page (task_size env) = 0 \<and> unat (task_size env) < 2 ^ 63"

lemma map_lawsD:
  assumes "map_laws env"
  shows "alloc_fresh env" "mapper_law env" "area_law env" "fixed_law env"
    "offset_in_page (task_size env) = 0" "unat (task_size env) < 2 ^ 63"
  using assms by (simp_all add: map_laws_def)

text \<open>
  The contract of a request for \<open>len\<close> bytes at \<open>addr\<close>. A failure may have removed the mappings
  of one range of the size asked for, as \<open>MAP_FIXED\<close> does before it maps.
\<close>

definition new_range :: "mmap_env \<Rightarrow> u64 \<Rightarrow> u64 \<Rightarrow> u64 \<Rightarrow> mm_struct \<Rightarrow> u64 \<Rightarrow> bool" where
  "new_range env flags addr len mm a \<longleftrightarrow> offset_in_page a = 0 \<and> len \<noteq> 0 \<and> unat len + 4095 < 2 ^ 64
     \<and> PAGE_ALIGN len \<le> task_size env \<and> a \<le> task_size env - PAGE_ALIGN len
     \<and> (has flags (MAP_FIXED OR MAP_FIXED_NOREPLACE) \<longrightarrow> a = addr)
     \<and> (has flags MAP_FIXED_NOREPLACE \<longrightarrow> (\<forall>x. a \<le> x \<and> x < a + PAGE_ALIGN len \<longrightarrow> mm_view mm x = None))"

definition mmap_result :: "mmap_env \<Rightarrow> u64 \<Rightarrow> u64 \<Rightarrow> u64 \<Rightarrow> mm_struct \<Rightarrow> u64 \<Rightarrow> mm_struct \<Rightarrow> bool" where
  "mmap_result env flags addr len mm ret mm' \<longleftrightarrow> mm_ok mm' \<and> only_counts mm mm'
     \<and> (if IS_ERR_VALUE ret
        then \<exists>a lost. \<forall>x. mm_view mm' x = (if lost \<and> a \<le> x \<and> x < a + PAGE_ALIGN len then None else mm_view mm x)
        else new_range env flags addr len mm ret
          \<and> (\<exists>K. \<forall>x. mm_view mm' x = (if ret \<le> x \<and> x < ret + PAGE_ALIGN len then Some K else mm_view mm x)))"

lemma mmap_result_error: "mm_ok mm \<Longrightarrow> IS_ERR_VALUE ret \<Longrightarrow> mmap_result env flags addr len mm ret mm"
  by (auto simp: mmap_result_def)

lemma mmap_result_log: "mmap_result env flags addr len mm ret mm' \<Longrightarrow> mmap_result env flags addr len mm ret (log_calls cs mm')"
  by (simp add: mmap_result_def only_counts_def)

lemma map_flags_error:
  assumes "map_flags fenv file prot flags vmflags addr len pgoff = Inl e"
  shows "IS_ERR_VALUE (err_value e)"
proof (rule IS_ERR_VALUE_err_value)
  have "e \<in> {EOPNOTSUPP, EACCES, ETXTBSY, EPERM, ENODEV, EINVAL, EOVERFLOW}"
    using assms
    by (auto simp: map_flags_def map_file_flags_def map_shared_file_def map_private_file_def map_anon_flags_def Let_def
        split: option.splits sum.splits if_splits prod.splits)
  then show "0 < e" "e \<le> 4095" by auto
qed

lemma no_intersection:
  assumes "mm_inv mm" and "find_vma_intersection mm a b = None" and "a \<le> x" and "x < b"
  shows "mm_view mm x = None"
proof (rule free_range [OF assms(1) _ assms(3,4)])
  fix q w assume "vmas mm q = Some w"
  then have "(vm_start w, vm_end w, q) \<in> set (mm_mt mm)"
    using assms(1) by (auto simp: mm_inv_def entries_iff)
  with assms show "vm_end w \<le> a \<or> b \<le> vm_start w"
    by (fastforce simp: find_vma_intersection_def mt_find_None split: if_splits)
qed

lemma do_mmap_at_result:
  assumes ok: "mm_ok mm" and law: "map_laws env" and L: "L = PAGE_ALIGN len" "len \<noteq> 0" "unat len + 4095 < 2 ^ 64"
    and a: "offset_in_page a = 0" "L \<le> task_size env" "a \<le> task_size env - L"
    and fx: "has flags (MAP_FIXED OR MAP_FIXED_NOREPLACE) \<Longrightarrow> a = addr"
  shows "\<exists>ret pop mm'. do_mmap_at env fenv file a L prot flags vmflags pgoff mm = Some (ret, pop, mm')
    \<and> mmap_result env flags addr len mm ret mm'"
proof -
  note laws = map_lawsD [OF law]
  have al: "offset_in_page L = 0" and nz: "L \<noteq> 0"
    using L by (simp_all add: PAGE_ALIGN_eq_0_iff)
  have err: "mmap_result env flags addr len mm r mm" if "IS_ERR_VALUE r" for r
    using mmap_result_error [OF ok that] .
  show ?thesis
  proof (cases "has flags MAP_FIXED_NOREPLACE \<and> find_vma_intersection mm a (a + L) \<noteq> None")
    case True
    then show ?thesis
      using err [of "err_value EEXIST"] by (simp add: do_mmap_at_def)
  next
    case False
    have new: "new_range env flags addr len mm a"
      using L a fx False no_intersection [OF mm_ok_inv [OF ok], of a "a + L"] by (auto simp: new_range_def)
    have region: "\<exists>ret mm'. mmap_region env file a L vf po mm = Some (ret, mm') \<and> mmap_result env flags addr len mm ret mm'" for vf po
    proof -
      obtain ret mm' want where m: "mmap_region env file a L vf po mm = Some (ret, mm')" "maps_region want a (a + L) mm ret mm'"
        using mmap_region_spec [OF ok laws(1,2,5,6) a(1) al nz a(2,3)] by blast
      have "mmap_result env flags addr len mm ret mm'"
      proof (cases "IS_ERR_VALUE ret")
        case True
        show ?thesis
          using m(2) unfolding mmap_result_def maps_region_def L(1) if_P [OF True] by blast
      next
        case False
        show ?thesis
          using m(2) new unfolding mmap_result_def maps_region_def L(1) if_not_P [OF False] by blast
      qed
      with m(1) show ?thesis by blast
    qed
    define vf where "vf = vmflags OR (calc_vm_prot_bits fenv prot (if prot = PROT_EXEC then max 0 (execute_only_pkey fenv mm) else 0)
        OR calc_vm_flag_bits fenv flags OR def_flags mm OR VM_MAYREAD OR VM_MAYWRITE OR VM_MAYEXEC)"
    have run: "do_mmap_at env fenv file a L prot flags vmflags pgoff mm =
       (if has flags MAP_LOCKED \<and> \<not> can_do_mlock fenv then Some (err_value EPERM, 0, mm)
        else if \<not> mlock_future_ok env mm vf L then Some (err_value EAGAIN, 0, mm)
        else (case map_flags fenv file prot flags vf a L pgoff of
            Inl e \<Rightarrow> Some (err_value e, 0, mm)
          | Inr (flags, vmflags, pgoff) \<Rightarrow> do {
              (ret, mm) \<leftarrow> mmap_region env file a L (noreserve_flags env fenv file flags vmflags) pgoff mm;
              Some (ret, if \<not> IS_ERR_VALUE ret \<and> (has (noreserve_flags env fenv file flags vmflags) VM_LOCKED
                  \<or> flags AND (MAP_POPULATE OR MAP_NONBLOCK) = MAP_POPULATE) then L else 0, mm) }))"
      unfolding do_mmap_at_def Let_def vf_def if_not_P [OF False] ..
    show ?thesis
    proof (cases "map_flags fenv file prot flags vf a L pgoff")
      case (Inl e)
      then show ?thesis
        unfolding run using err map_flags_error [OF Inl] by auto
    next
      case (Inr r)
      obtain fl v po where r: "r = (fl, v, po)" by (cases r)
      show ?thesis
        unfolding run using Inr r err region [of "noreserve_flags env fenv file fl v" po] by auto
    qed
  qed
qed

lemma has_or: "has (f OR g) h \<longleftrightarrow> has f h \<or> has g h"
  by (auto simp: has_def word_ao_dist or_eq_0_iff)

lemma mmap_result_fixed:
  assumes "has flags MAP_FIXED_NOREPLACE"
  shows "mmap_result env (flags OR MAP_FIXED) addr len mm ret mm' = mmap_result env flags addr len mm ret mm'"
proof -
  have "has flags (MAP_FIXED OR MAP_FIXED_NOREPLACE)"
  proof -
    have "flags AND MAP_FIXED_NOREPLACE = (flags AND (MAP_FIXED OR MAP_FIXED_NOREPLACE)) AND MAP_FIXED_NOREPLACE"
      by (simp add: and.assoc)
    with assms show ?thesis by (auto simp: has_def)
  qed
  then show ?thesis
    using assms unfolding mmap_result_def new_range_def by (simp add: has_or)
qed

lemma do_mmap_result:
  assumes ok: "mm_ok mm" and law: "map_laws env"
  shows "\<exists>ret pop mm'. do_mmap env fenv file addr len prot flags vmflags pgoff mm = Some (ret, pop, mm')
    \<and> mmap_result env flags addr len mm ret mm'"
proof -
  note laws = map_lawsD [OF law]
  define fl where "fl = (if has flags MAP_FIXED_NOREPLACE then flags OR MAP_FIXED else flags)"
  define hint where "hint = (if \<not> has fl MAP_FIXED then round_hint_to_min env addr else addr)"
  define L where "L = PAGE_ALIGN len"
  define a where "a = get_unmapped_area env file hint L pgoff fl mm"
  define pr where "pr = (if has prot PROT_READ \<and> read_implies_exec fenv
      \<and> \<not> (case file of None \<Rightarrow> False | Some f \<Rightarrow> path_noexec fenv f) then prot OR PROT_EXEC else prot)"
  have run: "do_mmap env fenv file addr len prot flags vmflags pgoff mm = (if len = 0 then Some (err_value EINVAL, 0, mm)
      else if L = 0 then Some (err_value ENOMEM, 0, mm)
      else if pgoff + drop_bit PAGE_SHIFT L < pgoff then Some (err_value EOVERFLOW, 0, mm)
      else if map_count mm > sysctl_max_map_count env then Some (err_value ENOMEM, 0, mm)
      else if IS_ERR_VALUE a then Some (a, 0, mm)
      else do_mmap_at env fenv file a L pr fl vmflags pgoff mm)"
    unfolding do_mmap_def Let_def fl_def hint_def L_def a_def pr_def ..
  have same: "mmap_result env fl addr len mm = mmap_result env flags addr len mm"
    unfolding fl_def using mmap_result_fixed by (auto simp: fun_eq_iff)
  have at: "\<exists>ret pop mm'. do_mmap_at env fenv file a L pr fl vmflags pgoff mm = Some (ret, pop, mm')
      \<and> mmap_result env flags addr len mm ret mm'" if g: "len \<noteq> 0" "L \<noteq> 0" "\<not> IS_ERR_VALUE a"
  proof -
    note got = get_unmapped_area_ok [OF laws(3) g(3) [unfolded a_def], folded a_def]
    have lt: "unat len + 4095 < 2 ^ 64"
      using g(1,2) by (auto simp: L_def PAGE_ALIGN_eq_0_iff)
    have fx: "a = addr" if h: "has fl (MAP_FIXED OR MAP_FIXED_NOREPLACE)"
    proof -
      have "has fl MAP_FIXED"
      proof (cases "has flags MAP_FIXED_NOREPLACE")
        case True
        then show ?thesis by (simp add: fl_def has_or, simp add: has_def)
      next
        case False
        with h have "flags AND MAP_FIXED_NOREPLACE = 0" "flags AND (MAP_FIXED OR MAP_FIXED_NOREPLACE) \<noteq> 0"
          by (simp_all add: fl_def has_def)
        then have "flags AND MAP_FIXED \<noteq> 0"
          using bit.conj_disj_distrib [of flags MAP_FIXED MAP_FIXED_NOREPLACE] by auto
        with False show ?thesis by (simp add: fl_def has_def)
      qed
      then show ?thesis
        using get_unmapped_area_fixed [OF laws(3) g(3) [unfolded a_def] laws(4)] by (simp add: a_def hint_def)
    qed
    show ?thesis
      unfolding same [symmetric] by (rule do_mmap_at_result [OF ok law L_def g(1) lt]) (use got fx in auto)
  qed
  show ?thesis
    unfolding run using at mmap_result_error [OF ok] by (simp add: split: if_split)
qed

text \<open>
  \<open>vm_mmap_pgoff\<close> as documented: a security hook or a fatal signal refuses the request, or
  \<open>do_mmap\<close> is called and the pages that it asks for are populated.
\<close>

definition vm_mmap_pgoff_law :: "mmap_env \<Rightarrow> file_env \<Rightarrow> bool" where
  "vm_mmap_pgoff_law env fenv \<longleftrightarrow> (\<forall>file addr len prot flags pgoff mm.
     (\<exists>e. IS_ERR_VALUE e \<and> vm_mmap_pgoff fenv file addr len prot flags pgoff mm = Some (e, mm))
     \<or> vm_mmap_pgoff fenv file addr len prot flags pgoff mm = do {
         (ret, populate, mm) \<leftarrow> do_mmap env fenv file addr len prot flags 0 pgoff mm;
         Some (ret, if populate \<noteq> 0 then log_calls [MmPopulate ret populate] mm else mm) })"

definition hugetlb_law :: "file_env \<Rightarrow> bool" where
  "hugetlb_law fenv \<longleftrightarrow> (\<forall>len code e. hugetlb_file_setup fenv len code = Inl e \<longrightarrow> IS_ERR_VALUE e)"

lemma release_file_log: "\<exists>cs. release_file file mm = log_calls cs mm"
  unfolding release_file_def using logs_nothing by (cases "file") auto

lemma vm_mmap_pgoff_result:
  assumes ok: "mm_ok mm" and law: "map_laws env" "vm_mmap_pgoff_law env fenv"
  shows "\<exists>ret mm'. vm_mmap_pgoff fenv file addr len prot flags pgoff mm = Some (ret, mm')
    \<and> mmap_result env flags addr len mm ret mm'"
proof -
  from law(2) consider e where "IS_ERR_VALUE e" "vm_mmap_pgoff fenv file addr len prot flags pgoff mm = Some (e, mm)"
    | "vm_mmap_pgoff fenv file addr len prot flags pgoff mm = do {
         (ret, populate, mm) \<leftarrow> do_mmap env fenv file addr len prot flags 0 pgoff mm;
         Some (ret, if populate \<noteq> 0 then log_calls [MmPopulate ret populate] mm else mm) }"
    unfolding vm_mmap_pgoff_law_def by blast
  then show ?thesis
  proof cases
    case 1
    then show ?thesis using mmap_result_error [OF ok] by blast
  next
    case 2
    obtain ret pop mm' where "do_mmap env fenv file addr len prot flags 0 pgoff mm = Some (ret, pop, mm')"
        "mmap_result env flags addr len mm ret mm'"
      using do_mmap_result [OF ok law(1)] by blast
    with 2 show ?thesis using mmap_result_log by auto
  qed
qed

lemma map_source_error:
  "hugetlb_law fenv \<Longrightarrow> map_source env fenv len flags fd = Inl (r, file) \<Longrightarrow> IS_ERR_VALUE r"
  by (auto simp: map_source_def hugetlb_law_def Let_def split: if_splits option.splits sum.splits)

text \<open>The length that is mapped: huge pages round it up.\<close>

definition source_len :: "mmap_env \<Rightarrow> file_env \<Rightarrow> u64 \<Rightarrow> u64 \<Rightarrow> u64 \<Rightarrow> u64" where
  "source_len env fenv len flags fd = (case map_source env fenv len flags fd of Inl _ \<Rightarrow> len | Inr (_, l) \<Rightarrow> l)"

lemma ksys_mmap_spec:
  assumes ok: "mm_ok mm" and inv: "limits_inv s" and law: "map_laws env" "vm_mmap_pgoff_law env fenv" "hugetlb_law fenv"
  shows "\<exists>ret mm'. ksys_mmap_pgoff env fenv lenv p addr len prot flags fd pgoff s mm = Some (ret, s, mm')
    \<and> mmap_result env flags addr (source_len env fenv len flags fd) mm ret mm'
    \<and> (\<not> IS_ERR_VALUE ret \<longrightarrow> accepts (with_mm p mm lenv) p (source_len env fenv len flags fd) (limits_of (memory_list s) p))"
proof (cases "map_source env fenv len flags fd")
  case (Inl r)
  obtain ret f where r: "r = (ret, f)" by (cases r)
  obtain cs where "release_file f mm = log_calls cs mm" using release_file_log by blast
  then show ?thesis
    using Inl r map_source_error [OF law(3)] mmap_result_error [OF ok] mmap_result_log
    by (auto simp: ksys_mmap_pgoff_def)
next
  case (Inr r)
  obtain f l where r: "r = (f, l)" by (cases r)
  have l: "source_len env fenv len flags fd = l" using Inr r by (simp add: source_len_def)
  obtain cs where cs: "\<And>mm. release_file f mm = log_calls cs mm"
    by (cases f) (auto simp: release_file_def intro: that [of "[]"])
  obtain log where check: "is_request_accepted (with_mm p mm lenv) p l s
      = Some (accepts (with_mm p mm lenv) p l (limits_of (memory_list s) p), log, s)"
    using check_refines [OF inv] by blast
  obtain ret mm' where run: "vm_mmap_pgoff fenv f addr l prot flags pgoff mm = Some (ret, mm')"
      "mmap_result env flags addr l mm ret mm'"
    using vm_mmap_pgoff_result [OF ok law(1,2)] by blast
  have "mmap_result env flags addr l mm (err_value ENOMEM) (log_calls cs mm)"
    by (rule mmap_result_log, rule mmap_result_error [OF ok]) simp
  then show ?thesis
    unfolding l using Inr r check run mmap_result_log cs by (auto simp: ksys_mmap_pgoff_def)
qed

section \<open>The limit\<close>

text \<open>A process maps addresses of user space only.\<close>

definition user_space :: "mmap_env \<Rightarrow> mm_struct \<Rightarrow> bool" where
  "user_space env mm \<longleftrightarrow> (\<forall>x. mm_view mm x \<noteq> None \<longrightarrow> x < task_size env)"

lemma unat_total_vm: "mm_ok mm \<Longrightarrow> unat (total_vm mm) = card (mapped_pages mm)"
  using card_mapped [of mm] by (simp add: mm_ok_iff unsigned_of_nat take_bit_nat_eq_self)

lemma card_range_bytes:
  assumes "offset_in_page a = 0" and "offset_in_page b = 0" and "a \<le> b"
  shows "4096 * card (page_range a b) = unat b - unat a"
proof -
  obtain i j where "unat a = 4096 * i" "unat b = 4096 * j"
    using assms(1,2) page_aligned_obtain by metis
  then show ?thesis
    using card_page_range [OF assms(1,2)] by simp
qed

lemma user_space_bytes:
  assumes ok: "mm_ok mm" and u: "user_space env mm" and T: "offset_in_page (task_size env) = 0"
  shows "4096 * unat (total_vm mm) \<le> unat (task_size env)"
proof -
  have "mapped_pages mm \<subseteq> page_range 0 (task_size env)"
    using u by (auto simp: mapped_pages_def page_range_def user_space_def)
  then have "card (mapped_pages mm) \<le> card (page_range 0 (task_size env))"
    by (simp add: card_mono)
  moreover have "4096 * card (page_range 0 (task_size env)) = unat (task_size env)"
    using card_range_bytes [of 0 "task_size env"] T by (simp add: page_aligned_iff)
  ultimately show ?thesis
    using unat_total_vm [OF ok] by linarith
qed

lemma mapped_growth:
  assumes "mm_ok mm" and "mm_ok mm'" and "offset_in_page a = 0" "offset_in_page b = 0" "a \<le> b"
    and view: "\<And>x. mm_view mm' x = (if a \<le> x \<and> x < b then Some K else mm_view mm x)"
  shows "4096 * unat (total_vm mm') \<le> 4096 * unat (total_vm mm) + (unat b - unat a)"
proof -
  have "mapped_pages mm' \<subseteq> mapped_pages mm \<union> page_range a b"
    unfolding mapped_pages_def page_range_def view by auto
  then have "card (mapped_pages mm') \<le> card (mapped_pages mm \<union> page_range a b)"
    by (simp add: card_mono)
  also have "\<dots> \<le> card (mapped_pages mm) + card (page_range a b)"
    by (rule card_Un_le)
  finally show ?thesis
    using unat_total_vm [OF assms(1)] unat_total_vm [OF assms(2)] card_range_bytes [OF assms(3-5)] by linarith
qed

lemma mmap_within_limit:
  assumes ok: "mm_ok mm" and law: "map_laws env" and user: "user_space env mm"
    and res: "mmap_result env flags addr len mm ret mm'" "\<not> IS_ERR_VALUE ret"
    and task: "find_task_by_vpid lenv p = Some t" "pid t = p" and acc: "accepts (with_mm p mm lenv) p len (Some l)"
  shows "4096 * unat (total_vm mm') < unat l + 4096"
proof -
  note laws = map_lawsD [OF law]
  let ?L = "PAGE_ALIGN len"
  have r: "mm_ok mm'" "new_range env flags addr len mm ret"
    and view: "\<exists>K. \<forall>x. mm_view mm' x = (if ret \<le> x \<and> x < ret + ?L then Some K else mm_view mm x)"
    using res by (simp_all add: mmap_result_def)
  have n: "offset_in_page ret = 0" "unat len + 4095 < 2 ^ 64" "?L \<le> task_size env" "ret \<le> task_size env - ?L"
    using r(2) by (simp_all add: new_range_def)
  note wrap = range_no_wrap [OF n(3,4)]
  have sum: "unat (ret + ?L) = unat ret + unat ?L"
    using wrap(1) by (simp add: unat_plus_simple [symmetric])
  have al: "offset_in_page (ret + ?L) = 0"
    by (rule aligned_add [OF n(1) PAGE_ALIGN_aligned wrap(1)])
  have grow: "4096 * unat (total_vm mm') \<le> 4096 * unat (total_vm mm) + unat ?L"
    using view mapped_growth [OF ok r(1) n(1) al wrap(1)] sum by auto
  note bounds = PAGE_ALIGN_bounds [OF n(2)] and bytes = user_space_bytes [OF ok user laws(5)]
  have "unat len \<le> unat (task_size env)"
    using bounds(1) n(3) by (simp add: word_le_nat_alt)
  then have "unat (push_bit PAGE_SHIFT (total_vm mm) + len) = 4096 * unat (total_vm mm) + unat len"
    using bytes laws(6) mapped_bytes [OF ok] by (subst unat_word_ariths) simp
  moreover have "push_bit PAGE_SHIFT (total_vm mm) + len \<le> l"
    using acc with_mm_task [OF task, of mm] by (simp add: accepts_def)
  ultimately show ?thesis
    using grow bounds(2) by (simp add: word_le_nat_alt)
qed

section \<open>Properties\<close>

text \<open>Files that may be read and written, no huge pages, and nothing refused before \<open>do_mmap\<close>.\<close>

definition plain_files0 :: file_env where
  "plain_files0 = \<lparr>read_implies_exec = False, path_noexec = (\<lambda>_. False), execute_only_pkey = (\<lambda>_. 0),
     calc_vm_prot_bits = (\<lambda>prot _. prot), calc_vm_flag_bits = (\<lambda>_. 0), can_do_mlock = True, overcommit_never = False,
     legacy_map_mask = 0x7ffff, fmode_read = (\<lambda>_. True), fmode_write = (\<lambda>_. True),
     fmode_unsigned_offset = (\<lambda>_. False), s_isreg = (\<lambda>_. True), s_isblk = (\<lambda>_. False), s_issock = (\<lambda>_. False),
     is_swapfile = (\<lambda>_. False), is_append = (\<lambda>_. False), mmap_supported_flags = (\<lambda>_. 0), has_mmap = (\<lambda>_. True),
     fget = (\<lambda>fd. if fd < 3 then Some (unat fd) else None), huge_page_size = (\<lambda>_. 0x200000),
     hstate_sizelog = (\<lambda>_. None), hugetlb_file_setup = (\<lambda>_ _. Inl (err_value ENOMEM)),
     vm_mmap_pgoff = (\<lambda>_ _ _ _ _ _ _. None), copy_args_from_user = (\<lambda>_. None)\<rparr>"

definition plain_vm_mmap :: "nat option \<Rightarrow> u64 \<Rightarrow> u64 \<Rightarrow> u64 \<Rightarrow> u64 \<Rightarrow> u64 \<Rightarrow> mm_struct \<Rightarrow> (u64 \<times> mm_struct) option" where
  "plain_vm_mmap file addr len prot flags pgoff mm = do {
     (ret, populate, mm) \<leftarrow> do_mmap plain_env plain_files0 file addr len prot flags 0 pgoff mm;
     Some (ret, if populate \<noteq> 0 then log_calls [MmPopulate ret populate] mm else mm) }"

definition plain_files :: file_env where
  "plain_files = plain_files0\<lparr>vm_mmap_pgoff := plain_vm_mmap\<rparr>"

lemma file_env_other:
  "read_implies_exec (fenv\<lparr>vm_mmap_pgoff := f\<rparr>) = read_implies_exec fenv"
  "path_noexec (fenv\<lparr>vm_mmap_pgoff := f\<rparr>) = path_noexec fenv"
  "execute_only_pkey (fenv\<lparr>vm_mmap_pgoff := f\<rparr>) = execute_only_pkey fenv"
  "calc_vm_prot_bits (fenv\<lparr>vm_mmap_pgoff := f\<rparr>) = calc_vm_prot_bits fenv"
  "calc_vm_flag_bits (fenv\<lparr>vm_mmap_pgoff := f\<rparr>) = calc_vm_flag_bits fenv"
  "can_do_mlock (fenv\<lparr>vm_mmap_pgoff := f\<rparr>) = can_do_mlock fenv"
  "overcommit_never (fenv\<lparr>vm_mmap_pgoff := f\<rparr>) = overcommit_never fenv"
  "legacy_map_mask (fenv\<lparr>vm_mmap_pgoff := f\<rparr>) = legacy_map_mask fenv"
  "fmode_read (fenv\<lparr>vm_mmap_pgoff := f\<rparr>) = fmode_read fenv"
  "fmode_write (fenv\<lparr>vm_mmap_pgoff := f\<rparr>) = fmode_write fenv"
  "fmode_unsigned_offset (fenv\<lparr>vm_mmap_pgoff := f\<rparr>) = fmode_unsigned_offset fenv"
  "s_isreg (fenv\<lparr>vm_mmap_pgoff := f\<rparr>) = s_isreg fenv"
  "s_isblk (fenv\<lparr>vm_mmap_pgoff := f\<rparr>) = s_isblk fenv"
  "s_issock (fenv\<lparr>vm_mmap_pgoff := f\<rparr>) = s_issock fenv"
  "is_swapfile (fenv\<lparr>vm_mmap_pgoff := f\<rparr>) = is_swapfile fenv"
  "is_append (fenv\<lparr>vm_mmap_pgoff := f\<rparr>) = is_append fenv"
  "mmap_supported_flags (fenv\<lparr>vm_mmap_pgoff := f\<rparr>) = mmap_supported_flags fenv"
  "has_mmap (fenv\<lparr>vm_mmap_pgoff := f\<rparr>) = has_mmap fenv"
  by simp_all

lemma map_flags_other: "map_flags (fenv\<lparr>vm_mmap_pgoff := f\<rparr>) = map_flags fenv"
proof -
  have "file_mmap_ok (fenv\<lparr>vm_mmap_pgoff := f\<rparr>) = file_mmap_ok fenv"
    by (intro ext) (simp only: file_mmap_ok_def file_mmap_size_max_def file_env_other)
  moreover have "map_shared_file (fenv\<lparr>vm_mmap_pgoff := f\<rparr>) = map_shared_file fenv"
    by (intro ext) (simp only: map_shared_file_def file_env_other)
  moreover have "map_private_file (fenv\<lparr>vm_mmap_pgoff := f\<rparr>) = map_private_file fenv"
    by (intro ext) (simp only: map_private_file_def file_env_other)
  ultimately have "map_file_flags (fenv\<lparr>vm_mmap_pgoff := f\<rparr>) = map_file_flags fenv"
    by (intro ext) (simp only: map_file_flags_def)
  then show ?thesis
    by (intro ext) (simp only: map_flags_def)
qed

lemma do_mmap_plain: "do_mmap plain_env plain_files = do_mmap plain_env plain_files0"
proof -
  have "noreserve_flags plain_env plain_files = noreserve_flags plain_env plain_files0"
    by (intro ext) (simp only: noreserve_flags_def plain_files_def file_env_other)
  then have at: "do_mmap_at plain_env plain_files = do_mmap_at plain_env plain_files0"
    by (intro ext) (simp only: do_mmap_at_def, simp only: plain_files_def map_flags_other file_env_other)
  show ?thesis
    by (intro ext) (simp only: do_mmap_def at, simp only: plain_files_def file_env_other)
qed

lemma plain_map_laws: "map_laws plain_env" "vm_mmap_pgoff_law plain_env plain_files" "hugetlb_law plain_files"
proof -
  have "mapper_law plain_env"
    by (simp add: mapper_law_def status_law_def plain_env_def)
  then show "map_laws plain_env"
    using plain_laws plain_env_fresh by (simp add: map_laws_def config_law_def) (simp add: plain_env_def)
  show "vm_mmap_pgoff_law plain_env plain_files"
    unfolding vm_mmap_pgoff_law_def do_mmap_plain by (simp add: plain_files_def plain_vm_mmap_def)
  show "hugetlb_law plain_files"
    by (simp add: hugetlb_law_def plain_files_def plain_files0_def)
qed


lemma ex_mmap: "map_option fst (mmap_pgoff plain_env plain_files ex_env 7 0x20000 0x1800 3 0x22 0 0 ex_limits ex_heap) = Some 0x20000"
  by code_simp


text \<open>
  C38: The limit holds for mappings up to the last page. Where a process with a limit asks for a
  mapping and gets it, all the memory it has mapped exceeds the limit by less than a page,
  because the check counts the bytes asked for and the kernel maps whole pages; a limit that is
  a number of whole pages is not exceeded at all.
\<close>

theorem mmap_respects_limit:
  assumes "mm_ok mm" and "limits_inv s" and "map_laws env" and "vm_mmap_pgoff_law env fenv" and "hugetlb_law fenv"
    and "user_space env mm" and "find_task_by_vpid lenv p = Some t" and "pid t = p"
    and "limits_of (memory_list s) p = Some l"
    and "mmap_pgoff env fenv lenv p addr len prot flags fd pgoff s mm = Some (ret, s', mm')" and "\<not> IS_ERR_VALUE ret"
  shows "4096 * unat (total_vm mm') < unat l + 4096
    \<and> (offset_in_page l = 0 \<longrightarrow> 4096 * unat (total_vm mm') \<le> unat l)"
proof -
  have "mmap_result env flags addr (source_len env fenv len flags fd) mm ret mm'"
    and "accepts (with_mm p mm lenv) p (source_len env fenv len flags fd) (Some l)"
    using ksys_mmap_spec [OF assms(1-5), of lenv p addr len prot flags fd pgoff] assms(9-11)
    unfolding mmap_pgoff_def by auto
  then have lt: "4096 * unat (total_vm mm') < unat l + 4096"
    using mmap_within_limit [OF assms(1,3,6) _ assms(11,7,8)] by blast
  moreover have "4096 * unat (total_vm mm') \<le> unat l" if page: "offset_in_page l = 0"
  proof -
    obtain i where "unat l = 4096 * i" using page page_aligned_obtain by metis
    with lt show ?thesis by simp
  qed
  ultimately show ?thesis by blast
qed

theorem mmap_respects_limit_witness:
  "\<exists>mm'. mmap_pgoff plain_env plain_files ex_env 7 0x20000 0x1800 3 0x22 0 0 ex_limits ex_heap = Some (0x20000, ex_limits, mm')
    \<and> 4096 * unat (total_vm mm') \<le> unat (8192 :: u64)"
proof -
  obtain s' mm' where run: "mmap_pgoff plain_env plain_files ex_env 7 0x20000 0x1800 3 0x22 0 0 ex_limits ex_heap
      = Some (0x20000, s', mm')"
    using ex_mmap by auto
  have task: "find_task_by_vpid ex_env 7 = Some ex_task" "pid ex_task = 7"
    and limit: "limits_of (memory_list ex_limits) 7 = Some 8192" and page: "offset_in_page 8192 = 0"
    and ret: "\<not> IS_ERR_VALUE 0x20000"
    by (simp_all add: ex_defs limits_of_def find_entry_def page_aligned_iff IS_ERR_VALUE_def)
  have user: "user_space plain_env ex_heap"
    by (simp add: user_space_def mm_view_def vma_lookup_def mt_walk_def ex_heap_def empty_mm_def)
  have s: "s' = ex_limits"
    using ksys_mmap_spec [OF ex_heap_ok(1) ex_inv plain_map_laws, of ex_env 7 "0x20000" "0x1800" 3 "0x22" 0 0] run
    by (auto simp: mmap_pgoff_def)
  show ?thesis
    using mmap_respects_limit [OF ex_heap_ok(1) ex_inv plain_map_laws user task limit run ret] page run s by blast
qed

end
