(* ===== verification/Limited_Process.thy ===== *)
theory Limited_Process
  imports Mmap_Call
begin

text \<open>
  The calls by which a process changes its address space, \<open>brk\<close>, \<open>munmap\<close> and \<open>mmap\<close>, in any
  order, with the limiter in between. Each call runs in an environment and a state of the
  limiter of its own, since other processes and the administrator act between the calls.
\<close>

section \<open>Sequences of calls\<close>

datatype mem_call = Brk_call u64 | Munmap_call u64 u64 | Mmap_call u64 u64 u64 u64 u64 u64

record mem_event =
  ev_env :: mmap_env
  ev_files :: file_env
  ev_limits_env :: limits_env
  ev_limits :: limits_state
  ev_call :: mem_call

definition mem_exec :: "pid_t \<Rightarrow> mem_event \<Rightarrow> mm_struct \<Rightarrow> mm_struct option" where
  "mem_exec p e mm = (case ev_call e of
     Brk_call new_brk \<Rightarrow> map_option (snd \<circ> snd) (sys_brk (ev_env e) (ev_limits_env e) p new_brk (ev_limits e) mm)
   | Munmap_call addr len \<Rightarrow> map_option snd (munmap (ev_env e) addr len mm)
   | Mmap_call addr len prot flags fd pgoff \<Rightarrow> map_option (snd \<circ> snd)
       (mmap_pgoff (ev_env e) (ev_files e) (ev_limits_env e) p addr len prot flags fd pgoff (ev_limits e) mm))"

fun mem_run :: "('e \<Rightarrow> 'm \<Rightarrow> 'm option) \<Rightarrow> 'e list \<Rightarrow> 'm \<Rightarrow> 'm option" where
  "mem_run exec [] mm = Some mm"
| "mem_run exec (e # es) mm = (case exec e mm of None \<Rightarrow> None | Some mm' \<Rightarrow> mem_run exec es mm')"

text \<open>
  The interface: a call that is allowed returns, keeps the address space in order, and leaves it
  with no more memory than it had or than the bound.
\<close>

locale bounded_calls =
  fixes exec :: "'e \<Rightarrow> 'm \<Rightarrow> 'm option" and allowed :: "'e \<Rightarrow> bool" and good :: "'m \<Rightarrow> bool"
    and used :: "'m \<Rightarrow> nat" and bound :: nat
  assumes call: "allowed e \<Longrightarrow> good mm \<Longrightarrow>
    \<exists>mm'. exec e mm = Some mm' \<and> good mm' \<and> used mm' \<le> max (used mm) bound"
begin

lemma run_bounded:
  "\<forall>e \<in> set es. allowed e \<Longrightarrow> good mm \<Longrightarrow>
    \<exists>mm'. mem_run exec es mm = Some mm' \<and> good mm' \<and> used mm' \<le> max (used mm) bound"
proof (induction es arbitrary: mm)
  case (Cons e es)
  then obtain mm1 where one: "exec e mm = Some mm1" "good mm1" "used mm1 \<le> max (used mm) bound"
    using call [of e mm] by auto
  with Cons.IH [of mm1] Cons.prems(1) show ?case by fastforce
qed simp

end

section \<open>The calls of a limited process\<close>

text \<open>An address space in order, within user space, with a heap.\<close>

definition space_ok :: "u64 \<Rightarrow> mm_struct \<Rightarrow> bool" where
  "space_ok T mm \<longleftrightarrow> mm_ok mm \<and> (\<forall>x. mm_view mm x \<noteq> None \<longrightarrow> x < T) \<and> brk mm \<le> T \<and> brk mm \<noteq> 0
     \<and> start_brk mm \<noteq> 0 \<and> end_data mm \<noteq> 0"

text \<open>
  What holds at each call: the laws of the environment, user space ends at \<open>T\<close>, the limiter
  finds the process under its pid, and its limit is at most \<open>l\<close>.
\<close>

definition event_ok :: "u64 \<Rightarrow> pid_t \<Rightarrow> u64 \<Rightarrow> mem_event \<Rightarrow> bool" where
  "event_ok T p l e \<longleftrightarrow> task_size (ev_env e) = T \<and> map_laws (ev_env e) \<and> config_law (ev_env e)
     \<and> vm_mmap_pgoff_law (ev_env e) (ev_files e) \<and> hugetlb_law (ev_files e)
     \<and> (\<exists>t. find_task_by_vpid (ev_limits_env e) p = Some t \<and> pid t = p)
     \<and> limits_inv (ev_limits e) \<and> (\<exists>l'. limits_of (memory_list (ev_limits e)) p = Some l' \<and> l' \<le> l)"

definition used_bytes :: "mm_struct \<Rightarrow> nat" where
  "used_bytes mm = 4096 * unat (total_vm mm)"

definition page_round :: "u64 \<Rightarrow> nat" where
  "page_round l = (unat l + 4095) div 4096 * 4096"

lemma used_mono:
  assumes "mm_ok mm" and "mm_ok mm'" and "\<And>x. mm_view mm x = None \<Longrightarrow> mm_view mm' x = None"
  shows "used_bytes mm' \<le> used_bytes mm"
proof -
  have "x \<in> mapped_pages mm" if "x \<in> mapped_pages mm'" for x
    using that assms(3) [of x] by (cases "mm_view mm x") (simp_all add: mapped_pages_def)
  then have "mapped_pages mm' \<subseteq> mapped_pages mm" by (rule subsetI)
  then have "card (mapped_pages mm') \<le> card (mapped_pages mm)" by (simp add: card_mono)
  with assms(1,2) show ?thesis by (simp add: used_bytes_def unat_total_vm)
qed

lemma used_round:
  assumes "used_bytes mm < unat l' + 4096" and "l' \<le> l"
  shows "used_bytes mm \<le> page_round l"
proof -
  have "4096 * unat (total_vm mm) < unat l + 4096"
    using assms by (simp add: used_bytes_def word_le_nat_alt)
  then have "unat (total_vm mm) \<le> (unat l + 4095) div 4096" by linarith
  then show ?thesis by (simp add: used_bytes_def page_round_def)
qed

lemma brk_bounded:
  assumes e: "event_ok T p l e" and sp: "space_ok T mm"
  shows "\<exists>ret mm'. sys_brk (ev_env e) (ev_limits_env e) p new_brk (ev_limits e) mm = Some (ret, ev_limits e, mm')
    \<and> space_ok T mm' \<and> used_bytes mm' \<le> max (used_bytes mm) (page_round l)"
proof -
  let ?env = "ev_env e" and ?n = "PAGE_ALIGN new_brk" and ?o = "PAGE_ALIGN (brk mm)"
  have laws: "map_laws ?env" "config_law ?env" "limits_inv (ev_limits e)" "task_size ?env = T"
    using e by (simp_all add: event_ok_def)
  obtain t l' where t: "find_task_by_vpid (ev_limits_env e) p = Some t" "pid t = p"
    and l': "limits_of (memory_list (ev_limits e)) p = Some l'" "l' \<le> l"
    using e by (auto simp: event_ok_def)
  have s: "mm_ok mm" "\<And>x. mm_view mm x \<noteq> None \<Longrightarrow> x < T" "brk mm \<le> task_size ?env" "brk mm \<noteq> 0"
    using sp laws(4) by (simp_all add: space_ok_def)
  note d = map_lawsD [OF laws(1)]
  obtain ret mm' where run: "sys_brk ?env (ev_limits_env e) p new_brk (ev_limits e) mm = Some (ret, ev_limits e, mm')"
    and res: "ret = new_brk \<and> moves_brk ?env new_brk mm mm' \<and> min_brk ?env mm \<le> new_brk
         \<and> accepts (with_mm p mm (ev_limits_env e)) p (?n - ?o) (Some l')
       \<or> keeps_brk mm mm'"
    using sys_brk_spec [OF s(1) laws(3) d(1) laws(2) d(3,4) s(3,4), of "ev_limits_env e" p new_brk] l'(1) by auto
  show ?thesis
  proof (cases "keeps_brk mm mm'")
    case True
    then have "space_ok T mm'" "used_bytes mm' = used_bytes mm"
      using sp by (auto simp: keeps_brk_def space_ok_def same_layout_def used_bytes_def)
    with run show ?thesis by auto
  next
    case False
    with res have m: "moves_brk ?env new_brk mm mm'" "min_brk ?env mm \<le> new_brk"
        "accepts (with_mm p mm (ev_limits_env e)) p (?n - ?o) (Some l')" by auto
    have mv: "mm_ok mm'" "same_layout mm mm'" "brk mm' = new_brk" "new_brk \<le> T"
      and view: "\<And>x. mm_view mm' x = (if ?n \<le> x \<and> x < ?o then None
          else if ?o \<le> x \<and> x < ?n then Some (heap_kind (heap_flags ?env mm)) else mm_view mm x)"
      using m(1) laws(4) by (auto simp: moves_brk_def Let_def)
    have nz: "new_brk \<noteq> 0" using m(2) sp by (auto simp: min_brk_def space_ok_def split: if_splits)
    have Tal: "offset_in_page T = 0" "unat T + 4095 < 2 ^ 64" using d(5,6) laws(4) by auto
    have "?n \<le> T" by (rule PAGE_ALIGN_le(2) [OF mv(4) Tal])
    then have "mm_view mm' x \<noteq> None \<Longrightarrow> x < T" for x
      unfolding view using s(2) by (auto split: if_splits)
    then have good: "space_ok T mm'"
      using mv nz sp by (auto simp: space_ok_def same_layout_def)
    have "used_bytes mm' \<le> max (used_bytes mm) (page_round l)"
    proof (cases "?o < ?n")
      case True
      then have "used_bytes mm' < unat l' + 4096"
        using brk_within_limit [OF m(1) True t m(3)] by (simp add: used_bytes_def)
      then show ?thesis using used_round [OF _ l'(2)] by (simp add: le_max_iff_disj)
    next
      case False
      then have "used_bytes mm' \<le> used_bytes mm"
        by (intro used_mono [OF s(1) mv(1)]) (auto simp: view)
      then show ?thesis by simp
    qed
    with run good show ?thesis by blast
  qed
qed

lemma munmap_bounded:
  assumes e: "event_ok T p l e" and sp: "space_ok T mm"
  shows "\<exists>ret mm'. munmap (ev_env e) addr len mm = Some (ret, mm')
    \<and> space_ok T mm' \<and> used_bytes mm' \<le> used_bytes mm"
proof (cases "lock_killed (ev_env e) mm")
  case True
  then show ?thesis using sp by (simp add: munmap_def vm_munmap_locked_def)
next
  case False
  have d: "alloc_fresh (ev_env e)" "offset_in_page (task_size (ev_env e)) = 0"
    using e unfolding event_ok_def map_laws_def by blast+
  have ok: "mm_ok mm" using sp by (simp add: space_ok_def)
  let ?a = "untagged_addr (ev_env e) addr"
  obtain r mm' where run: "do_vmi_munmap (ev_env e) ?a len True mm = Some (r, mm')"
      "unmaps ?a (?a + PAGE_ALIGN len) mm r mm'"
    using do_vmi_munmap_spec [OF ok d] by blast
  have u: "mm_ok mm'" "only_counts mm mm'" "\<And>x. mm_view mm' x = None \<or> mm_view mm' x = mm_view mm x"
    using run(2) by (auto simp: unmaps_def)
  have "mm_view mm' x \<noteq> None \<Longrightarrow> x < T" for x
    using u(3) [of x] sp by (auto simp: space_ok_def)
  then have "space_ok T mm'"
    using u(1) sp only_counts_fields [OF u(2)] by (simp add: space_ok_def)
  moreover have "used_bytes mm' \<le> used_bytes mm"
    by (rule used_mono [OF ok u(1)]) (use u(3) in metis)
  ultimately show ?thesis
    using False run(1) by (simp add: munmap_def vm_munmap_locked_def)
qed

lemma mmap_bounded:
  assumes e: "event_ok T p l e" and sp: "space_ok T mm"
  shows "\<exists>ret mm'. mmap_pgoff (ev_env e) (ev_files e) (ev_limits_env e) p addr len prot flags fd pgoff (ev_limits e) mm
      = Some (ret, ev_limits e, mm')
    \<and> space_ok T mm' \<and> used_bytes mm' \<le> max (used_bytes mm) (page_round l)"
proof -
  let ?env = "ev_env e" and ?len = "source_len (ev_env e) (ev_files e) len flags fd"
  have laws: "map_laws ?env" "vm_mmap_pgoff_law ?env (ev_files e)" "hugetlb_law (ev_files e)"
      "limits_inv (ev_limits e)" "task_size ?env = T"
    using e by (simp_all add: event_ok_def)
  obtain t l' where t: "find_task_by_vpid (ev_limits_env e) p = Some t" "pid t = p"
    and l': "limits_of (memory_list (ev_limits e)) p = Some l'" "l' \<le> l"
    using e by (auto simp: event_ok_def)
  have ok: "mm_ok mm" and user: "user_space ?env mm"
    using sp laws(5) by (simp_all add: space_ok_def user_space_def)
  obtain ret mm' where run: "mmap_pgoff ?env (ev_files e) (ev_limits_env e) p addr len prot flags fd pgoff (ev_limits e) mm
        = Some (ret, ev_limits e, mm')"
      and res: "mmap_result ?env flags addr ?len mm ret mm'"
      and acc: "\<not> IS_ERR_VALUE ret \<Longrightarrow> accepts (with_mm p mm (ev_limits_env e)) p ?len (Some l')"
    using ksys_mmap_spec [OF ok laws(4,1-3), of "ev_limits_env e" p addr len prot flags fd pgoff] l'(1)
    unfolding mmap_pgoff_def by auto
  have r: "mm_ok mm'" "only_counts mm mm'" using res by (simp_all add: mmap_result_def)
  have goodI: "space_ok T mm'" if "\<And>x. mm_view mm' x \<noteq> None \<Longrightarrow> x < T"
    using that r(1) sp only_counts_fields [OF r(2)] by (simp add: space_ok_def)
  have below: "mm_view mm x \<noteq> None \<Longrightarrow> x < T" for x
    using sp by (simp add: space_ok_def)
  show ?thesis
  proof (cases "IS_ERR_VALUE ret")
    case True
    then have view: "mm_view mm' x = None \<or> mm_view mm' x = mm_view mm x" for x
      using res by (auto simp: mmap_result_def)
    have "space_ok T mm'"
      by (rule goodI) (use view below in metis)
    moreover have "used_bytes mm' \<le> used_bytes mm"
      by (rule used_mono [OF ok r(1)]) (use view in metis)
    ultimately show ?thesis using run by auto
  next
    case False
    then have new: "new_range ?env flags addr ?len mm ret"
      and view: "\<And>x. mm_view mm' x \<noteq> None \<Longrightarrow> x < ret + PAGE_ALIGN ?len \<or> mm_view mm x \<noteq> None"
      using res by (auto simp: mmap_result_def split: if_splits)
    have "ret + PAGE_ALIGN ?len \<le> T"
      using new range_no_wrap(2) [of "PAGE_ALIGN ?len" T ret] laws(5) by (simp add: new_range_def)
    then have "space_ok T mm'"
      by (intro goodI) (use view below in \<open>metis order_less_le_trans\<close>)
    moreover have "used_bytes mm' \<le> page_round l"
      using used_round [OF _ l'(2)] mmap_within_limit [OF ok laws(1) user res False t acc [OF False]]
      by (simp add: used_bytes_def)
    ultimately show ?thesis using run by auto
  qed
qed

interpretation limited: bounded_calls "mem_exec p" "event_ok T p l" "space_ok T" used_bytes "page_round l"
proof
  fix e mm
  assume "event_ok T p l e" "space_ok T mm"
  note b = brk_bounded [OF this] munmap_bounded [OF this] mmap_bounded [OF this]
  show "\<exists>mm'. mem_exec p e mm = Some mm' \<and> space_ok T mm' \<and> used_bytes mm' \<le> max (used_bytes mm) (page_round l)"
  proof (cases "ev_call e")
    case (Brk_call x)
    then show ?thesis using b(1) [of x] by (auto simp: mem_exec_def)
  next
    case (Munmap_call x y)
    then show ?thesis using b(2) [of x y] by (auto simp: mem_exec_def le_max_iff_disj)
  next
    case (Mmap_call a b c d f g)
    then show ?thesis using b(3) [of a b c d f g] by (auto simp: mem_exec_def)
  qed
qed

end
