(* ===== verification/Credentials.thy ===== *)
theory Credentials
  imports Kernel_Types
begin

text \<open>
  The user and group ids of a process and the calls of \<open>kernel/sys.c\<close> that set and read them.
  A call works on a copy of the credentials and installs it at the end, or drops it and
  leaves the process as it was. Kernel ids (\<open>kuid_t\<close>, \<open>kgid_t\<close>) are 32-bit words with the
  all-ones word invalid; their translation from and to the ids of a user namespace is part of
  the environment.
\<close>

section \<open>State\<close>

record cred =
  uid :: u32
  euid :: u32
  suid :: u32
  fsuid :: u32
  gid :: u32
  egid :: u32
  sgid :: u32
  fsgid :: u32
  user :: nat
  ucounts :: nat
  cred_security :: nat \<comment> \<open>capabilities and security module state\<close>

record cred_state =
  current_cred :: cred
  nproc_exceeded :: bool \<comment> \<open>\<open>PF_NPROC_EXCEEDED\<close>\<close>

datatype setid_cap = CAP_SETUID | CAP_SETGID

datatype lsm_setid = LSM_SETID_ID | LSM_SETID_RE | LSM_SETID_RES | LSM_SETID_FS

text \<open>
  What the calls ask of the rest of the kernel. The security hooks see the new and the old
  credentials and give a status and the new security state; \<open>alloc_uid\<close> gives the accounting
  structure of a user.
\<close>

record cred_env =
  make_kuid :: "u32 \<Rightarrow> u32"
  make_kgid :: "u32 \<Rightarrow> u32"
  from_kuid_munged :: "u32 \<Rightarrow> u32"
  from_kgid_munged :: "u32 \<Rightarrow> u32"
  prepare_creds_fails :: "cred_state \<Rightarrow> bool"
  ns_capable_setid :: "cred \<Rightarrow> setid_cap \<Rightarrow> bool"
  security_task_fix_setuid :: "cred \<Rightarrow> cred \<Rightarrow> lsm_setid \<Rightarrow> int \<times> nat"
  security_task_fix_setgid :: "cred \<Rightarrow> cred \<Rightarrow> lsm_setid \<Rightarrow> int \<times> nat"
  alloc_uid :: "u32 \<Rightarrow> nat option"
  set_cred_ucounts :: "cred \<Rightarrow> int \<times> nat"
  nproc_overlimit :: "nat \<Rightarrow> bool"
  init_user :: nat

abbreviation (input) NO_ID :: u32 where "NO_ID \<equiv> - 1"

definition id_valid :: "u32 \<Rightarrow> bool" where
  "id_valid k \<longleftrightarrow> k \<noteq> - 1"

section \<open>Installing credentials\<close>

definition commit_creds :: "cred \<Rightarrow> cred_state \<Rightarrow> int \<times> cred_state" where
  "commit_creds new s = (0, s\<lparr>current_cred := new\<rparr>)"

definition set_user :: "cred_env \<Rightarrow> cred \<Rightarrow> int \<times> cred" where
  "set_user env new = (case alloc_uid env (uid new) of
     None \<Rightarrow> (- EAGAIN, new)
   | Some new_user \<Rightarrow> (0, new\<lparr>user := new_user\<rparr>))"

definition flag_nproc_exceeded :: "cred_env \<Rightarrow> cred \<Rightarrow> cred_state \<Rightarrow> cred_state" where
  "flag_nproc_exceeded env new s =
    (if ucounts new = ucounts (current_cred s) then s
     else if nproc_overlimit env (ucounts new) \<and> user new \<noteq> init_user env
     then s\<lparr>nproc_exceeded := True\<rparr> else s\<lparr>nproc_exceeded := False\<rparr>)"

text \<open>The common end of the calls that set user ids, and of those that set group ids.\<close>

definition finish_setuid :: "cred_env \<Rightarrow> cred \<Rightarrow> lsm_setid \<Rightarrow> cred_state \<Rightarrow> int \<times> cred_state" where
  "finish_setuid env new flags s =
    (let (retval, sec) = security_task_fix_setuid env new (current_cred s) flags;
         new = new\<lparr>cred_security := sec\<rparr>
     in if retval < 0 then (retval, s)
        else
          (let (retval, uc) = set_cred_ucounts env new;
               new = new\<lparr>ucounts := uc\<rparr>
           in if retval < 0 then (retval, s)
              else commit_creds new (flag_nproc_exceeded env new s)))"

definition finish_setgid :: "cred_env \<Rightarrow> cred \<Rightarrow> lsm_setid \<Rightarrow> cred_state \<Rightarrow> int \<times> cred_state" where
  "finish_setgid env new flags s =
    (let (retval, sec) = security_task_fix_setgid env new (current_cred s) flags
     in if retval < 0 then (retval, s) else commit_creds (new\<lparr>cred_security := sec\<rparr>) s)"

section \<open>Group ids\<close>

text \<open>The ids that \<open>setregid\<close> and \<open>setresgid\<close> set.\<close>

definition re_gids :: "u32 \<Rightarrow> u32 \<Rightarrow> u32 \<Rightarrow> u32 \<Rightarrow> cred \<Rightarrow> cred" where
  "re_gids rgid' krgid egid' kegid old =
    (let new = (if rgid' \<noteq> NO_ID then old\<lparr>gid := krgid\<rparr> else old);
         new = (if egid' \<noteq> NO_ID then new\<lparr>egid := kegid\<rparr> else new);
         new = (if rgid' \<noteq> NO_ID \<or> (egid' \<noteq> NO_ID \<and> kegid \<noteq> gid old)
                then new\<lparr>sgid := egid new\<rparr> else new)
     in new\<lparr>fsgid := egid new\<rparr>)"

definition res_gids :: "u32 \<Rightarrow> u32 \<Rightarrow> u32 \<Rightarrow> u32 \<Rightarrow> u32 \<Rightarrow> u32 \<Rightarrow> cred \<Rightarrow> cred" where
  "res_gids rgid' krgid egid' kegid sgid' ksgid old =
    (let new = (if rgid' \<noteq> NO_ID then old\<lparr>gid := krgid\<rparr> else old);
         new = (if egid' \<noteq> NO_ID then new\<lparr>egid := kegid\<rparr> else new);
         new = (if sgid' \<noteq> NO_ID then new\<lparr>sgid := ksgid\<rparr> else new)
     in new\<lparr>fsgid := egid new\<rparr>)"

definition sys_setregid :: "cred_env \<Rightarrow> u32 \<Rightarrow> u32 \<Rightarrow> cred_state \<Rightarrow> int \<times> cred_state" where
  "sys_setregid env rgid' egid' s =
    (let krgid = make_kgid env rgid'; kegid = make_kgid env egid'; old = current_cred s
     in if rgid' \<noteq> NO_ID \<and> \<not> id_valid krgid then (- EINVAL, s)
        else if egid' \<noteq> NO_ID \<and> \<not> id_valid kegid then (- EINVAL, s)
        else if prepare_creds_fails env s then (- ENOMEM, s)
        else if rgid' \<noteq> NO_ID \<and> \<not> (gid old = krgid \<or> egid old = krgid \<or> ns_capable_setid env old CAP_SETGID)
        then (- EPERM, s)
        else if egid' \<noteq> NO_ID \<and> \<not> (gid old = kegid \<or> egid old = kegid \<or> sgid old = kegid
          \<or> ns_capable_setid env old CAP_SETGID)
        then (- EPERM, s)
        else finish_setgid env (re_gids rgid' krgid egid' kegid old) LSM_SETID_RE s)"

definition sys_setgid :: "cred_env \<Rightarrow> u32 \<Rightarrow> cred_state \<Rightarrow> int \<times> cred_state" where
  "sys_setgid env gid' s =
    (let kgid = make_kgid env gid'; old = current_cred s
     in if \<not> id_valid kgid then (- EINVAL, s)
        else if prepare_creds_fails env s then (- ENOMEM, s)
        else if ns_capable_setid env old CAP_SETGID
        then finish_setgid env (old\<lparr>gid := kgid, egid := kgid, sgid := kgid, fsgid := kgid\<rparr>) LSM_SETID_ID s
        else if kgid = gid old \<or> kgid = sgid old
        then finish_setgid env (old\<lparr>egid := kgid, fsgid := kgid\<rparr>) LSM_SETID_ID s
        else (- EPERM, s))"

definition sys_setresgid :: "cred_env \<Rightarrow> u32 \<Rightarrow> u32 \<Rightarrow> u32 \<Rightarrow> cred_state \<Rightarrow> int \<times> cred_state" where
  "sys_setresgid env rgid' egid' sgid' s =
    (let krgid = make_kgid env rgid'; kegid = make_kgid env egid'; ksgid = make_kgid env sgid';
         old = current_cred s;
         is_new = (\<lambda>g k. g \<noteq> NO_ID \<and> k \<noteq> gid old \<and> k \<noteq> egid old \<and> k \<noteq> sgid old)
     in if rgid' \<noteq> NO_ID \<and> \<not> id_valid krgid then (- EINVAL, s)
        else if egid' \<noteq> NO_ID \<and> \<not> id_valid kegid then (- EINVAL, s)
        else if sgid' \<noteq> NO_ID \<and> \<not> id_valid ksgid then (- EINVAL, s)
        else if (rgid' = NO_ID \<or> krgid = gid old)
          \<and> (egid' = NO_ID \<or> (kegid = egid old \<and> kegid = fsgid old))
          \<and> (sgid' = NO_ID \<or> ksgid = sgid old)
        then (0, s)
        else if (is_new rgid' krgid \<or> is_new egid' kegid \<or> is_new sgid' ksgid)
          \<and> \<not> ns_capable_setid env old CAP_SETGID
        then (- EPERM, s)
        else if prepare_creds_fails env s then (- ENOMEM, s)
        else finish_setgid env (res_gids rgid' krgid egid' kegid sgid' ksgid old) LSM_SETID_RES s)"

definition sys_setfsgid :: "cred_env \<Rightarrow> u32 \<Rightarrow> cred_state \<Rightarrow> u32 \<times> cred_state" where
  "sys_setfsgid env gid' s =
    (let old = current_cred s; old_fsgid = from_kgid_munged env (fsgid old); kgid = make_kgid env gid'
     in if \<not> id_valid kgid then (old_fsgid, s)
        else if prepare_creds_fails env s then (old_fsgid, s)
        else if (kgid = gid old \<or> kgid = egid old \<or> kgid = sgid old \<or> kgid = fsgid old
          \<or> ns_capable_setid env old CAP_SETGID) \<and> kgid \<noteq> fsgid old
        then
          (let new = old\<lparr>fsgid := kgid\<rparr>; (retval, sec) = security_task_fix_setgid env new old LSM_SETID_FS
           in if retval = 0 then (old_fsgid, snd (commit_creds (new\<lparr>cred_security := sec\<rparr>) s))
              else (old_fsgid, s))
        else (old_fsgid, s))"

section \<open>User ids\<close>

text \<open>A change of the real uid also changes the user that processes are counted for.\<close>

definition switch_user :: "cred_env \<Rightarrow> cred \<Rightarrow> cred \<Rightarrow> int \<times> cred" where
  "switch_user env old new = (if uid new \<noteq> uid old then set_user env new else (0, new))"

text \<open>The ids of \<open>setreuid\<close>: first real and effective, later saved and file system.\<close>

definition re_uids :: "u32 \<Rightarrow> u32 \<Rightarrow> u32 \<Rightarrow> u32 \<Rightarrow> cred \<Rightarrow> cred" where
  "re_uids ruid' kruid euid' keuid old =
    (let new = (if ruid' \<noteq> NO_ID then old\<lparr>uid := kruid\<rparr> else old)
     in if euid' \<noteq> NO_ID then new\<lparr>euid := keuid\<rparr> else new)"

definition saved_uids :: "u32 \<Rightarrow> u32 \<Rightarrow> u32 \<Rightarrow> cred \<Rightarrow> cred \<Rightarrow> cred" where
  "saved_uids ruid' euid' keuid old new =
    (let new = (if ruid' \<noteq> NO_ID \<or> (euid' \<noteq> NO_ID \<and> keuid \<noteq> uid old)
                then new\<lparr>suid := euid new\<rparr> else new)
     in new\<lparr>fsuid := euid new\<rparr>)"

definition sys_setreuid :: "cred_env \<Rightarrow> u32 \<Rightarrow> u32 \<Rightarrow> cred_state \<Rightarrow> int \<times> cred_state" where
  "sys_setreuid env ruid' euid' s =
    (let kruid = make_kuid env ruid'; keuid = make_kuid env euid'; old = current_cred s
     in if ruid' \<noteq> NO_ID \<and> \<not> id_valid kruid then (- EINVAL, s)
        else if euid' \<noteq> NO_ID \<and> \<not> id_valid keuid then (- EINVAL, s)
        else if prepare_creds_fails env s then (- ENOMEM, s)
        else if ruid' \<noteq> NO_ID \<and> uid old \<noteq> kruid \<and> euid old \<noteq> kruid \<and> \<not> ns_capable_setid env old CAP_SETUID
        then (- EPERM, s)
        else if euid' \<noteq> NO_ID \<and> uid old \<noteq> keuid \<and> euid old \<noteq> keuid \<and> suid old \<noteq> keuid
          \<and> \<not> ns_capable_setid env old CAP_SETUID
        then (- EPERM, s)
        else
          (let (retval, new) = switch_user env old (re_uids ruid' kruid euid' keuid old)
           in if retval < 0 then (retval, s)
              else finish_setuid env (saved_uids ruid' euid' keuid old new) LSM_SETID_RE s))"

definition sys_setuid :: "cred_env \<Rightarrow> u32 \<Rightarrow> cred_state \<Rightarrow> int \<times> cred_state" where
  "sys_setuid env uid' s =
    (let kuid = make_kuid env uid'; old = current_cred s
     in if \<not> id_valid kuid then (- EINVAL, s)
        else if prepare_creds_fails env s then (- ENOMEM, s)
        else if ns_capable_setid env old CAP_SETUID
        then
          (let (retval, new) = switch_user env old (old\<lparr>suid := kuid, uid := kuid\<rparr>)
           in if retval < 0 then (retval, s)
              else finish_setuid env (new\<lparr>fsuid := kuid, euid := kuid\<rparr>) LSM_SETID_ID s)
        else if kuid \<noteq> uid old \<and> kuid \<noteq> suid old then (- EPERM, s)
        else finish_setuid env (old\<lparr>fsuid := kuid, euid := kuid\<rparr>) LSM_SETID_ID s)"

text \<open>The rest of the ids of \<open>setresuid\<close>, once the real one is set.\<close>

definition res_uids :: "u32 \<Rightarrow> u32 \<Rightarrow> u32 \<Rightarrow> u32 \<Rightarrow> cred \<Rightarrow> cred" where
  "res_uids euid' keuid suid' ksuid new =
    (let new = (if euid' \<noteq> NO_ID then new\<lparr>euid := keuid\<rparr> else new);
         new = (if suid' \<noteq> NO_ID then new\<lparr>suid := ksuid\<rparr> else new)
     in new\<lparr>fsuid := euid new\<rparr>)"

definition sys_setresuid :: "cred_env \<Rightarrow> u32 \<Rightarrow> u32 \<Rightarrow> u32 \<Rightarrow> cred_state \<Rightarrow> int \<times> cred_state" where
  "sys_setresuid env ruid' euid' suid' s =
    (let kruid = make_kuid env ruid'; keuid = make_kuid env euid'; ksuid = make_kuid env suid';
         old = current_cred s;
         is_new = (\<lambda>u k. u \<noteq> NO_ID \<and> k \<noteq> uid old \<and> k \<noteq> euid old \<and> k \<noteq> suid old)
     in if ruid' \<noteq> NO_ID \<and> \<not> id_valid kruid then (- EINVAL, s)
        else if euid' \<noteq> NO_ID \<and> \<not> id_valid keuid then (- EINVAL, s)
        else if suid' \<noteq> NO_ID \<and> \<not> id_valid ksuid then (- EINVAL, s)
        else if (ruid' = NO_ID \<or> kruid = uid old)
          \<and> (euid' = NO_ID \<or> (keuid = euid old \<and> keuid = fsuid old))
          \<and> (suid' = NO_ID \<or> ksuid = suid old)
        then (0, s)
        else if (is_new ruid' kruid \<or> is_new euid' keuid \<or> is_new suid' ksuid)
          \<and> \<not> ns_capable_setid env old CAP_SETUID
        then (- EPERM, s)
        else if prepare_creds_fails env s then (- ENOMEM, s)
        else
          (let (retval, new) = (if ruid' \<noteq> NO_ID then switch_user env old (old\<lparr>uid := kruid\<rparr>) else (0, old))
           in if retval < 0 then (retval, s)
              else finish_setuid env (res_uids euid' keuid suid' ksuid new) LSM_SETID_RES s))"

definition sys_setfsuid :: "cred_env \<Rightarrow> u32 \<Rightarrow> cred_state \<Rightarrow> u32 \<times> cred_state" where
  "sys_setfsuid env uid' s =
    (let old = current_cred s; old_fsuid = from_kuid_munged env (fsuid old); kuid = make_kuid env uid'
     in if \<not> id_valid kuid then (old_fsuid, s)
        else if prepare_creds_fails env s then (old_fsuid, s)
        else if (kuid = uid old \<or> kuid = euid old \<or> kuid = suid old \<or> kuid = fsuid old
          \<or> ns_capable_setid env old CAP_SETUID) \<and> kuid \<noteq> fsuid old
        then
          (let new = old\<lparr>fsuid := kuid\<rparr>; (retval, sec) = security_task_fix_setuid env new old LSM_SETID_FS
           in if retval = 0 then (old_fsuid, snd (commit_creds (new\<lparr>cred_security := sec\<rparr>) s))
              else (old_fsuid, s))
        else (old_fsuid, s))"

section \<open>Reading ids\<close>

text \<open>
  \<open>put_user\<close> stores one id at a user address: its status and the resulting memory. The three
  results are stored in order until one store fails.
\<close>

type_synonym put_user32 = "u64 \<Rightarrow> u32 \<Rightarrow> umem \<Rightarrow> int \<times> umem"

definition put_three :: "put_user32 \<Rightarrow> u64 \<times> u32 \<Rightarrow> u64 \<times> u32 \<Rightarrow> u64 \<times> u32 \<Rightarrow> umem \<Rightarrow> int \<times> umem" where
  "put_three put_user a b c m =
    (let (retval, m) = put_user (fst a) (snd a) m
     in if retval \<noteq> 0 then (retval, m)
        else
          (let (retval, m) = put_user (fst b) (snd b) m
           in if retval \<noteq> 0 then (retval, m) else put_user (fst c) (snd c) m))"

definition sys_getresuid ::
  "cred_env \<Rightarrow> put_user32 \<Rightarrow> u64 \<Rightarrow> u64 \<Rightarrow> u64 \<Rightarrow> cred_state \<Rightarrow> umem \<Rightarrow> int \<times> umem" where
  "sys_getresuid env put_user ruidp euidp suidp s m =
    (let cred = current_cred s; f = from_kuid_munged env
     in put_three put_user (ruidp, f (uid cred)) (euidp, f (euid cred)) (suidp, f (suid cred)) m)"

definition sys_getresgid ::
  "cred_env \<Rightarrow> put_user32 \<Rightarrow> u64 \<Rightarrow> u64 \<Rightarrow> u64 \<Rightarrow> cred_state \<Rightarrow> umem \<Rightarrow> int \<times> umem" where
  "sys_getresgid env put_user rgidp egidp sgidp s m =
    (let cred = current_cred s; f = from_kgid_munged env
     in put_three put_user (rgidp, f (gid cred)) (egidp, f (egid cred)) (sgidp, f (sgid cred)) m)"

definition sys_getuid :: "cred_env \<Rightarrow> cred_state \<Rightarrow> u32" where
  "sys_getuid env s = from_kuid_munged env (uid (current_cred s))"

definition sys_geteuid :: "cred_env \<Rightarrow> cred_state \<Rightarrow> u32" where
  "sys_geteuid env s = from_kuid_munged env (euid (current_cred s))"

definition sys_getgid :: "cred_env \<Rightarrow> cred_state \<Rightarrow> u32" where
  "sys_getgid env s = from_kgid_munged env (gid (current_cred s))"

definition sys_getegid :: "cred_env \<Rightarrow> cred_state \<Rightarrow> u32" where
  "sys_getegid env s = from_kgid_munged env (egid (current_cred s))"

section \<open>Sequences of calls\<close>

datatype cred_call =
    SetReGid u32 u32 | SetGid u32 | SetResGid u32 u32 u32 | SetFsGid u32
  | SetReUid u32 u32 | SetUid u32 | SetResUid u32 u32 u32 | SetFsUid u32

fun exec_cred :: "cred_env \<Rightarrow> cred_call \<Rightarrow> cred_state \<Rightarrow> cred_state" where
  "exec_cred env (SetReGid r e) s = snd (sys_setregid env r e s)"
| "exec_cred env (SetGid g) s = snd (sys_setgid env g s)"
| "exec_cred env (SetResGid r e v) s = snd (sys_setresgid env r e v s)"
| "exec_cred env (SetFsGid g) s = snd (sys_setfsgid env g s)"
| "exec_cred env (SetReUid r e) s = snd (sys_setreuid env r e s)"
| "exec_cred env (SetUid u) s = snd (sys_setuid env u s)"
| "exec_cred env (SetResUid r e v) s = snd (sys_setresuid env r e v s)"
| "exec_cred env (SetFsUid u) s = snd (sys_setfsuid env u s)"

text \<open>
  A system whose every step keeps a set of things within what it was: so does every sequence
  of steps.
\<close>

locale shrinking =
  fixes step :: "'c \<Rightarrow> 's \<Rightarrow> 's" and held :: "'s \<Rightarrow> 'i set"
  assumes step_held: "held (step c s) \<subseteq> held s"
begin

lemma run_held: "held (fold step cs s) \<subseteq> held s"
proof (induction cs arbitrary: s)
  case (Cons c cs)
  then show ?case
    using step_held [of c s] by fastforce
qed simp

end

definition user_ids :: "cred_state \<Rightarrow> u32 set" where
  "user_ids s = (let c = current_cred s in {uid c, euid c, suid c})"

definition group_ids :: "cred_state \<Rightarrow> u32 set" where
  "group_ids s = (let c = current_cred s in {gid c, egid c, sgid c})"

text \<open>All ids of a process, tagged with their kind.\<close>

definition all_ids :: "cred_state \<Rightarrow> (u32 + u32) set" where
  "all_ids s = (let c = current_cred s in
     Inl ` {uid c, euid c, suid c, fsuid c} \<union> Inr ` {gid c, egid c, sgid c, fsgid c})"

text \<open>The environment of a process that holds neither \<open>CAP_SETUID\<close> nor \<open>CAP_SETGID\<close>.\<close>

definition unprivileged :: "cred_env \<Rightarrow> cred_env" where
  "unprivileged env = env\<lparr>ns_capable_setid := \<lambda>_ _. False\<rparr>"

section \<open>What a call may do\<close>

text \<open>Two credentials with the same ids.\<close>

definition same_ids :: "cred \<Rightarrow> cred \<Rightarrow> bool" where
  "same_ids c d \<longleftrightarrow> uid c = uid d \<and> euid c = euid d \<and> suid c = suid d \<and> fsuid c = fsuid d
     \<and> gid c = gid d \<and> egid c = egid d \<and> sgid c = sgid d \<and> fsgid c = fsgid d"

text \<open>A call fails and changes nothing, or succeeds and installs credentials with the ids of \<open>new\<close>.\<close>

definition installs :: "cred \<Rightarrow> cred_state \<Rightarrow> int \<times> cred_state \<Rightarrow> bool" where
  "installs new s x \<longleftrightarrow> fst x < 0 \<and> snd x = s \<or> fst x = 0 \<and> same_ids (current_cred (snd x)) new"

lemma finish_setuid_installs: "installs new s (finish_setuid env new f s)"
  by (auto simp: installs_def finish_setuid_def commit_creds_def same_ids_def case_prod_beta Let_def)

lemma finish_setgid_installs: "installs new s (finish_setgid env new f s)"
  by (auto simp: installs_def finish_setgid_def commit_creds_def same_ids_def case_prod_beta Let_def)

lemma switch_user_ids: "same_ids (snd (switch_user env old new)) new"
  by (auto simp: switch_user_def set_user_def same_ids_def split: option.splits)

lemma switch_user_ret: "fst (switch_user env old new) \<le> 0"
  by (auto simp: switch_user_def set_user_def split: option.splits)

lemma installs_same: "installs new s x \<Longrightarrow> same_ids new new' \<Longrightarrow> installs new' s x"
  by (auto simp: installs_def same_ids_def)

section \<open>Processes without privilege\<close>

text \<open>The ids in \<open>s'\<close> are among those in \<open>s\<close>, kind by kind.\<close>

definition no_new_ids :: "cred_state \<Rightarrow> cred_state \<Rightarrow> bool" where
  "no_new_ids s s' \<longleftrightarrow> user_ids s' \<subseteq> user_ids s \<and> group_ids s' \<subseteq> group_ids s \<and> all_ids s' \<subseteq> all_ids s"

lemma no_new_ids_refl [simp]: "no_new_ids s s"
  by (simp add: no_new_ids_def)

definition uids_of :: "cred \<Rightarrow> u32 set" where
  "uids_of c = {uid c, euid c, suid c}"

definition gids_of :: "cred \<Rightarrow> u32 set" where
  "gids_of c = {gid c, egid c, sgid c}"

lemma uids_of_mem [simp]: "uid c \<in> uids_of c" "euid c \<in> uids_of c" "suid c \<in> uids_of c"
  by (simp_all add: uids_of_def)

lemma gids_of_mem [simp]: "gid c \<in> gids_of c" "egid c \<in> gids_of c" "sgid c \<in> gids_of c"
  by (simp_all add: gids_of_def)

definition ids_from :: "cred \<Rightarrow> cred \<Rightarrow> bool" where
  "ids_from c new \<longleftrightarrow> uid new \<in> uids_of c \<and> euid new \<in> uids_of c \<and> suid new \<in> uids_of c
     \<and> gid new \<in> gids_of c \<and> egid new \<in> gids_of c \<and> sgid new \<in> gids_of c
     \<and> fsuid new \<in> insert (fsuid c) (uids_of c) \<and> fsgid new \<in> insert (fsgid c) (gids_of c)"

lemma no_new_ids_from: "ids_from (current_cred s) (current_cred s') \<Longrightarrow> no_new_ids s s'"
  by (auto simp: no_new_ids_def ids_from_def user_ids_def group_ids_def all_ids_def Let_def uids_of_def
      gids_of_def)

lemma ids_from_same: "same_ids c new \<Longrightarrow> ids_from d new \<Longrightarrow> ids_from d c"
  by (simp add: ids_from_def same_ids_def)

lemma no_new_installs: "installs new s x \<Longrightarrow> ids_from (current_cred s) new \<Longrightarrow> no_new_ids s (snd x)"
  unfolding installs_def using ids_from_same no_new_ids_from no_new_ids_refl by metis

lemma ids_from_switch: "ids_from c new \<Longrightarrow> ids_from c (snd (switch_user env old new))"
  using switch_user_ids [of env old new] by (simp add: ids_from_def same_ids_def)

lemmas no_new_finish = no_new_installs [OF finish_setuid_installs] no_new_installs [OF finish_setgid_installs]

text \<open>The ids each computation sets, when they passed the checks made without privilege.\<close>

lemma re_gids_from:
  assumes "r \<noteq> NO_ID \<longrightarrow> kr \<in> gids_of old" and "e \<noteq> NO_ID \<longrightarrow> ke \<in> gids_of old"
  shows "ids_from old (re_gids r kr e ke old)"
  using assms by (simp add: ids_from_def re_gids_def Let_def)

lemma res_gids_from:
  assumes "r \<noteq> NO_ID \<longrightarrow> kr \<in> gids_of old" and "e \<noteq> NO_ID \<longrightarrow> ke \<in> gids_of old"
    and "v \<noteq> NO_ID \<longrightarrow> kv \<in> gids_of old"
  shows "ids_from old (res_gids r kr e ke v kv old)"
  using assms by (simp add: ids_from_def res_gids_def Let_def)

lemma re_uids_from:
  assumes "r \<noteq> NO_ID \<longrightarrow> kr \<in> uids_of old" and "e \<noteq> NO_ID \<longrightarrow> ke \<in> uids_of old"
  shows "ids_from old (re_uids r kr e ke old)"
  using assms by (simp add: ids_from_def re_uids_def Let_def)

lemma saved_uids_from: "ids_from old new \<Longrightarrow> ids_from old (saved_uids r e ke old new)"
  by (simp add: ids_from_def saved_uids_def Let_def)

lemma res_uids_from:
  assumes "ids_from old new" and "e \<noteq> NO_ID \<longrightarrow> ke \<in> uids_of old" and "v \<noteq> NO_ID \<longrightarrow> kv \<in> uids_of old"
  shows "ids_from old (res_uids e ke v kv new)"
  using assms by (simp add: ids_from_def res_uids_def Let_def)

lemma unprivileged_simps [simp]:
  "ns_capable_setid (unprivileged env) c cap = False"
  "make_kuid (unprivileged env) = make_kuid env" "make_kgid (unprivileged env) = make_kgid env"
  by (simp_all add: unprivileged_def)

lemma no_new_if:
  "(b \<Longrightarrow> no_new_ids s (snd x)) \<Longrightarrow> (\<not> b \<Longrightarrow> no_new_ids s (snd y)) \<Longrightarrow> no_new_ids s (snd (if b then x else y))"
  by simp

lemma no_new_err: "no_new_ids s (snd (r, s))"
  by simp

lemma setregid_no_new: "no_new_ids s (snd (sys_setregid (unprivileged env) r e s))"
  unfolding sys_setregid_def Let_def unprivileged_simps
  by (intro no_new_if no_new_err no_new_finish re_gids_from) (auto simp: gids_of_def)

lemma setgid_no_new: "no_new_ids s (snd (sys_setgid (unprivileged env) g s))"
  unfolding sys_setgid_def Let_def unprivileged_simps
  by (intro no_new_if no_new_err no_new_finish) (simp_all add: ids_from_def, (metis gids_of_mem)+)

lemma setresgid_no_new: "no_new_ids s (snd (sys_setresgid (unprivileged env) r e v s))"
  unfolding sys_setresgid_def Let_def unprivileged_simps
  by (intro no_new_if no_new_err no_new_finish res_gids_from) (auto simp: gids_of_def)

lemma setfsgid_no_new: "no_new_ids s (snd (sys_setfsgid (unprivileged env) g s))"
  unfolding sys_setfsgid_def Let_def unprivileged_simps case_prod_beta commit_creds_def snd_conv
  by (intro no_new_if no_new_err no_new_ids_from) (simp_all add: ids_from_def gids_of_def, blast)

lemma setfsuid_no_new: "no_new_ids s (snd (sys_setfsuid (unprivileged env) u s))"
  unfolding sys_setfsuid_def Let_def unprivileged_simps case_prod_beta commit_creds_def snd_conv
  by (intro no_new_if no_new_err no_new_ids_from) (simp_all add: ids_from_def uids_of_def, blast)

lemma setreuid_no_new: "no_new_ids s (snd (sys_setreuid (unprivileged env) r e s))"
  unfolding sys_setreuid_def Let_def unprivileged_simps case_prod_beta
  by (intro no_new_if no_new_err no_new_finish saved_uids_from ids_from_switch re_uids_from)
      (auto simp: uids_of_def)

lemma setuid_no_new: "no_new_ids s (snd (sys_setuid (unprivileged env) u s))"
  unfolding sys_setuid_def Let_def unprivileged_simps case_prod_beta
  by (intro no_new_if no_new_err no_new_finish) (simp_all add: ids_from_def, (metis uids_of_mem)+)

lemma setresuid_no_new: "no_new_ids s (snd (sys_setresuid (unprivileged env) r e v s))"
proof -
  have switched: "ids_from old (snd (if r \<noteq> NO_ID then switch_user env' old (old\<lparr>uid := k\<rparr>) else (0, old)))"
    if "r \<noteq> NO_ID \<longrightarrow> k \<in> uids_of old" for env' k old
  proof (cases "r = NO_ID")
    case False
    with that have "ids_from old (old\<lparr>uid := k\<rparr>)"
      by (simp add: ids_from_def)
    with False show ?thesis
      by (simp add: ids_from_switch)
  qed (simp add: ids_from_def)
  show ?thesis
    unfolding sys_setresuid_def Let_def unprivileged_simps case_prod_beta
    by (intro no_new_if no_new_err no_new_finish res_uids_from switched) (auto simp: uids_of_def)
qed

lemma exec_no_new: "no_new_ids s (exec_cred (unprivileged env) c s)"
  by (cases c) (simp_all add: setregid_no_new setgid_no_new setresgid_no_new setfsgid_no_new setfsuid_no_new setreuid_no_new
      setuid_no_new setresuid_no_new)

interpretation user_held: shrinking "exec_cred (unprivileged env)" user_ids for env
  by unfold_locales (use exec_no_new no_new_ids_def in blast)

interpretation group_held: shrinking "exec_cred (unprivileged env)" group_ids for env
  by unfold_locales (use exec_no_new no_new_ids_def in blast)

interpretation id_held: shrinking "exec_cred (unprivileged env)" all_ids for env
  by unfold_locales (use exec_no_new no_new_ids_def in blast)

section \<open>Failure and success\<close>

lemma installs_ret: "installs new s x \<Longrightarrow> fst x = 0 \<or> snd x = s"
  by (auto simp: installs_def)

lemma same_ids_refl: "same_ids c c"
  by (simp add: same_ids_def)

text \<open>An outcome that is an error with nothing changed, or has a property \<open>P\<close>.\<close>

definition or_error :: "(int \<times> cred_state \<Rightarrow> bool) \<Rightarrow> cred_state \<Rightarrow> int \<times> cred_state \<Rightarrow> bool" where
  "or_error P s x \<longleftrightarrow> fst x < 0 \<and> snd x = s \<or> P x"

lemma or_error_if:
  "(b \<Longrightarrow> or_error P s x) \<Longrightarrow> (\<not> b \<Longrightarrow> or_error P s y) \<Longrightarrow> or_error P s (if b then x else y)"
  by simp

lemma or_error_same: "r < 0 \<or> P (r, s) \<Longrightarrow> or_error P s (r, s)"
  by (simp add: or_error_def)

lemma or_error_finish:
  assumes "\<And>s'. same_ids (current_cred s') new \<Longrightarrow> P (0, s')"
  shows "or_error P s (finish_setuid env new f s)" "or_error P s (finish_setgid env new f s)"
  using finish_setuid_installs [of new s env f] finish_setgid_installs [of new s env f] assms
  unfolding installs_def or_error_def by (metis prod.collapse)+

lemmas or_error_intros = or_error_if or_error_same or_error_finish

lemma setid_or_error:
  fixes env :: cred_env and s :: cred_state
  defines "ok \<equiv> or_error (\<lambda>x. fst x = 0) s"
  shows "ok (sys_setregid env r e s)" "ok (sys_setgid env r s)" "ok (sys_setresgid env r e v s)"
    "ok (sys_setreuid env r e s)" "ok (sys_setuid env r s)" "ok (sys_setresuid env r e v s)"
  unfolding ok_def sys_setregid_def sys_setgid_def sys_setresgid_def sys_setreuid_def sys_setuid_def
    sys_setresuid_def Let_def case_prod_beta
  by (intro or_error_intros; simp)+

text \<open>What a successful \<open>setresuid\<close> leaves: the ids asked for, the others as they were.\<close>

definition resuid_result :: "cred_env \<Rightarrow> u32 \<Rightarrow> u32 \<Rightarrow> u32 \<Rightarrow> cred_state \<Rightarrow> int \<times> cred_state \<Rightarrow> bool" where
  "resuid_result env r e v s x \<longleftrightarrow>
    (let old = current_cred s; new = current_cred (snd x); want = (\<lambda>i k. if i = NO_ID then k else make_kuid env i)
     in fst x = 0 \<and> uid new = want r (uid old) \<and> euid new = want e (euid old) \<and> suid new = want v (suid old)
        \<and> (fsuid new = euid new \<or> e = NO_ID \<and> snd x = s)
        \<and> gid new = gid old \<and> egid new = egid old \<and> sgid new = sgid old \<and> fsgid new = fsgid old)"

lemma setresuid_result: "or_error (resuid_result env r e v s) s (sys_setresuid env r e v s)"
proof -
  let ?old = "current_cred s" and ?k = "make_kuid env"
  let ?new = "snd (if r \<noteq> NO_ID then switch_user env ?old (?old\<lparr>uid := ?k r\<rparr>) else (0, ?old))"
  have set: "resuid_result env r e v s (0, s')"
    if "same_ids (current_cred s') (res_uids e (?k e) v (?k v) ?new)" for s'
    using that switch_user_ids [of env ?old "?old\<lparr>uid := ?k r\<rparr>"]
    by (cases "r = NO_ID"; simp add: resuid_result_def same_ids_def res_uids_def Let_def)
  show ?thesis
    unfolding sys_setresuid_def Let_def case_prod_beta
    by (intro or_error_intros; (rule set)?; (simp add: resuid_result_def)?; auto?)
qed

text \<open>What a call that sets a file-system id may do.\<close>

definition sets_fsgid :: "cred_env \<Rightarrow> u32 \<Rightarrow> cred_state \<Rightarrow> cred_state \<Rightarrow> bool" where
  "sets_fsgid env k s s' \<longleftrightarrow> id_valid k
     \<and> (k \<in> {gid (current_cred s), egid (current_cred s), sgid (current_cred s)}
         \<or> ns_capable_setid env (current_cred s) CAP_SETGID)
     \<and> (\<exists>sec. s' = s\<lparr>current_cred := (current_cred s)\<lparr>fsgid := k, cred_security := sec\<rparr>\<rparr>)"

definition sets_fsuid :: "cred_env \<Rightarrow> u32 \<Rightarrow> cred_state \<Rightarrow> cred_state \<Rightarrow> bool" where
  "sets_fsuid env k s s' \<longleftrightarrow> id_valid k
     \<and> (k \<in> {uid (current_cred s), euid (current_cred s), suid (current_cred s)}
         \<or> ns_capable_setid env (current_cred s) CAP_SETUID)
     \<and> (\<exists>sec. s' = s\<lparr>current_cred := (current_cred s)\<lparr>fsuid := k, cred_security := sec\<rparr>\<rparr>)"

section \<open>Properties\<close>

text \<open>Example values: one user namespace with the identity translation, a root process.\<close>

definition plain_cred_env :: cred_env where
  "plain_cred_env = \<lparr>make_kuid = (\<lambda>u. u), make_kgid = (\<lambda>g. g), from_kuid_munged = (\<lambda>u. u),
     from_kgid_munged = (\<lambda>g. g), prepare_creds_fails = (\<lambda>_. False),
     ns_capable_setid = (\<lambda>c _. euid c = 0), security_task_fix_setuid = (\<lambda>new _ _. (0, cred_security new)),
     security_task_fix_setgid = (\<lambda>new _ _. (0, cred_security new)), alloc_uid = (\<lambda>u. Some (unat u)),
     set_cred_ucounts = (\<lambda>new. (0, user new)), nproc_overlimit = (\<lambda>_. False), init_user = 0\<rparr>"

definition root_state :: cred_state where
  "root_state = \<lparr>current_cred = \<lparr>uid = 0, euid = 0, suid = 0, fsuid = 0, gid = 0, egid = 0, sgid = 0,
     fsgid = 0, user = 0, ucounts = 0, cred_security = 0\<rparr>, nproc_exceeded = False\<rparr>"

text \<open>
  C20: A process without the capabilities to set ids never acquires one: after any sequence of
  the eight calls, whatever their arguments, its real, effective and saved user ids are among
  those it had, and so are its group ids and its ids with the file-system ids included.
\<close>

theorem unprivileged_ids_never_grow:
  "user_ids (fold (exec_cred (unprivileged env)) cs s) \<subseteq> user_ids s
   \<and> group_ids (fold (exec_cred (unprivileged env)) cs s) \<subseteq> group_ids s
   \<and> all_ids (fold (exec_cred (unprivileged env)) cs s) \<subseteq> all_ids s"
  by (intro conjI user_held.run_held group_held.run_held id_held.run_held)

text \<open>
  C21: The calls that set real, effective and saved ids return 0 or a negative error, and with
  an error the credentials and the process-count flag are as before, also when the user had
  already been switched. The calls that set a file-system id always return the previous one, and
  change nothing, or set that id alone to a valid id that the process has or may take.
\<close>

theorem failed_setid_changes_nothing:
  "(\<forall>x \<in> {sys_setregid env r e s, sys_setgid env r s, sys_setresgid env r e v s, sys_setreuid env r e s,
      sys_setuid env r s, sys_setresuid env r e v s}. fst x < 0 \<and> snd x = s \<or> fst x = 0)
   \<and> fst (sys_setfsgid env r s) = from_kgid_munged env (fsgid (current_cred s))
   \<and> (snd (sys_setfsgid env r s) = s \<or> sets_fsgid env (make_kgid env r) s (snd (sys_setfsgid env r s)))
   \<and> fst (sys_setfsuid env r s) = from_kuid_munged env (fsuid (current_cred s))
   \<and> (snd (sys_setfsuid env r s) = s \<or> sets_fsuid env (make_kuid env r) s (snd (sys_setfsuid env r s)))"
proof (intro conjI)
  show "\<forall>x \<in> {sys_setregid env r e s, sys_setgid env r s, sys_setresgid env r e v s, sys_setreuid env r e s,
      sys_setuid env r s, sys_setresuid env r e v s}. fst x < 0 \<and> snd x = s \<or> fst x = 0"
    using setid_or_error [of s env] unfolding or_error_def by blast
qed (auto simp: sys_setfsgid_def sys_setfsuid_def sets_fsgid_def sets_fsuid_def commit_creds_def Let_def case_prod_beta)

theorem failed_setid_changes_nothing_witness:
  "fst (sys_setuid (unprivileged plain_cred_env) 7 root_state) = - EPERM
   \<and> snd (sys_setuid (unprivileged plain_cred_env) 7 root_state) = root_state"
proof -
  let ?x = "sys_setuid (unprivileged plain_cred_env) 7 root_state"
  have "fst ?x = - EPERM"
    by (simp add: sys_setuid_def plain_cred_env_def unprivileged_def root_state_def id_valid_def Let_def)
  moreover have "fst ?x < 0 \<and> snd ?x = root_state \<or> fst ?x = 0"
    using failed_setid_changes_nothing [THEN conjunct1, of "unprivileged plain_cred_env" 7 0 root_state 0] by blast
  ultimately show ?thesis by simp
qed

text \<open>
  C22: \<open>setresuid\<close> returns a negative error and changes nothing, or it returns 0 and every id
  given is set to its kernel id, every id given as -1 is as before and no group id has
  changed. The file-system id then equals the effective one, except where the call had nothing
  to do and left the credentials alone.
\<close>

theorem setresuid_sets_ids:
  "sys_setresuid env r e v s = x \<Longrightarrow> fst x < 0 \<and> snd x = s \<or> resuid_result env r e v s x"
  using setresuid_result [of env r e v s] by (simp add: or_error_def)

theorem setresuid_sets_ids_witness:
  "resuid_result plain_cred_env 5 NO_ID 6 root_state (sys_setresuid plain_cred_env 5 NO_ID 6 root_state)"
proof -
  have "\<not> fst (sys_setresuid plain_cred_env 5 NO_ID 6 root_state) < 0"
    by (simp add: sys_setresuid_def plain_cred_env_def root_state_def id_valid_def Let_def switch_user_def
        set_user_def finish_setuid_def commit_creds_def)
  with setresuid_sets_ids [OF refl, of plain_cred_env 5 NO_ID 6 root_state] show ?thesis
    by blast
qed

text \<open>
  C23: Dropping privileges is permanent. When a process with \<open>CAP_SETUID\<close> succeeds in
  \<open>setuid\<close>, its three user ids become the one asked for, and no later sequence of calls made
  without the capabilities sets any of them to something else.
\<close>

theorem setuid_drop_is_permanent:
  assumes "ns_capable_setid env (current_cred s) CAP_SETUID" and "sys_setuid env u s = (0, s')"
  shows "user_ids (fold (exec_cred (unprivileged env)) cs s') = {make_kuid env u}"
proof -
  have "or_error (\<lambda>x. user_ids (snd x) = {make_kuid env u}) s (sys_setuid env u s)"
    using assms(1) switch_user_ids [of env "current_cred s"
        "current_cred s\<lparr>suid := make_kuid env u, uid := make_kuid env u\<rparr>"]
    unfolding sys_setuid_def Let_def case_prod_beta
    by (intro or_error_intros; simp add: user_ids_def same_ids_def Let_def)
  with assms(2) have "user_ids s' = {make_kuid env u}"
    by (simp add: or_error_def)
  moreover have "user_ids (fold (exec_cred (unprivileged env)) cs s') \<subseteq> user_ids s'"
    by (rule user_held.run_held)
  moreover have "user_ids t \<noteq> {}" for t
    by (simp add: user_ids_def Let_def)
  ultimately show ?thesis by (metis subset_singleton_iff)
qed

theorem setuid_drop_is_permanent_witness:
  "user_ids (fold (exec_cred (unprivileged plain_cred_env)) [SetUid 0, SetResUid 0 0 0]
     (snd (sys_setuid plain_cred_env 7 root_state))) = {7}"
proof -
  let ?x = "sys_setuid plain_cred_env 7 root_state"
  have "?x = (0, snd ?x)"
    by (simp add: sys_setuid_def plain_cred_env_def root_state_def id_valid_def Let_def switch_user_def
        set_user_def finish_setuid_def commit_creds_def)
  moreover have "ns_capable_setid plain_cred_env (current_cred root_state) CAP_SETUID"
    by (simp add: plain_cred_env_def root_state_def)
  moreover have "make_kuid plain_cred_env 7 = 7"
    by (simp add: plain_cred_env_def)
  ultimately show ?thesis
    using setuid_drop_is_permanent by metis
qed

end
