(* ===== verification/Resource_Limits.thy ===== *)
theory Resource_Limits
  imports Credentials
begin

text \<open>
  The resource limits of \<open>kernel/sys.c\<close>: \<open>getrlimit\<close>, \<open>setrlimit\<close> and \<open>prlimit64\<close>, the calls for
  32-bit programs and the old ones that clamp. Limits belong to a thread group, named by its
  signal structure; tasks are named by numbers. Constants and sizes are those of x86-64.
\<close>

section \<open>State\<close>

record rlimit =
  rlim_cur :: u64
  rlim_max :: u64

record rlim_state =
  signal_rlim :: "nat \<Rightarrow> u32 \<Rightarrow> rlimit"
  cpu_timers :: "(nat \<times> u64) list" \<comment> \<open>calls of \<open>update_rlimit_cpu\<close>\<close>

abbreviation (input) RLIM_NLIMITS :: u32 where "RLIM_NLIMITS \<equiv> 16"
abbreviation (input) RLIMIT_CPU :: u32 where "RLIMIT_CPU \<equiv> 0"
abbreviation (input) RLIMIT_NOFILE :: u32 where "RLIMIT_NOFILE \<equiv> 7"
abbreviation (input) RLIM_INFINITY :: u64 where "RLIM_INFINITY \<equiv> - 1"
abbreviation (input) COMPAT_RLIM_INFINITY :: u32 where "COMPAT_RLIM_INFINITY \<equiv> 0xffffffff"
abbreviation (input) LSM_PRLIMIT_READ :: u32 where "LSM_PRLIMIT_READ \<equiv> 1"
abbreviation (input) LSM_PRLIMIT_WRITE :: u32 where "LSM_PRLIMIT_WRITE \<equiv> 2"

text \<open>
  What the calls ask of the rest of the kernel. \<open>copy_from_user a n m\<close> gives the \<open>n\<close> bytes at
  \<open>a\<close>, or nothing when some of them could not be copied.
\<close>

record rlim_env = user_env +
  copy_from_user :: "u64 \<Rightarrow> nat \<Rightarrow> umem \<Rightarrow> u8 list option"
  put_user :: put_user32
  current :: nat
  find_task :: "pid_t \<Rightarrow> nat option"
  signal_of :: "nat \<Rightarrow> nat"
  group_leader :: "nat \<Rightarrow> nat"
  task_cred :: "nat \<Rightarrow> cred"
  capable_resource :: bool
  ns_capable_resource :: "cred \<Rightarrow> bool"
  security_task_setrlimit :: "nat \<Rightarrow> u32 \<Rightarrow> rlimit \<Rightarrow> int"
  security_task_prlimit :: "cred \<Rightarrow> cred \<Rightarrow> u32 \<Rightarrow> int"
  sysctl_nr_open :: u32

text \<open>The layouts of \<open>struct rlimit\<close>, which is also that of \<open>struct rlimit64\<close>, and of the 32-bit one.\<close>

definition rlimit_bytes :: "rlimit \<Rightarrow> u8 list" where
  "rlimit_bytes r = le_bytes 8 (rlim_cur r) @ le_bytes 8 (rlim_max r)"

definition bytes_rlimit :: "u8 list \<Rightarrow> rlimit" where
  "bytes_rlimit bs = \<lparr>rlim_cur = le_word (take 8 bs), rlim_max = le_word (drop 8 bs)\<rparr>"

definition compat_rlimit_bytes :: "u32 \<times> u32 \<Rightarrow> u8 list" where
  "compat_rlimit_bytes r = le_bytes 4 (fst r) @ le_bytes 4 (snd r)"

definition bytes_compat_rlimit :: "u8 list \<Rightarrow> u32 \<times> u32" where
  "bytes_compat_rlimit bs = (le_word (take 4 bs), le_word (drop 4 bs))"

section \<open>Reading and changing a limit\<close>

text \<open>
  The previous limit is delivered when it is asked for and the call succeeds. A finite limit
  on CPU time that was set arms the timer of the group leader.
\<close>

definition do_prlimit ::
  "rlim_env \<Rightarrow> nat \<Rightarrow> u32 \<Rightarrow> rlimit option \<Rightarrow> bool \<Rightarrow> rlim_state \<Rightarrow> int \<times> rlimit option \<times> rlim_state" where
  "do_prlimit env tsk resource new_rlim old_rlim s =
    (if RLIM_NLIMITS \<le> resource then (- EINVAL, None, s)
     else
       let refused = (case new_rlim of None \<Rightarrow> 0
             | Some n \<Rightarrow> if rlim_max n < rlim_cur n then - EINVAL
                 else if resource = RLIMIT_NOFILE \<and> ucast (sysctl_nr_open env) < rlim_max n then - EPERM
                 else 0)
       in if refused \<noteq> 0 then (refused, None, s)
          else
            let rlim = signal_rlim s (signal_of env tsk) resource;
                retval = (case new_rlim of None \<Rightarrow> 0
                  | Some n \<Rightarrow> if rlim_max rlim < rlim_max n \<and> \<not> capable_resource env then - EPERM
                      else security_task_setrlimit env tsk resource n)
            in if retval \<noteq> 0 then (retval, None, s)
               else (0, if old_rlim then Some rlim else None,
                 (case new_rlim of None \<Rightarrow> s
                  | Some n \<Rightarrow>
                      let s = s\<lparr>signal_rlim := (signal_rlim s)(signal_of env tsk :=
                            (signal_rlim s (signal_of env tsk))(resource := n))\<rparr>
                      in if resource = RLIMIT_CPU \<and> rlim_cur n \<noteq> RLIM_INFINITY
                         then s\<lparr>cpu_timers := cpu_timers s @ [(group_leader env tsk, rlim_cur n)]\<rparr>
                         else s)))"

definition copy_out :: "rlim_env \<Rightarrow> u64 \<Rightarrow> u8 list \<Rightarrow> umem \<Rightarrow> int \<times> umem" where
  "copy_out env a bs m = (let (left, m) = copy_to_user env a bs m in (if left \<noteq> 0 then - EFAULT else 0, m))"

definition sys_getrlimit :: "rlim_env \<Rightarrow> u32 \<Rightarrow> u64 \<Rightarrow> umem \<Rightarrow> rlim_state \<Rightarrow> int \<times> umem" where
  "sys_getrlimit env resource rlim m s =
    (let (ret, value, _) = do_prlimit env (current env) resource None True s
     in if ret = 0 then (case value of None \<Rightarrow> (0, m) | Some v \<Rightarrow> copy_out env rlim (rlimit_bytes v) m)
        else (ret, m))"

definition sys_setrlimit :: "rlim_env \<Rightarrow> u32 \<Rightarrow> u64 \<Rightarrow> umem \<Rightarrow> rlim_state \<Rightarrow> int \<times> rlim_state" where
  "sys_setrlimit env resource rlim m s = (case copy_from_user env rlim 16 m of
     None \<Rightarrow> (- EFAULT, s)
   | Some bs \<Rightarrow>
       let (ret, _, s) = do_prlimit env (current env) resource (Some (bytes_rlimit bs)) False s in (ret, s))"

section \<open>Calls for 32-bit programs\<close>

definition widen_rlimit :: "u32 \<times> u32 \<Rightarrow> rlimit" where
  "widen_rlimit r32 =
    \<lparr>rlim_cur = (if fst r32 = COMPAT_RLIM_INFINITY then RLIM_INFINITY else ucast (fst r32)),
     rlim_max = (if snd r32 = COMPAT_RLIM_INFINITY then RLIM_INFINITY else ucast (snd r32))\<rparr>"

definition narrow_rlimit :: "rlimit \<Rightarrow> u32 \<times> u32" where
  "narrow_rlimit r =
    (if ucast COMPAT_RLIM_INFINITY < rlim_cur r then COMPAT_RLIM_INFINITY else ucast (rlim_cur r),
     if ucast COMPAT_RLIM_INFINITY < rlim_max r then COMPAT_RLIM_INFINITY else ucast (rlim_max r))"

definition compat_sys_setrlimit :: "rlim_env \<Rightarrow> u32 \<Rightarrow> u64 \<Rightarrow> umem \<Rightarrow> rlim_state \<Rightarrow> int \<times> rlim_state" where
  "compat_sys_setrlimit env resource rlim m s = (case copy_from_user env rlim 8 m of
     None \<Rightarrow> (- EFAULT, s)
   | Some bs \<Rightarrow>
       let (ret, _, s) = do_prlimit env (current env) resource
             (Some (widen_rlimit (bytes_compat_rlimit bs))) False s
       in (ret, s))"

definition compat_sys_getrlimit :: "rlim_env \<Rightarrow> u32 \<Rightarrow> u64 \<Rightarrow> umem \<Rightarrow> rlim_state \<Rightarrow> int \<times> umem" where
  "compat_sys_getrlimit env resource rlim m s =
    (let (ret, value, _) = do_prlimit env (current env) resource None True s
     in if ret = 0
        then (case value of None \<Rightarrow> (0, m)
              | Some r \<Rightarrow> copy_out env rlim (compat_rlimit_bytes (narrow_rlimit r)) m)
        else (ret, m))"

text \<open>The old call clamps both limits to what a signed 32-bit number holds.\<close>

definition old_clamp :: "rlimit \<Rightarrow> rlimit" where
  "old_clamp r = \<lparr>rlim_cur = (if 0x7FFFFFFF < rlim_cur r then 0x7FFFFFFF else rlim_cur r),
     rlim_max = (if 0x7FFFFFFF < rlim_max r then 0x7FFFFFFF else rlim_max r)\<rparr>"

definition sys_old_getrlimit :: "rlim_env \<Rightarrow> u32 \<Rightarrow> u64 \<Rightarrow> umem \<Rightarrow> rlim_state \<Rightarrow> int \<times> umem" where
  "sys_old_getrlimit env resource rlim m s =
    (if RLIM_NLIMITS \<le> resource then (- EINVAL, m)
     else copy_out env rlim (rlimit_bytes (old_clamp (signal_rlim s (signal_of env (current env)) resource))) m)"

definition compat_sys_old_getrlimit :: "rlim_env \<Rightarrow> u32 \<Rightarrow> u64 \<Rightarrow> umem \<Rightarrow> rlim_state \<Rightarrow> int \<times> umem" where
  "compat_sys_old_getrlimit env resource rlim m s =
    (if RLIM_NLIMITS \<le> resource then (- EINVAL, m)
     else
       let r = old_clamp (signal_rlim s (signal_of env (current env)) resource);
           (err, m) = put_user env rlim (ucast (rlim_cur r)) m
       in if err \<noteq> 0 then (- EFAULT, m)
          else
            let (err, m) = put_user env (rlim + 4) (ucast (rlim_max r)) m
            in if err \<noteq> 0 then (- EFAULT, m) else (0, m))"

section \<open>Limits of another process\<close>

definition rlim64_is_infinity :: "u64 \<Rightarrow> bool" where
  "rlim64_is_infinity r = (r = - 1)"

definition rlim_to_rlim64 :: "rlimit \<Rightarrow> rlimit" where
  "rlim_to_rlim64 r = \<lparr>rlim_cur = (if rlim_cur r = RLIM_INFINITY then - 1 else rlim_cur r),
     rlim_max = (if rlim_max r = RLIM_INFINITY then - 1 else rlim_max r)\<rparr>"

definition rlim64_to_rlim :: "rlimit \<Rightarrow> rlimit" where
  "rlim64_to_rlim r = \<lparr>rlim_cur = (if rlim64_is_infinity (rlim_cur r) then RLIM_INFINITY else rlim_cur r),
     rlim_max = (if rlim64_is_infinity (rlim_max r) then RLIM_INFINITY else rlim_max r)\<rparr>"

definition check_prlimit_permission :: "rlim_env \<Rightarrow> nat \<Rightarrow> u32 \<Rightarrow> int" where
  "check_prlimit_permission env task flags =
    (if current env = task then 0
     else
       let cred = task_cred env (current env); tcred = task_cred env task;
           id_match = (uid cred = euid tcred \<and> uid cred = suid tcred \<and> uid cred = uid tcred
             \<and> gid cred = egid tcred \<and> gid cred = sgid tcred \<and> gid cred = gid tcred)
       in if \<not> id_match \<and> \<not> ns_capable_resource env tcred then - EPERM
          else security_task_prlimit env cred tcred flags)"

text \<open>
  \<open>prlimit64\<close>, from the call of \<open>do_prlimit\<close> on and as a whole. A null pointer asks for nothing
  to be set, or nothing to be delivered.
\<close>

definition prlimit_deliver ::
  "rlim_env \<Rightarrow> nat \<Rightarrow> u32 \<Rightarrow> rlimit option \<Rightarrow> u64 \<Rightarrow> umem \<Rightarrow> rlim_state \<Rightarrow> int \<times> umem \<times> rlim_state" where
  "prlimit_deliver env tsk resource new old_rlim m s =
    (let (ret, old, s) = do_prlimit env tsk resource new (old_rlim \<noteq> 0) s
     in if ret = 0 \<and> old_rlim \<noteq> 0
        then (case old of None \<Rightarrow> (0, m, s)
              | Some o64 \<Rightarrow>
                  let (ret, m) = copy_out env old_rlim (rlimit_bytes (rlim_to_rlim64 o64)) m in (ret, m, s))
        else (ret, m, s))"

definition sys_prlimit64 ::
  "rlim_env \<Rightarrow> pid_t \<Rightarrow> u32 \<Rightarrow> u64 \<Rightarrow> u64 \<Rightarrow> umem \<Rightarrow> rlim_state \<Rightarrow> int \<times> umem \<times> rlim_state" where
  "sys_prlimit64 env p resource new_rlim old_rlim m s =
    (let given = (if new_rlim = 0 then None else copy_from_user env new_rlim 16 m)
     in if new_rlim \<noteq> 0 \<and> given = None then (- EFAULT, m, s)
        else
          let checkflags = (if old_rlim \<noteq> 0 then LSM_PRLIMIT_READ else 0)
                OR (if new_rlim \<noteq> 0 then LSM_PRLIMIT_WRITE else 0)
          in case (if p \<noteq> 0 then find_task env p else Some (current env)) of
               None \<Rightarrow> (- ESRCH, m, s)
             | Some tsk \<Rightarrow>
                 let ret = check_prlimit_permission env tsk checkflags
                 in if ret \<noteq> 0 then (ret, m, s)
                    else prlimit_deliver env tsk resource
                      (map_option (\<lambda>bs. rlim64_to_rlim (bytes_rlimit bs)) given) old_rlim m s)"

section \<open>What the calls do to the limits\<close>

definition limit_set :: "nat \<Rightarrow> u32 \<Rightarrow> rlimit \<Rightarrow> rlim_state \<Rightarrow> nat \<Rightarrow> u32 \<Rightarrow> rlimit" where
  "limit_set g r n s = (signal_rlim s)(g := (signal_rlim s g)(r := n))"

text \<open>
  A state that follows another by at most one change of one limit, to an ordered pair whose
  hard limit is not raised without the capability.
\<close>

definition limit_step :: "rlim_env \<Rightarrow> rlim_state \<Rightarrow> rlim_state \<Rightarrow> bool" where
  "limit_step env s s' \<longleftrightarrow> signal_rlim s' = signal_rlim s
     \<or> (\<exists>g r n. signal_rlim s' = limit_set g r n s \<and> rlim_cur n \<le> rlim_max n
          \<and> (rlim_max n \<le> rlim_max (signal_rlim s g r) \<or> capable_resource env))"

lemma limit_step_refl [simp]: "limit_step env s s"
  by (simp add: limit_step_def)

lemma do_prlimit_cases:
  obtains (failed) ret where "ret \<noteq> 0" "do_prlimit env tsk r new w s = (ret, None, s)"
  | (read) "r < RLIM_NLIMITS" "new = None"
      "do_prlimit env tsk r new w s = (0, if w then Some (signal_rlim s (signal_of env tsk) r) else None, s)"
  | (changed) n s' where "r < RLIM_NLIMITS" "new = Some n" "rlim_cur n \<le> rlim_max n"
      "rlim_max n \<le> rlim_max (signal_rlim s (signal_of env tsk) r) \<or> capable_resource env"
      "signal_rlim s' = limit_set (signal_of env tsk) r n s"
      "do_prlimit env tsk r new w s = (0, if w then Some (signal_rlim s (signal_of env tsk) r) else None, s')"
proof -
  consider (big) "RLIM_NLIMITS \<le> r" | (none) "r < RLIM_NLIMITS" "new = None"
    | (some) n where "r < RLIM_NLIMITS" "new = Some n"
    by (metis not_le option.exhaust)
  then show thesis
  proof cases
    case big
    then show ?thesis by (intro failed [of "- EINVAL"]) (simp_all add: do_prlimit_def)
  next
    case none
    then show ?thesis by (intro read) (simp_all add: do_prlimit_def)
  next
    case (some n)
    let ?ret = "security_task_setrlimit env tsk r n"
    consider "rlim_max n < rlim_cur n"
      | "rlim_cur n \<le> rlim_max n" "r = RLIMIT_NOFILE \<and> ucast (sysctl_nr_open env) < rlim_max n"
      | "rlim_cur n \<le> rlim_max n" "\<not> (r = RLIMIT_NOFILE \<and> ucast (sysctl_nr_open env) < rlim_max n)"
        "rlim_max (signal_rlim s (signal_of env tsk) r) < rlim_max n \<and> \<not> capable_resource env"
      | "rlim_cur n \<le> rlim_max n" "\<not> (r = RLIMIT_NOFILE \<and> ucast (sysctl_nr_open env) < rlim_max n)"
        "\<not> (rlim_max (signal_rlim s (signal_of env tsk) r) < rlim_max n \<and> \<not> capable_resource env)"
      by (meson not_le)
    then show ?thesis
    proof cases
      case 1
      with some show ?thesis by (intro failed [of "- EINVAL"]) (simp_all add: do_prlimit_def)
    next
      case 2
      with some show ?thesis by (intro failed [of "- EPERM"]) (simp_all add: do_prlimit_def)
    next
      case 3
      with some show ?thesis by (intro failed [of "- EPERM"]) (simp_all add: do_prlimit_def not_less)
    next
      case 4
      show ?thesis
      proof (cases "?ret = 0")
        case True
        let ?s = "snd (snd (do_prlimit env tsk r new w s))"
        have "do_prlimit env tsk r new w s
            = (0, if w then Some (signal_rlim s (signal_of env tsk) r) else None, ?s)"
          "signal_rlim ?s = limit_set (signal_of env tsk) r n s"
          using 4 some True by (auto simp: do_prlimit_def limit_set_def not_less Let_def)
        with 4 some show ?thesis
          by (intro changed [of n ?s]) (auto simp: not_less)
      next
        case False
        with 4 some show ?thesis
          by (intro failed [of ?ret]) (auto simp: do_prlimit_def not_less Let_def)
      qed
    qed
  qed
qed

lemma do_prlimit_step: "limit_step env s (snd (snd (do_prlimit env tsk r new w s)))"
  by (rule do_prlimit_cases [of env tsk r new w s]) (auto simp: limit_step_def)

section \<open>Sequences of calls\<close>

datatype rlim_call =
    SetRlimit u32 u64 | CompatSetRlimit u32 u64 | Prlimit64 pid_t u32 u64 u64

text \<open>A call is made by some task on the user memory of that moment.\<close>

fun exec_rlim :: "rlim_env \<Rightarrow> nat \<times> umem \<times> rlim_call \<Rightarrow> rlim_state \<Rightarrow> rlim_state" where
  "exec_rlim env (t, m, SetRlimit r a) s = snd (sys_setrlimit (env\<lparr>current := t\<rparr>) r a m s)"
| "exec_rlim env (t, m, CompatSetRlimit r a) s = snd (compat_sys_setrlimit (env\<lparr>current := t\<rparr>) r a m s)"
| "exec_rlim env (t, m, Prlimit64 p r new old) s = snd (snd (sys_prlimit64 (env\<lparr>current := t\<rparr>) p r new old m s))"

lemma setrlimit_step: "limit_step env s (snd (sys_setrlimit env r a m s))"
  using do_prlimit_step by (simp add: sys_setrlimit_def case_prod_beta Let_def split: option.split)

lemma compat_setrlimit_step: "limit_step env s (snd (compat_sys_setrlimit env r a m s))"
  using do_prlimit_step by (simp add: compat_sys_setrlimit_def case_prod_beta Let_def split: option.split)

lemma deliver_step: "limit_step env s (snd (snd (prlimit_deliver env tsk r new old m s)))"
proof -
  obtain ret v s' where d: "do_prlimit env tsk r new (old \<noteq> 0) s = (ret, v, s')"
    by (rule prod_cases3)
  then have "limit_step env s s'"
    using do_prlimit_step [of env s tsk r new "old \<noteq> 0"] by simp
  then show ?thesis
    by (simp add: prlimit_deliver_def d Let_def case_prod_beta split: option.split)
qed

lemma prlimit64_step: "limit_step env s (snd (snd (sys_prlimit64 env p r new old m s)))"
  unfolding sys_prlimit64_def Let_def by (simp add: deliver_step split: option.split)

lemma limit_step_current: "limit_step (env\<lparr>current := t\<rparr>) s s' = limit_step env s s'"
  by (simp add: limit_step_def)

lemma exec_rlim_step: "limit_step env s (exec_rlim env c s)"
proof -
  obtain t m k where "c = (t, m, k)" by (cases c)
  then show ?thesis
    using setrlimit_step [of "env\<lparr>current := t\<rparr>"] compat_setrlimit_step [of "env\<lparr>current := t\<rparr>"]
      prlimit64_step [of "env\<lparr>current := t\<rparr>"]
    by (cases k) (simp_all add: limit_step_current)
qed

definition unordered :: "rlim_state \<Rightarrow> (nat \<times> u32) set" where
  "unordered s = {(g, r). rlim_max (signal_rlim s g r) < rlim_cur (signal_rlim s g r)}"

definition under_hard :: "rlim_state \<Rightarrow> (nat \<times> u32 \<times> u64) set" where
  "under_hard s = {(g, r, v). v \<le> rlim_max (signal_rlim s g r)}"

definition without_resource :: "rlim_env \<Rightarrow> rlim_env" where
  "without_resource env = env\<lparr>capable_resource := False\<rparr>"

lemma limit_step_unordered: "limit_step env s s' \<Longrightarrow> unordered s' \<subseteq> unordered s"
  by (auto simp: limit_step_def unordered_def limit_set_def split: if_splits)

lemma limit_step_hard: "limit_step (without_resource env) s s' \<Longrightarrow> under_hard s' \<subseteq> under_hard s"
  by (auto simp: limit_step_def under_hard_def limit_set_def without_resource_def split: if_splits)

interpretation ordered: shrinking "exec_rlim env" unordered for env
  by unfold_locales (rule limit_step_unordered [OF exec_rlim_step])

interpretation hard: shrinking "exec_rlim (without_resource env)" under_hard for env
  by unfold_locales (rule limit_step_hard [OF exec_rlim_step])

section \<open>Reading back\<close>

definition from_user_law :: "rlim_env \<Rightarrow> bool" where
  "from_user_law env \<longleftrightarrow> (\<forall>a n m bs. copy_from_user env a n m = Some bs \<longrightarrow> bs = read_bytes m a n)"

lemma from_user_lawD:
  assumes "from_user_law env" and "copy_from_user env a n m = Some bs"
  shows "bs = read_bytes m a n" "length bs = n"
proof -
  show "bs = read_bytes m a n"
    using assms unfolding from_user_law_def by blast
  then show "length bs = n" by simp
qed

lemma rlimit_bytes_inverse: "length bs = 16 \<Longrightarrow> rlimit_bytes (bytes_rlimit bs) = bs"
  using le_bytes_le_word [of "take 8 bs", where 'a = 64] le_bytes_le_word [of "drop 8 bs", where 'a = 64]
  by (simp add: rlimit_bytes_def bytes_rlimit_def)

lemma compat_bytes_inverse: "length bs = 8 \<Longrightarrow> compat_rlimit_bytes (bytes_compat_rlimit bs) = bs"
  using le_bytes_le_word [of "take 4 bs", where 'a = 32] le_bytes_le_word [of "drop 4 bs", where 'a = 32]
  by (simp add: compat_rlimit_bytes_def bytes_compat_rlimit_def)

lemma narrow_widen: "narrow_rlimit (widen_rlimit r) = r"
proof -
  have "ucast x \<le> (0xffffffff :: u64)" for x :: u32
    using unsigned_less [of x, where ?'a = int] by (simp add: word_le_def uint_up_ucast is_up)
  then have "\<not> 0xffffffff < (ucast x :: u64)" for x :: u32
    by (simp add: not_less)
  moreover have "(0xffffffff :: u64) < - 1"
    by simp
  moreover have "(ucast (ucast x :: u64) :: u32) = x" for x :: u32
    by (rule bit_word_eqI) (simp add: bit_simps)
  ultimately show ?thesis
    by (cases r) (simp add: narrow_rlimit_def widen_rlimit_def)
qed

lemma get_after_set:
  assumes "do_prlimit env tsk r (Some n) False s = (0, v, s')"
  shows "do_prlimit env tsk r None True s' = (0, Some n, s')"
proof (rule do_prlimit_cases [of env tsk r "Some n" False s])
  fix n' t
  assume "r < 16" "Some n = Some n'" "signal_rlim t = limit_set (signal_of env tsk) r n' s"
    "do_prlimit env tsk r (Some n) False s
      = (0, if False then Some (signal_rlim s (signal_of env tsk) r) else None, t)"
  with assms show ?thesis
    by (simp add: do_prlimit_def limit_set_def)
qed (use assms in simp_all)

lemma copy_out_read:
  assumes "copy_law env" and "copy_out env a bs m = (0, m')" and "length bs < 2 ^ 64"
  shows "read_bytes m' a (length bs) = bs"
proof -
  have "copy_to_user env a bs m = (0, m')"
    using assms(2) by (auto simp: copy_out_def Let_def case_prod_beta prod_eq_iff split: if_splits)
  then have "m' = write_bytes a bs m"
    by (rule copy_lawD [OF assms(1)])
  with assms(3) show ?thesis
    by (simp add: read_write_bytes)
qed

text \<open>
  A limit set and read back by a 32-bit program, whose infinity is translated both ways: the
  two words delivered are the two words given.
\<close>

lemma compat_setrlimit_getrlimit:
  assumes "copy_law env" and "from_user_law env"
    and "compat_sys_setrlimit env r a m s = (0, s')" and "compat_sys_getrlimit env r b m1 s' = (0, m2)"
  shows "read_bytes m2 b 8 = read_bytes m a 8"
proof -
  obtain bs where bs: "copy_from_user env a 8 m = Some bs"
    using assms(3) by (auto simp: compat_sys_setrlimit_def split: option.splits)
  then have given: "bs = read_bytes m a 8" "length bs = 8"
    by (rule from_user_lawD [OF assms(2)])+
  obtain v where "do_prlimit env (current env) r (Some (widen_rlimit (bytes_compat_rlimit bs))) False s = (0, v, s')"
    using assms(3) by (auto simp: compat_sys_setrlimit_def bs Let_def case_prod_beta prod_eq_iff)
  from get_after_set [OF this] have "copy_out env b bs m1 = (0, m2)"
    using assms(4) by (simp add: compat_sys_getrlimit_def compat_bytes_inverse narrow_widen given(2))
  from copy_out_read [OF assms(1) this] show ?thesis
    by (simp add: given)
qed

text \<open>
  The only way in which a limit changes although the call fails: everything was checked, the
  new limit \<open>n\<close> replaced the old one, and then the old one could not be copied out.
\<close>

definition set_not_delivered ::
  "rlim_env \<Rightarrow> nat \<Rightarrow> u32 \<Rightarrow> rlimit \<Rightarrow> u64 \<Rightarrow> umem \<Rightarrow> rlim_state \<Rightarrow> rlim_state \<Rightarrow> bool" where
  "set_not_delivered env tsk r n old m s s' \<longleftrightarrow> old \<noteq> 0 \<and> r < RLIM_NLIMITS
     \<and> rlim_cur n \<le> rlim_max n \<and> (rlim_max n \<le> rlim_max (signal_rlim s (signal_of env tsk) r) \<or> capable_resource env)
     \<and> signal_rlim s' = limit_set (signal_of env tsk) r n s
     \<and> fst (copy_to_user env old (rlimit_bytes (rlim_to_rlim64 (signal_rlim s (signal_of env tsk) r))) m) \<noteq> 0"

lemma deliver_error:
  assumes run: "prlimit_deliver env tsk r new old m s = (ret, m', s')" and err: "ret \<noteq> 0"
  shows "s' = s \<or> ret = - EFAULT \<and> (\<exists>n. new = Some n \<and> set_not_delivered env tsk r n old m s s')"
proof (rule do_prlimit_cases [of env tsk r new "old \<noteq> 0" s])
  fix n t
  assume changed: "r < 16" "new = Some n" "rlim_cur n \<le> rlim_max n"
    "rlim_max n \<le> rlim_max (signal_rlim s (signal_of env tsk) r) \<or> capable_resource env"
    "signal_rlim t = limit_set (signal_of env tsk) r n s"
    "do_prlimit env tsk r new (old \<noteq> 0) s
      = (0, if old \<noteq> 0 then Some (signal_rlim s (signal_of env tsk) r) else None, t)"
  then have "old \<noteq> 0"
    using run err by (auto simp: prlimit_deliver_def)
  moreover from this have "copy_out env old (rlimit_bytes (rlim_to_rlim64 (signal_rlim s (signal_of env tsk) r))) m = (ret, m')"
    "s' = t"
    using run changed(6) by (simp_all add: prlimit_deliver_def case_prod_beta prod_eq_iff)
  moreover from this err have "ret = - EFAULT"
    "fst (copy_to_user env old (rlimit_bytes (rlim_to_rlim64 (signal_rlim s (signal_of env tsk) r))) m) \<noteq> 0"
    by (auto simp: copy_out_def case_prod_beta split: if_splits)
  ultimately show ?thesis
    using changed unfolding set_not_delivered_def by blast
qed (use run err in \<open>auto simp: prlimit_deliver_def copy_out_def Let_def case_prod_beta split: if_splits\<close>)

text \<open>The task that a number names for \<open>prlimit64\<close>.\<close>

definition prlimit_target :: "rlim_env \<Rightarrow> pid_t \<Rightarrow> nat option" where
  "prlimit_target env p = (if p \<noteq> 0 then find_task env p else Some (current env))"

text \<open>Example values: a task with no privilege whose files are limited to 10, at most 20.\<close>

definition plain_rlim_env :: rlim_env where
  "plain_rlim_env = \<lparr>find_task_by_vpid = (\<lambda>_. None), copy_to_user = (\<lambda>a bs m. (0, write_bytes a bs m)),
     copy_from_user = (\<lambda>a n m. Some (read_bytes m a n)), put_user = (\<lambda>a v m. (0, write_bytes a (le_bytes 4 v) m)),
     current = 1, find_task = (\<lambda>_. None), signal_of = (\<lambda>t. t), group_leader = (\<lambda>t. t),
     task_cred = (\<lambda>_. current_cred root_state), capable_resource = False, ns_capable_resource = (\<lambda>_. False),
     security_task_setrlimit = (\<lambda>_ _ _. 0), security_task_prlimit = (\<lambda>_ _ _. 0), sysctl_nr_open = 100\<rparr>"

definition plain_limits :: rlim_state where
  "plain_limits = \<lparr>signal_rlim = (\<lambda>_ _. \<lparr>rlim_cur = 10, rlim_max = 20\<rparr>), cpu_timers = []\<rparr>"

section \<open>Properties\<close>

text \<open>
  C24: No limit ever has its soft value above its hard value: after any sequence of the calls
  that set limits, by any tasks, privileged or not, on any user memory, every limit that is
  out of order was so before.
\<close>

theorem limits_stay_ordered:
  assumes "\<forall>g r. rlim_cur (signal_rlim s g r) \<le> rlim_max (signal_rlim s g r)"
  shows "rlim_cur (signal_rlim (fold (exec_rlim env) cs s) g r)
    \<le> rlim_max (signal_rlim (fold (exec_rlim env) cs s) g r)"
proof -
  have "unordered s = {}"
    using assms by (auto simp: unordered_def not_less)
  then have "unordered (fold (exec_rlim env) cs s) = {}"
    using ordered.run_held [of env cs s] by simp
  then show ?thesis
    by (auto simp: unordered_def not_less)
qed

theorem limits_stay_ordered_witness:
  "rlim_cur (signal_rlim (fold (exec_rlim plain_rlim_env) [(1, \<lambda>_. 3, SetRlimit 7 0)] plain_limits) 1 7)
    \<le> rlim_max (signal_rlim (fold (exec_rlim plain_rlim_env) [(1, \<lambda>_. 3, SetRlimit 7 0)] plain_limits) 1 7)"
  by (rule limits_stay_ordered) (simp add: plain_limits_def)

text \<open>
  C25: Without \<open>CAP_SYS_RESOURCE\<close> no hard limit ever rises, whatever the processes call and in
  whatever order.
\<close>

theorem hard_limits_never_rise:
  "rlim_max (signal_rlim (fold (exec_rlim (without_resource env)) cs s) g r) \<le> rlim_max (signal_rlim s g r)"
  using hard.run_held [of env cs s] by (force simp: under_hard_def)

text \<open>
  C26: On a 64-bit machine \<open>prlimit64\<close> on the calling process, asked only to set, is
  \<open>setrlimit\<close>: same status, same limits, user memory untouched.
\<close>

theorem prlimit64_is_setrlimit:
  assumes "new \<noteq> 0"
  shows "sys_prlimit64 env 0 r new 0 m s
    = (let (ret, s') = sys_setrlimit env r new m s in (ret, m, s'))"
proof -
  have same: "rlim64_to_rlim x = x" for x
    by (simp add: rlim64_to_rlim_def rlim64_is_infinity_def)
  show ?thesis
    using assms by (simp add: sys_prlimit64_def prlimit_deliver_def sys_setrlimit_def same check_prlimit_permission_def
        Let_def case_prod_beta split: option.split)
qed

theorem prlimit64_is_setrlimit_witness:
  "sys_prlimit64 plain_rlim_env 0 7 0x1000 0 (\<lambda>_. 0) plain_limits
    = (let (ret, s') = sys_setrlimit plain_rlim_env 7 0x1000 (\<lambda>_. 0) plain_limits in (ret, \<lambda>_. 0, s'))"
  by (rule prlimit64_is_setrlimit) simp

text \<open>
  C27: A limit that was set is read back byte for byte: where \<open>setrlimit\<close> succeeds and then
  \<open>getrlimit\<close> does, the structure delivered is the structure given.
\<close>

theorem setrlimit_getrlimit:
  assumes "copy_law env" and "from_user_law env"
    and "sys_setrlimit env r a m s = (0, s')" and "sys_getrlimit env r b m1 s' = (0, m2)"
  shows "read_bytes m2 b 16 = read_bytes m a 16"
proof -
  obtain bs where bs: "copy_from_user env a 16 m = Some bs"
    using assms(3) by (auto simp: sys_setrlimit_def split: option.splits)
  then have given: "bs = read_bytes m a 16" "length bs = 16"
    by (rule from_user_lawD [OF assms(2)])+
  obtain v where "do_prlimit env (current env) r (Some (bytes_rlimit bs)) False s = (0, v, s')"
    using assms(3) by (auto simp: sys_setrlimit_def bs Let_def case_prod_beta prod_eq_iff)
  from get_after_set [OF this] have "copy_out env b bs m1 = (0, m2)"
    using assms(4) by (simp add: sys_getrlimit_def rlimit_bytes_inverse given(2))
  from copy_out_read [OF assms(1) this] show ?thesis
    by (simp add: given)
qed

theorem setrlimit_getrlimit_witness:
  "let m = write_bytes 0x1000 (rlimit_bytes \<lparr>rlim_cur = 3, rlim_max = 4\<rparr>) (\<lambda>_. 0);
       s' = snd (sys_setrlimit plain_rlim_env 7 0x1000 m plain_limits)
   in read_bytes (snd (sys_getrlimit plain_rlim_env 7 0x2000 m s')) 0x2000 16 = read_bytes m 0x1000 16"
proof -
  let ?m = "write_bytes 0x1000 (rlimit_bytes \<lparr>rlim_cur = 3, rlim_max = 4\<rparr>) (\<lambda>_. 0)"
  let ?x = "sys_setrlimit plain_rlim_env 7 0x1000 ?m plain_limits"
  have "read_bytes ?m 0x1000 16 = rlimit_bytes \<lparr>rlim_cur = 3, rlim_max = 4\<rparr>"
    by (rule read_write_bytes) (simp_all add: rlimit_bytes_def)
  then have "bytes_rlimit (read_bytes ?m 0x1000 16) = \<lparr>rlim_cur = 3, rlim_max = 4\<rparr>"
    by (simp add: rlimit_bytes_def bytes_rlimit_def le_word_le_bytes)
  then have "?x = (0, snd ?x)"
    by (simp add: sys_setrlimit_def plain_rlim_env_def do_prlimit_def plain_limits_def Let_def)
  moreover have "copy_law plain_rlim_env" "from_user_law plain_rlim_env"
    by (simp_all add: copy_law_def from_user_law_def plain_rlim_env_def)
  moreover have "sys_getrlimit plain_rlim_env 7 0x2000 ?m t
      = (0, snd (sys_getrlimit plain_rlim_env 7 0x2000 ?m t))" for t
    by (simp add: sys_getrlimit_def plain_rlim_env_def do_prlimit_def copy_out_def Let_def)
  ultimately show ?thesis
    using setrlimit_getrlimit by (metis (no_types, lifting))
qed

text \<open>
  C28: A failing \<open>prlimit64\<close> leaves the limits and the timers as they were, with one exception,
  and then the error is \<open>EFAULT\<close>: the new limit was read from user memory, the caller was
  permitted to set it for the task, and only the delivery of the previous limit failed. Then
  exactly that limit of the task has changed, to the new one.
\<close>

theorem prlimit64_error_keeps_limits:
  assumes "sys_prlimit64 env p r new old m s = (ret, m', s')" and "ret \<noteq> 0"
  shows "s' = s \<or> ret = - EFAULT \<and> (\<exists>bs tsk. new \<noteq> 0 \<and> copy_from_user env new 16 m = Some bs
      \<and> prlimit_target env p = Some tsk
      \<and> check_prlimit_permission env tsk (LSM_PRLIMIT_READ OR LSM_PRLIMIT_WRITE) = 0
      \<and> set_not_delivered env tsk r (rlim64_to_rlim (bytes_rlimit bs)) old m s s')"
proof (cases "s' = s")
  case False
  let ?given = "if new = 0 then None else copy_from_user env new 16 m"
  let ?flags = "(if old \<noteq> 0 then LSM_PRLIMIT_READ else 0) OR (if new \<noteq> 0 then LSM_PRLIMIT_WRITE else 0)"
  obtain tsk where tsk: "prlimit_target env p = Some tsk" "check_prlimit_permission env tsk ?flags = 0"
    and run: "prlimit_deliver env tsk r (map_option (\<lambda>bs. rlim64_to_rlim (bytes_rlimit bs)) ?given) old m s = (ret, m', s')"
    using assms(1) False unfolding sys_prlimit64_def Let_def prlimit_target_def [symmetric]
    by (auto split: if_splits option.splits)
  from deliver_error [OF run assms(2)] False obtain n where n: "ret = - EFAULT"
      "map_option (\<lambda>bs. rlim64_to_rlim (bytes_rlimit bs)) ?given = Some n" "set_not_delivered env tsk r n old m s s'"
    by blast
  then obtain bs where "new \<noteq> 0" "copy_from_user env new 16 m = Some bs" "n = rlim64_to_rlim (bytes_rlimit bs)"
    by (auto split: if_splits)
  moreover have "old \<noteq> 0" using n(3) by (simp add: set_not_delivered_def)
  ultimately show ?thesis using n tsk by auto
qed simp

theorem prlimit64_error_keeps_limits_witness:
  "\<exists>m s. sys_prlimit64 (plain_rlim_env\<lparr>copy_to_user := (\<lambda>_ bs m. (of_nat (length bs), m))\<rparr>) 0 7 0x1000 0x2000
        (\<lambda>_. 0) plain_limits = (- EFAULT, m, s)
    \<and> signal_rlim s = limit_set 1 7 \<lparr>rlim_cur = 0, rlim_max = 0\<rparr> plain_limits \<and> s \<noteq> plain_limits"
proof -
  let ?env = "plain_rlim_env\<lparr>copy_to_user := (\<lambda>_ bs m. (of_nat (length bs), m))\<rparr>"
  have zero: "bytes_rlimit (read_bytes (\<lambda>_. 0) a 16) = \<lparr>rlim_cur = 0, rlim_max = 0\<rparr>" for a
    by (simp add: bytes_rlimit_def read_bytes_def upt_rec)
  have bytes: "rlimit_bytes v \<noteq> []" for v
    unfolding rlimit_bytes_def length_greater_0_conv [symmetric] length_append length_le_bytes by simp
  obtain ret m' s' where run: "sys_prlimit64 ?env 0 7 0x1000 0x2000 (\<lambda>_. 0) plain_limits = (ret, m', s')"
    by (rule prod_cases3)
  then have "ret \<noteq> 0" and "rlim_cur (signal_rlim s' 1 7) = 0"
    by (auto simp: sys_prlimit64_def prlimit_deliver_def do_prlimit_def copy_out_def plain_rlim_env_def Let_def
        check_prlimit_permission_def plain_limits_def zero bytes rlim64_to_rlim_def
        rlim64_is_infinity_def)
  moreover from this have "s' \<noteq> plain_limits"
    by (auto simp: plain_limits_def)
  ultimately show ?thesis
    using prlimit64_error_keeps_limits [OF run] run
    by (auto simp: prlimit_target_def set_not_delivered_def plain_rlim_env_def zero rlim64_to_rlim_def
        rlim64_is_infinity_def)
qed

end
