(* ===== verification/Sessions.thy ===== *)
theory Sessions
  imports Kernel_Types
begin

text \<open>
  Process groups and sessions: \<open>setpgid\<close>, \<open>getpgid\<close>, \<open>getsid\<close> and \<open>setsid\<close> of \<open>kernel/sys.c\<close>,
  with \<open>getpid\<close>, \<open>gettid\<close> and \<open>getppid\<close>. What these calls change is kept by the kernel per thread
  group, in the signal structure, and is kept here the same way. A \<open>struct pid\<close> is a number;
  its translation to the numbers of a namespace is part of the environment.
\<close>

section \<open>State\<close>

record thread_group =
  leader_pid :: nat \<comment> \<open>\<open>task_pid\<close> of the group leader\<close>
  pgrp :: nat
  session :: nat
  signal_leader :: bool
  tty :: "nat option"
  forknoexec :: bool
  parent_group :: nat \<comment> \<open>thread group of \<open>real_parent\<close> of the leader\<close>

record pid_state =
  groups :: "nat list"
  tgroup :: "nat \<Rightarrow> thread_group"
  sid_events :: "nat list" \<comment> \<open>calls of \<open>proc_sid_connector\<close> and \<open>sched_autogroup_create_attach\<close>\<close>

text \<open>
  \<open>find_task\<close> gives the thread group of the task that a number names and whether the task
  leads it; \<open>unhashed\<close> tells that a task found has already lost its group and session.
\<close>

record pid_env =
  cur_group :: nat
  cur_pid :: nat
  cur_parent :: nat
  pid_vnr :: "nat \<Rightarrow> pid_t"
  find_vpid :: "pid_t \<Rightarrow> nat option"
  find_task :: "pid_t \<Rightarrow> (nat \<times> bool) option"
  unhashed :: "nat \<Rightarrow> bool"
  security_task_setpgid :: "nat \<Rightarrow> pid_t \<Rightarrow> int"
  security_task_getpgid :: "nat \<Rightarrow> int"
  security_task_getsid :: "nat \<Rightarrow> int"

text \<open>
  A member of a process group, \<open>pid_task(pid, PIDTYPE_PGID)\<close>. The first in the list is taken;
  all members are in one session, as shown below, and nothing else is asked of it.
\<close>

definition pid_task_pgid :: "pid_state \<Rightarrow> nat \<Rightarrow> nat option" where
  "pid_task_pgid s p = find (\<lambda>g. pgrp (tgroup s g) = p) (groups s)"

definition change_pgrp :: "nat \<Rightarrow> nat \<Rightarrow> pid_state \<Rightarrow> pid_state" where
  "change_pgrp g p s = s\<lparr>tgroup := (tgroup s)(g := (tgroup s g)\<lparr>pgrp := p\<rparr>)\<rparr>"

definition change_session :: "nat \<Rightarrow> nat \<Rightarrow> pid_state \<Rightarrow> pid_state" where
  "change_session g p s = s\<lparr>tgroup := (tgroup s)(g := (tgroup s g)\<lparr>session := p\<rparr>)\<rparr>"

section \<open>Process ids\<close>

definition sys_getpid :: "pid_env \<Rightarrow> pid_state \<Rightarrow> pid_t" where
  "sys_getpid env s = pid_vnr env (leader_pid (tgroup s (cur_group env)))"

definition sys_gettid :: "pid_env \<Rightarrow> pid_t" where
  "sys_gettid env = pid_vnr env (cur_pid env)"

definition sys_getppid :: "pid_env \<Rightarrow> pid_state \<Rightarrow> pid_t" where
  "sys_getppid env s = pid_vnr env (leader_pid (tgroup s (cur_parent env)))"

section \<open>Process groups\<close>

text \<open>The checks on the process to move: it is the caller or a child that has not executed.\<close>

definition setpgid_check :: "pid_env \<Rightarrow> nat \<Rightarrow> pid_state \<Rightarrow> int" where
  "setpgid_check env p s =
    (let gl = cur_group env
     in if parent_group (tgroup s p) = gl
        then
          if session (tgroup s p) \<noteq> session (tgroup s gl) then - EPERM
          else if \<not> forknoexec (tgroup s p) then - EACCES
          else if signal_leader (tgroup s p) then - EPERM else 0
        else
          if p \<noteq> gl then - ESRCH
          else if signal_leader (tgroup s p) then - EPERM else 0)"

text \<open>The group asked for: that of the process itself, or one of the session of the caller.\<close>

definition setpgid_target :: "pid_env \<Rightarrow> nat \<Rightarrow> pid_t \<Rightarrow> pid_t \<Rightarrow> pid_state \<Rightarrow> nat option" where
  "setpgid_target env p nr pgid s =
    (if pgid \<noteq> nr
     then (case find_vpid env pgid of None \<Rightarrow> None
           | Some q \<Rightarrow> (case pid_task_pgid s q of None \<Rightarrow> None
               | Some g \<Rightarrow> if session (tgroup s g) \<noteq> session (tgroup s (cur_group env)) then None else Some q))
     else Some (leader_pid (tgroup s p)))"

text \<open>The call, once its two numbers are settled, and with the meaning of 0 for them.\<close>

definition setpgid_to :: "pid_env \<Rightarrow> pid_t \<Rightarrow> pid_t \<Rightarrow> pid_state \<Rightarrow> int \<times> pid_state" where
  "setpgid_to env nr pgid s = (case find_task env nr of
     None \<Rightarrow> (- ESRCH, s)
   | Some (p, is_leader) \<Rightarrow>
       if \<not> is_leader then (- EINVAL, s)
       else
         let err = setpgid_check env p s
         in if err \<noteq> 0 then (err, s)
            else (case setpgid_target env p nr pgid s of
                None \<Rightarrow> (- EPERM, s)
              | Some q \<Rightarrow>
                  let err = security_task_setpgid env p pgid
                  in if err \<noteq> 0 then (err, s)
                     else (0, if pgrp (tgroup s p) \<noteq> q then change_pgrp p q s else s)))"

definition setpgid :: "pid_env \<Rightarrow> pid_t \<Rightarrow> pid_t \<Rightarrow> pid_state \<Rightarrow> int \<times> pid_state" where
  "setpgid env nr pgid s =
    (let nr = (if nr = 0 then pid_vnr env (leader_pid (tgroup s (cur_group env))) else nr);
         pgid = (if pgid = 0 then nr else pgid)
     in if sint pgid < 0 then (- EINVAL, s) else setpgid_to env nr pgid s)"

definition do_getpgid :: "pid_env \<Rightarrow> pid_t \<Rightarrow> pid_state \<Rightarrow> int" where
  "do_getpgid env nr s =
    (if nr = 0 then sint (pid_vnr env (pgrp (tgroup s (cur_group env))))
     else (case find_task env nr of
         None \<Rightarrow> - ESRCH
       | Some (p, _) \<Rightarrow>
           if unhashed env p then - ESRCH
           else if security_task_getpgid env p \<noteq> 0 then security_task_getpgid env p
           else sint (pid_vnr env (pgrp (tgroup s p)))))"

definition sys_getpgrp :: "pid_env \<Rightarrow> pid_state \<Rightarrow> int" where
  "sys_getpgrp env s = do_getpgid env 0 s"

section \<open>Sessions\<close>

definition getsid :: "pid_env \<Rightarrow> pid_t \<Rightarrow> pid_state \<Rightarrow> int" where
  "getsid env nr s =
    (if nr = 0 then sint (pid_vnr env (session (tgroup s (cur_group env))))
     else (case find_task env nr of
         None \<Rightarrow> - ESRCH
       | Some (p, _) \<Rightarrow>
           if unhashed env p then - ESRCH
           else if security_task_getsid env p \<noteq> 0 then security_task_getsid env p
           else sint (pid_vnr env (session (tgroup s p)))))"

definition set_special_pids :: "nat \<Rightarrow> nat \<Rightarrow> pid_state \<Rightarrow> pid_state" where
  "set_special_pids g p s =
    (let s = (if session (tgroup s g) \<noteq> p then change_session g p s else s)
     in if pgrp (tgroup s g) \<noteq> p then change_pgrp g p s else s)"

definition ksys_setsid :: "pid_env \<Rightarrow> pid_state \<Rightarrow> int \<times> pid_state" where
  "ksys_setsid env s =
    (let gl = cur_group env; sid = leader_pid (tgroup s gl); nr = sint (pid_vnr env sid);
         (err, s) =
           (if signal_leader (tgroup s gl) then (- EPERM, s)
            else if pid_task_pgid s sid \<noteq> None then (- EPERM, s)
            else
              let s = s\<lparr>tgroup := (tgroup s)(gl := (tgroup s gl)\<lparr>signal_leader := True\<rparr>)\<rparr>;
                  s = set_special_pids gl sid s;
                  s = s\<lparr>tgroup := (tgroup s)(gl := (tgroup s gl)\<lparr>tty := None\<rparr>)\<rparr>
              in (nr, s))
     in (err, if 0 < err then s\<lparr>sid_events := sid_events s @ [gl]\<rparr> else s))"

section \<open>Groups lie within sessions\<close>

text \<open>
  The invariant: thread groups have different pids; two of one process group are in one
  session; and the members of the process group named after a process are in its session.
\<close>

definition groups_ok :: "pid_state \<Rightarrow> bool" where
  "groups_ok s \<longleftrightarrow> inj_on (\<lambda>g. leader_pid (tgroup s g)) (set (groups s))
     \<and> (\<forall>g \<in> set (groups s). \<forall>h \<in> set (groups s).
          (pgrp (tgroup s g) = pgrp (tgroup s h) \<or> pgrp (tgroup s g) = leader_pid (tgroup s h))
            \<longrightarrow> session (tgroup s g) = session (tgroup s h))"

lemma pid_task_Some:
  "pid_task_pgid s p = Some g \<Longrightarrow> g \<in> set (groups s) \<and> pgrp (tgroup s g) = p"
  by (auto simp: pid_task_pgid_def find_Some_iff)

lemma pid_task_None: "pid_task_pgid s p = None \<Longrightarrow> g \<in> set (groups s) \<Longrightarrow> pgrp (tgroup s g) \<noteq> p"
  by (auto simp: pid_task_pgid_def find_None_iff)

lemma change_fields [simp]:
  "groups (change_pgrp p q s) = groups s" "groups (change_session p q s) = groups s"
  "pgrp (tgroup (change_pgrp p q s) g) = (if g = p then q else pgrp (tgroup s g))"
  "session (tgroup (change_pgrp p q s) g) = session (tgroup s g)"
  "leader_pid (tgroup (change_pgrp p q s) g) = leader_pid (tgroup s g)"
  "pgrp (tgroup (change_session p q s) g) = pgrp (tgroup s g)"
  "session (tgroup (change_session p q s) g) = (if g = p then q else session (tgroup s g))"
  "leader_pid (tgroup (change_session p q s) g) = leader_pid (tgroup s g)"
  by (simp_all add: change_pgrp_def change_session_def)

lemma groups_okD:
  "groups_ok s \<Longrightarrow> g \<in> set (groups s) \<Longrightarrow> h \<in> set (groups s) \<Longrightarrow>
    pgrp (tgroup s g) = pgrp (tgroup s h) \<or> pgrp (tgroup s g) = leader_pid (tgroup s h) \<Longrightarrow>
    session (tgroup s g) = session (tgroup s h)"
  unfolding groups_ok_def by blast

lemma groups_okI:
  assumes "groups_ok s" and "groups s' = groups s" and "\<And>g. leader_pid (tgroup s' g) = leader_pid (tgroup s g)"
    and "\<And>g h. g \<in> set (groups s) \<Longrightarrow> h \<in> set (groups s) \<Longrightarrow>
      pgrp (tgroup s' g) = pgrp (tgroup s' h) \<or> pgrp (tgroup s' g) = leader_pid (tgroup s h) \<Longrightarrow>
      session (tgroup s' g) = session (tgroup s' h)"
  shows "groups_ok s'"
proof -
  have "inj_on (\<lambda>g. leader_pid (tgroup s' g)) (set (groups s'))"
    using assms(1) unfolding groups_ok_def assms(2, 3) by blast
  moreover have "\<forall>g \<in> set (groups s'). \<forall>h \<in> set (groups s').
      (pgrp (tgroup s' g) = pgrp (tgroup s' h) \<or> pgrp (tgroup s' g) = leader_pid (tgroup s' h))
        \<longrightarrow> session (tgroup s' g) = session (tgroup s' h)"
    unfolding assms(2, 3) using assms(4) by blast
  ultimately show ?thesis
    unfolding groups_ok_def by blast
qed

text \<open>Moving a process to a group of its own session, or back to its own group.\<close>

lemma groups_ok_move:
  assumes ok: "groups_ok s"
    and new: "\<And>h. h \<in> set (groups s) \<Longrightarrow> pgrp (tgroup s h) = q \<or> leader_pid (tgroup s h) = q
      \<Longrightarrow> session (tgroup s h) = session (tgroup s p)"
  shows "groups_ok (change_pgrp p q s)"
proof (rule groups_okI [OF ok])
  fix g h
  assume gh: "g \<in> set (groups s)" "h \<in> set (groups s)"
    and eq: "pgrp (tgroup (change_pgrp p q s) g) = pgrp (tgroup (change_pgrp p q s) h)
      \<or> pgrp (tgroup (change_pgrp p q s) g) = leader_pid (tgroup s h)"
  consider "g = p" "h = p" | "g = p" "h \<noteq> p" | "g \<noteq> p" "h = p" | "g \<noteq> p" "h \<noteq> p" by blast
  then have "session (tgroup s g) = session (tgroup s h)"
  proof cases
    case 2
    with eq new [OF gh(2)] show ?thesis by auto
  next
    case 3
    with eq have "pgrp (tgroup s g) = q \<or> pgrp (tgroup s g) = leader_pid (tgroup s h)" by simp
    then show ?thesis
      using new [OF gh(1)] groups_okD [OF ok gh] 3 by blast
  next
    case 4
    with eq show ?thesis
      by (intro groups_okD [OF ok gh]) simp
  qed simp
  then show "session (tgroup (change_pgrp p q s) g) = session (tgroup (change_pgrp p q s) h)"
    by simp
qed simp_all

lemma setpgid_target_session:
  assumes ok: "groups_ok s" and p: "p \<in> set (groups s)"
    and t: "setpgid_target env p nr pgid s = Some q"
    and same: "session (tgroup s p) = session (tgroup s (cur_group env))"
    and h: "h \<in> set (groups s)" "pgrp (tgroup s h) = q \<or> leader_pid (tgroup s h) = q"
  shows "session (tgroup s h) = session (tgroup s p)"
proof (cases "pgid = nr")
  case True
  with t have q: "q = leader_pid (tgroup s p)"
    by (simp add: setpgid_target_def)
  from h(2) show ?thesis
  proof
    assume "pgrp (tgroup s h) = q"
    then show ?thesis by (intro groups_okD [OF ok h(1) p]) (simp add: q)
  next
    assume "leader_pid (tgroup s h) = q"
    then have "h = p"
      using ok h(1) p unfolding groups_ok_def inj_on_def q by blast
    then show ?thesis by simp
  qed
next
  case False
  with t obtain g where g: "pid_task_pgid s q = Some g"
      "session (tgroup s g) = session (tgroup s (cur_group env))"
    by (auto simp: setpgid_target_def split: option.splits if_splits)
  note g' = pid_task_Some [OF g(1)]
  have "session (tgroup s g) = session (tgroup s h)"
    by (rule groups_okD [OF ok]) (use g' h in auto)
  with g(2) same show ?thesis by simp
qed

lemma setpgid_ok:
  assumes ok: "groups_ok s" 
  shows "groups_ok (snd (setpgid env nr pgid s))"
proof -
  have moved: "groups_ok (change_pgrp p q s)"
    if c: "setpgid_check env p s = 0" and t: "setpgid_target env p n i s = Some q" for p q n i
  proof (cases "p \<in> set (groups s)")
    case True
    from c have "session (tgroup s p) = session (tgroup s (cur_group env))"
      by (auto simp: setpgid_check_def Let_def split: if_splits)
    from setpgid_target_session [OF ok True t this] show ?thesis
      by (rule groups_ok_move [OF ok])
  next
    case False
    then have eqs: "g \<in> set (groups s) \<Longrightarrow> tgroup (change_pgrp p q s) g = tgroup s g" for g
      by (auto simp: change_pgrp_def)
    show ?thesis
    proof (rule groups_okI [OF ok])
      fix g h
      assume "g \<in> set (groups s)" "h \<in> set (groups s)"
        "pgrp (tgroup (change_pgrp p q s) g) = pgrp (tgroup (change_pgrp p q s) h)
          \<or> pgrp (tgroup (change_pgrp p q s) g) = leader_pid (tgroup s h)"
      then show "session (tgroup (change_pgrp p q s) g) = session (tgroup (change_pgrp p q s) h)"
        unfolding eqs [OF \<open>g \<in> set (groups s)\<close>] eqs [OF \<open>h \<in> set (groups s)\<close>] by (rule groups_okD [OF ok])
    qed simp_all
  qed
  have "groups_ok (snd (setpgid_to env n i s))" for n i
    unfolding setpgid_to_def Let_def using ok moved by (simp split: option.split prod.split)
  then show ?thesis
    using ok by (simp add: setpgid_def Let_def)
qed

text \<open>A new session: the process alone in a group and a session with its own pid.\<close>

definition in_new_session :: "nat \<Rightarrow> pid_state \<Rightarrow> pid_state \<Rightarrow> bool" where
  "in_new_session g s s' \<longleftrightarrow> groups s' = groups s
     \<and> tgroup s' g = (tgroup s g)\<lparr>pgrp := leader_pid (tgroup s g), session := leader_pid (tgroup s g),
         signal_leader := True, tty := None\<rparr>
     \<and> (\<forall>h. h \<noteq> g \<longrightarrow> tgroup s' h = tgroup s h)"

lemma setsid_cases:
  obtains (refused) "ksys_setsid env s = (- EPERM, s)"
      "signal_leader (tgroup s (cur_group env)) \<or> pid_task_pgid s (leader_pid (tgroup s (cur_group env))) \<noteq> None"
  | (made) s' where "ksys_setsid env s = (sint (pid_vnr env (leader_pid (tgroup s (cur_group env)))), s')"
      "\<not> signal_leader (tgroup s (cur_group env))"
      "pid_task_pgid s (leader_pid (tgroup s (cur_group env))) = None"
      "in_new_session (cur_group env) s s'"
proof -
  let ?g = "cur_group env" and ?s = "snd (ksys_setsid env s)"
  show thesis
  proof (cases "signal_leader (tgroup s ?g) \<or> pid_task_pgid s (leader_pid (tgroup s ?g)) \<noteq> None")
    case True
    then have "ksys_setsid env s = (- EPERM, s)"
      by (auto simp: ksys_setsid_def Let_def)
    then show ?thesis using True by (rule refused)
  next
    case False
    have "ksys_setsid env s = (sint (pid_vnr env (leader_pid (tgroup s ?g))), ?s)"
      using False by (simp add: ksys_setsid_def Let_def)
    moreover have "in_new_session ?g s ?s"
      using False by (simp add: ksys_setsid_def Let_def in_new_session_def set_special_pids_def
          change_pgrp_def change_session_def)
    ultimately show ?thesis using False by (intro made) auto
  qed
qed

lemma new_session_ok:
  assumes ok: "groups_ok s" and new: "in_new_session p s s'"
    and alone: "pid_task_pgid s (leader_pid (tgroup s p)) = None"
  shows "groups_ok s'"
proof (rule groups_okI [OF ok])
  have p: "tgroup s' p = (tgroup s p)\<lparr>pgrp := leader_pid (tgroup s p), session := leader_pid (tgroup s p),
         signal_leader := True, tty := None\<rparr>"
    and other: "h \<noteq> p \<Longrightarrow> tgroup s' h = tgroup s h" for h
    using new by (auto simp: in_new_session_def)
  show "groups s' = groups s"
    using new by (simp add: in_new_session_def)
  show "leader_pid (tgroup s' g) = leader_pid (tgroup s g)" for g
    using p other by (cases "g = p") auto
  fix g h
  assume gh: "g \<in> set (groups s)" "h \<in> set (groups s)"
    and eq: "pgrp (tgroup s' g) = pgrp (tgroup s' h) \<or> pgrp (tgroup s' g) = leader_pid (tgroup s h)"
  have ne: "pgrp (tgroup s g) \<noteq> leader_pid (tgroup s p)" "pgrp (tgroup s h) \<noteq> leader_pid (tgroup s p)"
    using pid_task_None [OF alone] gh by auto
  have same: "leader_pid (tgroup s p) = leader_pid (tgroup s h) \<Longrightarrow> p \<in> set (groups s) \<Longrightarrow> p = h"
    using ok gh unfolding groups_ok_def inj_on_def by blast
  consider "g = p" "h = p" | "g = p" "h \<noteq> p" | "g \<noteq> p" "h = p" | "g \<noteq> p" "h \<noteq> p" by blast
  then show "session (tgroup s' g) = session (tgroup s' h)"
  proof cases
    case 2
    with eq ne same gh show ?thesis by (auto simp: p other)
  next
    case 3
    with eq ne show ?thesis by (auto simp: p other)
  next
    case 4
    with eq have "session (tgroup s g) = session (tgroup s h)"
      by (intro groups_okD [OF ok gh]) (simp add: other)
    with 4 show ?thesis by (simp add: other)
  qed simp
qed

lemma setsid_ok: "groups_ok s \<Longrightarrow> groups_ok (snd (ksys_setsid env s))"
  by (rule setsid_cases [of env s]) (auto intro: new_session_ok)

text \<open>The states that calls of any processes lead to.\<close>

inductive pid_reach :: "pid_env \<Rightarrow> pid_state \<Rightarrow> pid_state \<Rightarrow> bool" for env s where
  start: "pid_reach env s s"
| group: "pid_reach env s t \<Longrightarrow> pid_reach env s (snd (setpgid (env\<lparr>cur_group := g\<rparr>) nr pgid t))"
| new_session: "pid_reach env s t \<Longrightarrow> pid_reach env s (snd (ksys_setsid (env\<lparr>cur_group := g\<rparr>) t))"

lemma reach_ok: "pid_reach env s t \<Longrightarrow> groups_ok s \<Longrightarrow> groups_ok t"
  by (induction rule: pid_reach.induct) (simp_all add: setpgid_ok setsid_ok)

text \<open>
  The second invariant: a process whose pid names a session leads it. So the session that
  \<open>setsid\<close> makes is new.
\<close>

definition sessions_led :: "pid_state \<Rightarrow> bool" where
  "sessions_led s \<longleftrightarrow> (\<forall>g \<in> set (groups s). \<forall>h \<in> set (groups s).
     session (tgroup s h) = leader_pid (tgroup s g) \<longrightarrow> signal_leader (tgroup s g))"

lemma setpgid_led: "sessions_led s \<Longrightarrow> sessions_led (snd (setpgid env nr pgid s))"
proof -
  assume led: "sessions_led s"
  have "signal_leader (tgroup (change_pgrp p q s) g) = signal_leader (tgroup s g)" for p q g
    by (simp add: change_pgrp_def)
  with led have moved: "sessions_led (change_pgrp p q s)" for p q
    unfolding sessions_led_def by simp
  have "sessions_led (snd (setpgid_to env n i s))" for n i
    unfolding setpgid_to_def Let_def using led moved by (simp split: option.split prod.split)
  then show ?thesis
    using led by (simp add: setpgid_def Let_def)
qed

lemma new_session_led:
  assumes ok: "groups_ok s" and led: "sessions_led s" and new: "in_new_session p s s'"
    and p: "p \<in> set (groups s)"
  shows "sessions_led s'"
  unfolding sessions_led_def
proof (intro ballI impI)
  fix g h
  assume "g \<in> set (groups s')" "h \<in> set (groups s')" and eq: "session (tgroup s' h) = leader_pid (tgroup s' g)"
  then have gh: "g \<in> set (groups s)" "h \<in> set (groups s)"
    using new by (simp_all add: in_new_session_def)
  have lead: "signal_leader (tgroup s' p)" and other: "k \<noteq> p \<Longrightarrow> tgroup s' k = tgroup s k" for k
    using new by (auto simp: in_new_session_def)
  show "signal_leader (tgroup s' g)"
  proof (cases "g = p")
    case False
    then have "session (tgroup s' h) = leader_pid (tgroup s g)"
      using eq other by simp
    moreover have "h \<noteq> p"
    proof
      assume "h = p"
      then have "leader_pid (tgroup s p) = leader_pid (tgroup s g)"
        using eq other [OF False] new by (simp add: in_new_session_def)
      then show False
        using ok p gh(1) False unfolding groups_ok_def inj_on_def by blast
    qed
    ultimately have "session (tgroup s h) = leader_pid (tgroup s g)"
      using other by simp
    then have "signal_leader (tgroup s g)"
      using led gh unfolding sessions_led_def by blast
    then show ?thesis using other [OF False] by simp
  qed (simp add: lead)
qed

lemma setsid_led:
  assumes "groups_ok s" and "sessions_led s"
  shows "sessions_led (snd (ksys_setsid env s))"
proof (cases "cur_group env \<in> set (groups s)")
  case True
  show ?thesis
    by (rule setsid_cases [of env s]) (use assms True in \<open>auto intro: new_session_led\<close>)
next
  case False
  have "sessions_led s'" if new: "in_new_session (cur_group env) s s'" for s'
  proof -
    have same: "tgroup s' k = tgroup s k" if "k \<in> set (groups s)" for k
    proof -
      have "k \<noteq> cur_group env" using that False by blast
      then show ?thesis using new unfolding in_new_session_def by blast
    qed
    have "groups s' = groups s" using new by (simp add: in_new_session_def)
    with same assms(2) show ?thesis by (simp add: sessions_led_def)
  qed
  note new = this
  show ?thesis
    by (rule setsid_cases [of env s]) (use assms(2) new in auto)
qed

lemma reach_led: "pid_reach env s t \<Longrightarrow> groups_ok s \<Longrightarrow> sessions_led s \<Longrightarrow> sessions_led t"
  by (induction rule: pid_reach.induct) (simp_all add: setpgid_led setsid_led reach_ok)

text \<open>A process that is the only member of its process group and of its session.\<close>

definition alone :: "nat \<Rightarrow> pid_state \<Rightarrow> bool" where
  "alone g s \<longleftrightarrow> (\<forall>h \<in> set (groups s). h \<noteq> g \<longrightarrow>
     pgrp (tgroup s h) \<noteq> pgrp (tgroup s g) \<and> session (tgroup s h) \<noteq> session (tgroup s g))"

lemma new_session_alone:
  assumes led: "sessions_led s" and new: "in_new_session g s s'" and g: "g \<in> set (groups s)"
    and free: "\<not> signal_leader (tgroup s g)" "pid_task_pgid s (leader_pid (tgroup s g)) = None"
  shows "alone g s'"
  unfolding alone_def
proof (intro ballI impI)
  fix h
  assume "h \<in> set (groups s')" "h \<noteq> g"
  then have h: "h \<in> set (groups s)" "tgroup s' h = tgroup s h"
    using new by (simp_all add: in_new_session_def)
  have "session (tgroup s h) \<noteq> leader_pid (tgroup s g)"
    using led h(1) g free(1) unfolding sessions_led_def by blast
  with pid_task_None [OF free(2) h(1)] show "pgrp (tgroup s' h) \<noteq> pgrp (tgroup s' g)
      \<and> session (tgroup s' h) \<noteq> session (tgroup s' g)"
    using h(2) new by (simp add: in_new_session_def)
qed

section \<open>Properties\<close>

text \<open>
  Example values: three processes in one session and one process group, each a child of the
  one before; the first leads the session.
\<close>

definition plain_pid_env :: pid_env where
  "plain_pid_env = \<lparr>cur_group = 1, cur_pid = 1, cur_parent = 0, pid_vnr = of_nat,
     find_vpid = (\<lambda>n. Some (unat n)), find_task = (\<lambda>n. Some (unat n, True)), unhashed = (\<lambda>_. False),
     security_task_setpgid = (\<lambda>_ _. 0), security_task_getpgid = (\<lambda>_. 0), security_task_getsid = (\<lambda>_. 0)\<rparr>"

definition three_processes :: pid_state where
  "three_processes = \<lparr>groups = [1, 2, 3], tgroup = (\<lambda>g. \<lparr>leader_pid = g, pgrp = 1, session = 1,
     signal_leader = (g = 1), tty = Some 0, forknoexec = True, parent_group = g - 1\<rparr>), sid_events = []\<rparr>"

lemma three_processes_ok: "groups_ok three_processes"
  by (simp add: groups_ok_def three_processes_def inj_on_def)

text \<open>
  C29: A process group never spans two sessions. In every state that \<open>setpgid\<close> and \<open>setsid\<close>
  calls lead to, made by any processes with any arguments, two thread groups of the same
  process group are in the same session.
\<close>

theorem process_groups_within_sessions:
  assumes "groups_ok s" and "pid_reach env s t" and "g \<in> set (groups t)" and "h \<in> set (groups t)"
    and "pgrp (tgroup t g) = pgrp (tgroup t h)"
  shows "session (tgroup t g) = session (tgroup t h)"
  using groups_okD [OF reach_ok [OF assms(2, 1)] assms(3, 4)] assms(5) by blast

theorem process_groups_within_sessions_witness:
  "let t = snd (ksys_setsid (plain_pid_env\<lparr>cur_group := 2\<rparr>) three_processes)
   in session (tgroup t 1) = session (tgroup t 3)"
proof -
  let ?t = "snd (ksys_setsid (plain_pid_env\<lparr>cur_group := 2\<rparr>) three_processes)"
  have "pid_reach plain_pid_env three_processes ?t"
    by (rule pid_reach.new_session [OF pid_reach.start])
  moreover have "1 \<in> set (groups ?t)" "3 \<in> set (groups ?t)" "pgrp (tgroup ?t 1) = pgrp (tgroup ?t 3)"
    by (simp_all add: ksys_setsid_def plain_pid_env_def three_processes_def pid_task_pgid_def Let_def
        set_special_pids_def change_pgrp_def change_session_def)
  ultimately have "session (tgroup ?t 1) = session (tgroup ?t 3)"
    by (rule process_groups_within_sessions [OF three_processes_ok])
  then show ?thesis by (simp only: Let_def)
qed

text \<open>
  C30: In every state that \<open>setpgid\<close> and \<open>setsid\<close> calls lead to, \<open>setsid\<close> refuses exactly a
  session leader and a process whose pid names a process group with members, and then changes
  nothing. Otherwise the process becomes the leader of a session and a process group with its
  own pid, is the only member of both, and loses its terminal, no other process changes, and
  the pid is returned; a second call then fails.
\<close>

theorem setsid_starts_session:
  assumes start: "groups_ok s0" "sessions_led s0" "pid_reach env0 s0 s"
    and cur: "cur_group env \<in> set (groups s)" and run: "ksys_setsid env s = (ret, s')"
  shows "if signal_leader (tgroup s (cur_group env))
        \<or> (\<exists>g \<in> set (groups s). pgrp (tgroup s g) = leader_pid (tgroup s (cur_group env)))
     then ret = - EPERM \<and> s' = s
     else ret = sint (sys_getpid env s) \<and> in_new_session (cur_group env) s s'
        \<and> alone (cur_group env) s' \<and> ksys_setsid env s' = (- EPERM, s')"
proof (rule setsid_cases [of env s])
  assume "ksys_setsid env s = (- EPERM, s)"
    "signal_leader (tgroup s (cur_group env)) \<or> pid_task_pgid s (leader_pid (tgroup s (cur_group env))) \<noteq> None"
  then show ?thesis
    using run pid_task_Some by fastforce
next
  fix t
  assume *: "ksys_setsid env s = (sint (pid_vnr env (leader_pid (tgroup s (cur_group env)))), t)"
    "\<not> signal_leader (tgroup s (cur_group env))"
    "pid_task_pgid s (leader_pid (tgroup s (cur_group env))) = None"
    "in_new_session (cur_group env) s t"
  then have "signal_leader (tgroup t (cur_group env))"
    by (simp add: in_new_session_def)
  then have "ksys_setsid env t = (- EPERM, t)"
    by (simp add: ksys_setsid_def Let_def)
  moreover have "alone (cur_group env) t"
    by (rule new_session_alone [OF reach_led [OF start(3,1,2)] *(4) cur *(2,3)])
  moreover have "\<not> (\<exists>g \<in> set (groups s). pgrp (tgroup s g) = leader_pid (tgroup s (cur_group env)))"
    using pid_task_None [OF *(3)] by blast
  ultimately show ?thesis
    using * run by (simp add: sys_getpid_def)
qed

theorem setsid_starts_session_witness:
  "let t = snd (ksys_setsid (plain_pid_env\<lparr>cur_group := 2\<rparr>) three_processes)
   in in_new_session 2 three_processes t \<and> alone 2 t"
proof -
  let ?env = "plain_pid_env\<lparr>cur_group := 2\<rparr>"
  have led: "sessions_led three_processes" and cur: "cur_group ?env \<in> set (groups three_processes)"
    by (simp_all add: sessions_led_def three_processes_def)
  have "\<not> (signal_leader (tgroup three_processes 2) \<or> (\<exists>g \<in> set (groups three_processes).
      pgrp (tgroup three_processes g) = leader_pid (tgroup three_processes 2)))"
    by (simp add: three_processes_def)
  then show ?thesis
    using setsid_starts_session [OF three_processes_ok led pid_reach.start [of plain_pid_env] cur prod.collapse [symmetric]]
    by (simp add: Let_def)
qed

end
