(* ===== verification/Priorities.thy ===== *)
theory Priorities
  imports Credentials
begin

text \<open>
  The scheduling priorities of \<open>kernel/sys.c\<close>: \<open>setpriority\<close> and \<open>getpriority\<close> on a process, a
  process group or all processes of a user. Threads are named by numbers; the state is the
  nice value of each, from -20 to 19.
\<close>

section \<open>State\<close>

abbreviation (input) MIN_NICE :: int where "MIN_NICE \<equiv> - 20"
abbreviation (input) MAX_NICE :: int where "MAX_NICE \<equiv> 19"
abbreviation (input) PRIO_PROCESS :: int where "PRIO_PROCESS \<equiv> 0"
abbreviation (input) PRIO_PGRP :: int where "PRIO_PGRP \<equiv> 1"
abbreviation (input) PRIO_USER :: int where "PRIO_USER \<equiv> 2"

record nice_state =
  task_nice :: "nat \<Rightarrow> int"

text \<open>
  The threads and their credentials, the process groups, and the decisions of other parts of
  the kernel; \<open>pgrp_threads\<close> and \<open>all_threads\<close> give the threads in the order of the loops.
\<close>

record prio_env =
  current :: nat
  thread_cred :: "nat \<Rightarrow> cred"
  find_thread :: "int \<Rightarrow> nat option"
  find_pgrp :: "int \<Rightarrow> nat option"
  current_pgrp :: nat
  pgrp_threads :: "nat \<Rightarrow> nat list"
  all_threads :: "nat list"
  thread_vnr :: "nat \<Rightarrow> int"
  uid_of_who :: "int \<Rightarrow> u32" \<comment> \<open>\<open>make_kuid\<close> in the namespace of the caller\<close>
  find_user :: "u32 \<Rightarrow> nat option"
  ns_capable_nice :: "cred \<Rightarrow> bool"
  can_nice :: "nat \<Rightarrow> int \<Rightarrow> bool"
  security_task_setnice :: "nat \<Rightarrow> int \<Rightarrow> int"

definition set_user_nice :: "nat \<Rightarrow> int \<Rightarrow> nice_state \<Rightarrow> nice_state" where
  "set_user_nice p n s = s\<lparr>task_nice := (task_nice s)(p := n)\<rparr>"

section \<open>Operations\<close>

definition set_one_prio_perm :: "prio_env \<Rightarrow> nat \<Rightarrow> bool" where
  "set_one_prio_perm env p =
    (let cred = thread_cred env (current env); pcred = thread_cred env p
     in if uid pcred = euid cred \<or> euid pcred = euid cred then True
        else if ns_capable_nice env pcred then True else False)"

definition set_one_prio :: "prio_env \<Rightarrow> nat \<Rightarrow> int \<Rightarrow> int \<Rightarrow> nice_state \<Rightarrow> int \<times> nice_state" where
  "set_one_prio env p niceval error s =
    (if \<not> set_one_prio_perm env p then (- EPERM, s)
     else if niceval < task_nice s p \<and> \<not> can_nice env p niceval then (- EACCES, s)
     else
       let no_nice = security_task_setnice env p niceval
       in if no_nice \<noteq> 0 then (no_nice, s)
          else (if error = - ESRCH then 0 else error, set_user_nice p niceval s))"

text \<open>The threads that \<open>which\<close> and \<open>who\<close> select, in the order both calls visit them.\<close>

definition prio_targets :: "prio_env \<Rightarrow> int \<Rightarrow> int \<Rightarrow> nat list" where
  "prio_targets env which who =
    (if which = PRIO_PROCESS
     then (case if who \<noteq> 0 then find_thread env who else Some (current env) of None \<Rightarrow> [] | Some p \<Rightarrow> [p])
     else if which = PRIO_PGRP
     then (case if who \<noteq> 0 then find_pgrp env who else Some (current_pgrp env) of
             None \<Rightarrow> [] | Some g \<Rightarrow> pgrp_threads env g)
     else
       let mine = uid (thread_cred env (current env));
           u = (if who = 0 then mine else uid_of_who env who)
       in if who \<noteq> 0 \<and> u \<noteq> mine \<and> find_user env u = None then []
          else filter (\<lambda>p. uid (thread_cred env p) = u \<and> thread_vnr env p \<noteq> 0) (all_threads env))"

fun set_prios :: "prio_env \<Rightarrow> int \<Rightarrow> nat list \<Rightarrow> int \<Rightarrow> nice_state \<Rightarrow> int \<times> nice_state" where
  "set_prios env niceval [] error s = (error, s)"
| "set_prios env niceval (p # ps) error s =
    (let (error, s) = set_one_prio env p niceval error s in set_prios env niceval ps error s)"

definition clamp_nice :: "int \<Rightarrow> int" where
  "clamp_nice n = (let n = (if n < MIN_NICE then MIN_NICE else n) in if MAX_NICE < n then MAX_NICE else n)"

definition setpriority :: "prio_env \<Rightarrow> int \<Rightarrow> int \<Rightarrow> int \<Rightarrow> nice_state \<Rightarrow> int \<times> nice_state" where
  "setpriority env which who niceval s =
    (if PRIO_USER < which \<or> which < PRIO_PROCESS then (- EINVAL, s)
     else set_prios env (clamp_nice niceval) (prio_targets env which who) (- ESRCH) s)"

definition nice_to_rlimit :: "int \<Rightarrow> int" where
  "nice_to_rlimit n = MAX_NICE - n + 1"

fun best_prio :: "nice_state \<Rightarrow> nat list \<Rightarrow> int \<Rightarrow> int" where
  "best_prio s [] retval = retval"
| "best_prio s (p # ps) retval =
    (let niceval = nice_to_rlimit (task_nice s p)
     in best_prio s ps (if retval < niceval then niceval else retval))"

definition getpriority :: "prio_env \<Rightarrow> int \<Rightarrow> int \<Rightarrow> nice_state \<Rightarrow> int" where
  "getpriority env which who s =
    (if PRIO_USER < which \<or> which < PRIO_PROCESS then - EINVAL
     else best_prio s (prio_targets env which who) (- ESRCH))"

section \<open>What the loops do\<close>

definition nice_ok :: "nice_state \<Rightarrow> bool" where
  "nice_ok s \<longleftrightarrow> (\<forall>p. task_nice s p \<in> {MIN_NICE..MAX_NICE})"

lemma clamp_nice_range: "clamp_nice n \<in> {MIN_NICE..MAX_NICE}"
  by (simp add: clamp_nice_def Let_def)

lemma best_prio_max: "best_prio s ps r = Max (insert r ((\<lambda>p. nice_to_rlimit (task_nice s p)) ` set ps))"
proof (induction ps arbitrary: r)
  case (Cons p ps)
  let ?f = "\<lambda>p. nice_to_rlimit (task_nice s p)"
  have "best_prio s (p # ps) r = best_prio s ps (max r (?f p))"
    by (simp add: Let_def max_def)
  also have "\<dots> = Max (insert (max r (?f p)) (?f ` set ps))"
    by (rule Cons.IH)
  also have "\<dots> = Max (insert r (?f ` set (p # ps)))"
    by (cases "set ps = {}") (simp_all add: max.assoc)
  finally show ?case .
qed simp

text \<open>A thread changes only by permission, and to the value asked for.\<close>

definition may_set :: "prio_env \<Rightarrow> int \<Rightarrow> nat \<Rightarrow> int \<Rightarrow> bool" where
  "may_set env n p old \<longleftrightarrow> set_one_prio_perm env p \<and> (n < old \<longrightarrow> can_nice env p n)
     \<and> security_task_setnice env p n = 0"

lemma set_one_prio_cases:
  "set_one_prio env p n e s =
    (if may_set env n p (task_nice s p) then (if e = - ESRCH then 0 else e, set_user_nice p n s)
     else (fst (set_one_prio env p n e s), s))"
  by (auto simp: set_one_prio_def may_set_def Let_def)

lemma set_prios_effect:
  "task_nice (snd (set_prios env n ps e s)) q = task_nice s q
   \<or> q \<in> set ps \<and> task_nice (snd (set_prios env n ps e s)) q = n \<and> may_set env n q (task_nice s q)"
proof (induction ps arbitrary: e s)
  case (Cons p ps)
  let ?x = "set_one_prio env p n e s"
  have one: "task_nice (snd ?x) q = task_nice s q
      \<or> q = p \<and> task_nice (snd ?x) q = n \<and> may_set env n p (task_nice s p)"
    by (subst (1 2) set_one_prio_cases) (simp add: set_user_nice_def)
  have "set_prios env n (p # ps) e s = set_prios env n ps (fst ?x) (snd ?x)"
    by (simp add: case_prod_beta Let_def)
  with one Cons.IH [of "fst ?x" "snd ?x"] show ?case
    by auto
qed simp

lemma set_prios_ok: "nice_ok s \<Longrightarrow> n \<in> {MIN_NICE..MAX_NICE} \<Longrightarrow> nice_ok (snd (set_prios env n ps e s))"
  unfolding nice_ok_def using set_prios_effect by metis

text \<open>The security hook does not answer that there is no such process.\<close>

definition setnice_law :: "prio_env \<Rightarrow> bool" where
  "setnice_law env \<longleftrightarrow> (\<forall>p n. security_task_setnice env p n \<noteq> - ESRCH)"

lemma set_one_prio_status:
  assumes "setnice_law env" and "fst (set_one_prio env p n e s) \<in> {0, - ESRCH}"
  shows "fst (set_one_prio env p n e s) = 0 \<and> e \<in> {0, - ESRCH} \<and> task_nice (snd (set_one_prio env p n e s)) p = n"
  using assms
  by (auto simp: set_one_prio_def setnice_law_def set_user_nice_def Let_def split: if_splits)

lemma set_prios_success:
  assumes "setnice_law env" and "set_prios env n ps e s = (0, s')"
  shows "e \<in> {0, - ESRCH} \<and> (e = - ESRCH \<longrightarrow> ps \<noteq> []) \<and> (\<forall>p \<in> set ps. task_nice s' p = n)"
  using assms(2)
proof (induction ps arbitrary: e s)
  case (Cons p ps)
  let ?x = "set_one_prio env p n e s"
  have rest: "set_prios env n ps (fst ?x) (snd ?x) = (0, s')"
    using Cons.prems by (simp add: case_prod_beta Let_def)
  note IH = Cons.IH [OF rest]
  from IH have st: "fst ?x = 0 \<and> e \<in> {0, - ESRCH} \<and> task_nice (snd ?x) p = n"
    by (intro set_one_prio_status [OF assms(1)]) blast
  have "task_nice s' p = n"
    using set_prios_effect [of env n ps "fst ?x" "snd ?x" p] st rest by auto
  with IH st show ?case by simp
qed simp

section \<open>Properties\<close>

definition plain_prio_env :: prio_env where
  "plain_prio_env = \<lparr>current = 1, thread_cred = (\<lambda>_. current_cred root_state), find_thread = (\<lambda>n. Some (nat n)),
     find_pgrp = (\<lambda>n. Some (nat n)), current_pgrp = 1, pgrp_threads = (\<lambda>_. [1, 2]), all_threads = [1, 2, 3],
     thread_vnr = int, uid_of_who = of_int, find_user = (\<lambda>u. Some (unat u)), ns_capable_nice = (\<lambda>_. False),
     can_nice = (\<lambda>_ _. True), security_task_setnice = (\<lambda>_ _. 0)\<rparr>"

text \<open>
  C31: Where \<open>setpriority\<close> succeeds, for a process, a group or a user, \<open>getpriority\<close> with the
  same arguments then gives 20 minus the value asked for, clamped to -20 to 19.
\<close>

theorem setpriority_getpriority:
  assumes "setnice_law env" and "setpriority env which who n s = (0, s')"
  shows "getpriority env which who s' = 20 - clamp_nice n"
proof -
  let ?ps = "prio_targets env which who"
  have range: "\<not> (PRIO_USER < which \<or> which < PRIO_PROCESS)"
    and run: "set_prios env (clamp_nice n) ?ps (- ESRCH) s = (0, s')"
    using assms(2) by (auto simp: setpriority_def split: if_splits)
  have all: "\<forall>p \<in> set ?ps. task_nice s' p = clamp_nice n" and "?ps \<noteq> []"
    using set_prios_success [OF assms(1) run] by auto
  then have "(\<lambda>p. nice_to_rlimit (task_nice s' p)) ` set ?ps = {20 - clamp_nice n}"
    by (cases ?ps) (auto simp: nice_to_rlimit_def)
  moreover have "clamp_nice n \<le> 19"
    using clamp_nice_range [of n] by simp
  ultimately show ?thesis
    using range by (simp add: getpriority_def best_prio_max)
qed

theorem setpriority_getpriority_witness:
  "getpriority plain_prio_env 1 0 (snd (setpriority plain_prio_env 1 0 100 \<lparr>task_nice = \<lambda>_. 0\<rparr>)) = 20 - clamp_nice 100"
proof (rule setpriority_getpriority)
  show "setnice_law plain_prio_env"
    by (simp add: setnice_law_def plain_prio_env_def)
  show "setpriority plain_prio_env 1 0 100 \<lparr>task_nice = \<lambda>_. 0\<rparr>
      = (0, snd (setpriority plain_prio_env 1 0 100 \<lparr>task_nice = \<lambda>_. 0\<rparr>))"
    by (simp add: setpriority_def prio_targets_def plain_prio_env_def set_one_prio_def set_one_prio_perm_def
        root_state_def clamp_nice_def set_user_nice_def)
qed

text \<open>
  C32: \<open>getpriority\<close> gives \<open>EINVAL\<close>, \<open>ESRCH\<close> when no thread is selected, or a value from 1 to
  40 that is the best among the selected threads; so a result is never taken for an error.
  \<open>setpriority\<close> keeps every nice value in range and changes only selected threads, to the
  clamped value, where the caller is allowed to.
\<close>

theorem priorities_in_range:
  assumes "nice_ok s"
  shows "getpriority env which who s \<in> {- EINVAL, - ESRCH} \<union> {1..40}
    \<and> nice_ok (snd (setpriority env which who n s))
    \<and> (task_nice (snd (setpriority env which who n s)) q = task_nice s q
       \<or> q \<in> set (prio_targets env which who)
         \<and> task_nice (snd (setpriority env which who n s)) q = clamp_nice n
         \<and> may_set env (clamp_nice n) q (task_nice s q))"
proof (intro conjI)
  let ?f = "\<lambda>p. nice_to_rlimit (task_nice s p)"
  have "?f p \<in> {1..40}" for p
    using assms [unfolded nice_ok_def, THEN spec, of p] by (simp add: nice_to_rlimit_def)
  then have "insert (- ESRCH) (?f ` set ps) \<subseteq> {- ESRCH} \<union> {1..40}" for ps
    by blast
  moreover have "best_prio s ps (- ESRCH) \<in> insert (- ESRCH) (?f ` set ps)" for ps
    unfolding best_prio_max by (rule Max_in) simp_all
  ultimately have "best_prio s ps (- ESRCH) \<in> {- ESRCH} \<union> {1..40}" for ps
    by (rule subsetD)
  then show "getpriority env which who s \<in> {- EINVAL, - ESRCH} \<union> {1..40}"
    unfolding getpriority_def by simp
  show "nice_ok (snd (setpriority env which who n s))"
    using assms set_prios_ok [OF assms clamp_nice_range] by (simp add: setpriority_def)
  show "task_nice (snd (setpriority env which who n s)) q = task_nice s q
       \<or> q \<in> set (prio_targets env which who)
         \<and> task_nice (snd (setpriority env which who n s)) q = clamp_nice n
         \<and> may_set env (clamp_nice n) q (task_nice s q)"
    using set_prios_effect [of env "clamp_nice n" "prio_targets env which who" "- ESRCH" s q]
    by (simp add: setpriority_def)
qed

theorem priorities_in_range_witness:
  "getpriority plain_prio_env 2 0 \<lparr>task_nice = \<lambda>_. 0\<rparr> \<in> {- EINVAL, - ESRCH} \<union> {1..40}
   \<and> nice_ok (snd (setpriority plain_prio_env 2 0 5 \<lparr>task_nice = \<lambda>_. 0\<rparr>))"
  using priorities_in_range [of "\<lparr>task_nice = \<lambda>_. 0\<rparr>" plain_prio_env 2 0 5] by (simp add: nice_ok_def)

end
