(* ===== verification/Spec2Isabelle.thy ===== *)
theory Spec2Isabelle
  imports Mem_Limits_Spec Proc_Stats Syscall_Usage System_Reports Cpu_Module Limited_Process
    Resource_Limits Sessions Priorities
begin

text \<open>
  A verification library for the three kernel projects of this repository, which extend
  Linux with system calls and modify some of its memory code.

  \<^bold>\<open>Parts of the program.\<close> Project 3 limits the memory of chosen processes:
  \<open>kernel/usac/project3/crudmemlimit.c\<close> keeps the list of limits with its four system calls and
  the admission check, which \<open>mm/mmap.c\<close> calls from \<open>brk\<close> and \<open>ksys_mmap_pgoff\<close>. Project 2
  reports memory statistics and allocates lazily zeroed memory (\<open>kernel/usac/\<close>). Project 1
  snapshots memory, counts calls of chosen system calls and reports I/O (\<open>kernel/usac/\<close>,
  \<open>kernel/sys.c\<close>), and has a module that reports CPU and memory use. \<open>kernel/sys.c\<close> and
  \<open>mm/mmap.c\<close> are whole files of Linux; the parts of them listed below are modelled with the
  changes of the projects in place.

  \<^bold>\<open>Shared theories.\<close>
  \<^item> \<open>Kernel_Prelude\<close>: integer widths, error numbers, page arithmetic on 64-bit words, byte
    images of words.
  \<^item> \<open>Kernel_Types\<close>: the address space, its areas, tasks, and user memory.
  \<^item> \<open>Maple_Tree\<close>: the ordered map from address ranges to areas, as a list of ranges in order,
    with the interface \<open>range_tree\<close>.

  \<^bold>\<open>The limiter.\<close>
  \<^item> \<open>Mem_Limits\<close>: every function of \<open>crudmemlimit.c\<close> under its own name, over a record of the
    list, the mutex and the live allocations; the interface \<open>limit_store\<close> and its
    interpretation on the list primitives.
  \<^item> \<open>Mem_Limits_Spec\<close>: the limiter's specification on maps, the refinement, the invariant over
    all call sequences, and the byte image that the read call delivers.

  \<^bold>\<open>Address spaces\<close> (\<open>mm/mmap.c\<close>).
  \<^item> \<open>Vma_Model\<close>: the environment of the memory code and the operations on single areas:
    \<open>vma_link\<close>, \<open>vma_expand\<close>, \<open>vma_shrink\<close>, \<open>__split_vma\<close> and the steps they share.
  \<^item> \<open>Vma_Inv\<close>, \<open>Vma_Ops\<close>: the invariant \<open>mm_inv\<close> (what \<open>validate_mm\<close> checks, and that ranges are
    disjoint and aligned) and what each operation does to it.
  \<^item> \<open>Vma_View\<close>: the abstract view, for every address whether it is mapped and with which
    attributes, and \<open>mm_ok\<close>, the invariant with the page counter. All later specifications are
    stated on the view.
  \<^item> \<open>Munmap\<close>: \<open>munmap\<close> and the functions below it remove exactly a range from the view or
    change nothing. The collecting loop of \<open>do_vmi_align_munmap\<close> has the number of areas as
    fuel; every round passes an area, so it never runs out.
  \<^item> \<open>Vma_Merge\<close>, \<open>Vma_Merge_Proofs\<close>, \<open>Vma_Merge_Spec\<close>: the eight cases of \<open>vma_merge\<close>, its
    callers, and its contract.
  \<^item> \<open>Vma_Add\<close>, \<open>Address_Search\<close>: what adding a range does to the view and the counters; the
    checks on addresses and \<open>get_unmapped_area\<close>.
  \<^item> \<open>Brk\<close>: \<open>brk\<close> with the admission check, \<open>vm_brk_flags\<close> and \<open>do_brk_flags\<close>; the break moves as
    asked or nothing changes, and a raised break respects the limit.
  \<^item> \<open>Mmap_Region\<close>, \<open>Mmap_Region_Spec\<close>, \<open>Mmap_Call\<close>: \<open>mmap_region\<close>, \<open>do_mmap\<close> and
    \<open>ksys_mmap_pgoff\<close> with the admission check; what a request maps, on every error path what
    it leaves behind, and that it respects the limit up to the last page.
  \<^item> \<open>Limited_Process\<close>: any sequence of \<open>brk\<close>, \<open>munmap\<close> and \<open>mmap\<close> calls, through the interface
    \<open>bounded_calls\<close>; the theorem at the end of this theory puts limiter and memory code together.

  \<^bold>\<open>System calls of\<close> \<open>kernel/sys.c\<close>.
  \<^item> \<open>Credentials\<close>: the calls that set and read user and group ids. Without capabilities no
    sequence of them gains an id; the interface \<open>shrinking\<close> carries that argument and is
    interpreted for user ids, group ids and both.
  \<^item> \<open>Resource_Limits\<close>: \<open>getrlimit\<close>, \<open>setrlimit\<close>, \<open>prlimit64\<close> and the old and 32-bit variants;
    order and monotonicity of limits over all calls, round trip and error behaviour.
  \<^item> \<open>Sessions\<close>: \<open>setpgid\<close>, \<open>setsid\<close> and the calls that read ids; a process group lies within one
    session.
  \<^item> \<open>Priorities\<close>: \<open>setpriority\<close> and \<open>getpriority\<close>.

  \<^bold>\<open>Reports.\<close>
  \<^item> \<open>Proc_Stats\<close>: \<open>pidstats.c\<close>, \<open>pidstatsv2.c\<close>, \<open>globalstats.c\<close> and \<open>tamalloc.c\<close>.
  \<^item> \<open>Syscall_Usage\<close>: the counters of \<open>syscall2.c\<close>.
  \<^item> \<open>System_Reports\<close>: \<open>sysinfo\<close>, its 32-bit variant, the memory snapshot, the I/O report and
    \<open>getcpu\<close>.
  \<^item> \<open>Cpu_Module\<close>: \<open>modules/mem_and_cpu_info_202110206.c\<close>.

  \<^bold>\<open>Conventions.\<close> A machine integer is a word of its width. A system call returns its status
  as an integer, negative error numbers included, or as the word that the kernel returns, and
  the new state; the option around it is \<open>None\<close> where the code would block on its own mutex,
  follow a pointer to nothing, free what is not allocated or write outside a buffer. What the
  sources only call (task lookup, capabilities, allocation, drivers, copies to and from user
  memory, \<open>vm_mmap_pgoff\<close> of \<open>mm/util.c\<close>) is a field of an environment record; a law that a
  theorem needs of such a field is a named hypothesis of the theorem, and its witness shows an
  environment that satisfies it. Lists and maple trees of the kernel are lists. A C function
  with several parts or labels is several definitions, named after what the part does.

  \<^bold>\<open>Not modelled.\<close> Concurrency inside one call: the code holds \<open>mmap_lock\<close> or a mutex, and calls
  are steps of sequences. TLB and cache maintenance, page tables, and notifications of tracing
  and of huge-page and page-sharing daemons: recorded as calls or left out, as they do not
  change what the modelled state shows. From \<open>mm/mmap.c\<close>: \<open>remap_file_pages\<close>, growing stacks,
  \<open>exit_mmap\<close>, special mappings, locking of all areas, and the reserves; from \<open>kernel/sys.c\<close>:
  \<open>prctl\<close>, \<open>getrusage\<close>, \<open>times\<close>, names of the system, \<open>umask\<close>; \<open>kernel/fork.c\<close>, \<open>fs/open.c\<close> and
  \<open>fs/read_write.c\<close>, in which the projects only add the calls of \<open>track_syscall\<close>;
  \<open>custom/main.c\<close> and \<open>custom/uts.h\<close>, which change texts; user programs, tables and scripts.
\<close>

section \<open>The limit over all calls of a process\<close>

text \<open>
  C39: The limit holds over every sequence of \<open>brk\<close>, \<open>munmap\<close> and \<open>mmap\<close> calls of a process
  whose limit is at most \<open>l\<close> whenever it makes one. All the calls return, the address space is
  in order and within user space after each, and the process never has more memory mapped than
  it had at the beginning or than \<open>l\<close> rounded up to whole pages.
\<close>

theorem limited_process_bounded:
  assumes "space_ok T mm" and "\<forall>e \<in> set es. event_ok T p l e"
  shows "\<exists>mm'. mem_run (mem_exec p) es mm = Some mm' \<and> space_ok T mm'
    \<and> used_bytes mm' \<le> max (used_bytes mm) (page_round l)"
  by (rule limited.run_bounded [OF assms(2,1)])

definition ex_space :: mm_struct where
  "ex_space = ex_heap\<lparr>end_data := 0x8000\<rparr>"

definition ex_event :: "mem_call \<Rightarrow> mem_event" where
  "ex_event c = \<lparr>ev_env = plain_env, ev_files = plain_files, ev_limits_env = ex_env, ev_limits = ex_limits, ev_call = c\<rparr>"

lemma ex_space_ok: "space_ok 0x7ffffffff000 ex_space"
  by (simp add: space_ok_def ex_space_def ex_heap_def empty_mm_def mm_ok_def mm_inv_def mt_ok_def entries_def
      aligned_areas_def pages_of_def mm_view_def vma_lookup_def mt_walk_def)

lemma ex_event_ok: "event_ok 0x7ffffffff000 7 8192 (ex_event c)"
proof -
  have "find_task_by_vpid ex_env 7 = Some ex_task" "pid ex_task = 7" "limits_of (memory_list ex_limits) 7 = Some 8192"
    by (simp_all add: ex_defs limits_of_def find_entry_def)
  moreover have "task_size plain_env = 0x7ffffffff000" by (simp add: plain_env_def)
  ultimately show ?thesis
    using plain_map_laws plain_laws(1) ex_inv by (simp add: event_ok_def ex_event_def)
qed

theorem limited_process_bounded_witness:
  "\<exists>mm'. mem_run (mem_exec 7) (map ex_event [Brk_call 0x11000, Mmap_call 0x20000 0x1000 3 0x22 0 0,
      Mmap_call 0x30000 0x1000 3 0x22 0 0, Munmap_call 0x20000 0x1000]) ex_space = Some mm'
    \<and> used_bytes mm' \<le> 8192"
proof -
  have "used_bytes ex_space = 0" "page_round 8192 = 8192"
    by (simp_all add: used_bytes_def ex_space_def ex_heap_def empty_mm_def page_round_def)
  moreover have "\<forall>e \<in> set (map ex_event cs). event_ok 0x7ffffffff000 7 8192 e" for cs
    using ex_event_ok by auto
  ultimately show ?thesis
    using limited_process_bounded [OF ex_space_ok] by fastforce
qed

end
